(* ===== verification/Prelude.thy ===== *)
theory Prelude
  imports Complex_Main "HOL-Library.Word" "HOL-Library.List_Lexorder" "HOL-Library.Char_ord"
begin

text \<open>
  Shared vocabulary of the development: Go's \<open>int64\<close> and PostgreSQL's \<open>BIGINT\<close> as 64-bit words,
  the error values of the service, JSON values, HTTP responses, and the generic lemmas on
  list-backed tables (lookup by key, update by key, sums over rows) that every component uses.
\<close>

section \<open>Named fact collections\<close>

named_theorems run_simps \<open>inversion of runs of the effect monad\<close>
named_theorems row_simps \<open>effect of one SQL statement on the rows of a table\<close>
named_theorems const_defs \<open>string constants of the source\<close>

section \<open>Machine integers\<close>

type_synonym int64 = "64 word"
type_synonym time = int

definition int64_range :: "int \<Rightarrow> bool" where
  "int64_range i \<longleftrightarrow> - (2 ^ 63) \<le> i \<and> i < 2 ^ 63"

lemma sint_int64_range [simp]: "int64_range (sint (x :: int64))"
  using sint_range_size [of x] by (simp add: int64_range_def word_size)

lemma sint_word_of_int64: "int64_range i \<Longrightarrow> sint (word_of_int i :: int64) = i"
  by (simp add: int64_range_def sint_sbintrunc' signed_take_bit_int_eq_self)

lemma sint_add_word64:
  "int64_range (sint (a :: int64) + i) \<Longrightarrow> sint (a + word_of_int i) = sint a + i"
  using sint_word_of_int64 [of "sint a + i"] by simp

lemma word_of_sint64 [simp]: "word_of_int (sint (x :: int64)) = x"
  by simp

lemma sint_eq_iff64: "sint (x :: int64) = sint y \<longleftrightarrow> x = y"
  by (metis word_of_sint64)

section \<open>Errors\<close>

text \<open>
  The error values of the Go code. The sentinels are the package-level \<open>errors.New\<close> variables
  (compared by identity, so each is its own constructor); \<open>ErrorsNew\<close> is an anonymous
  \<open>errors.New\<close>, \<open>ErrorfW\<close> and \<open>ErrorfWSuffix\<close> a \<open>fmt.Errorf\<close> that wraps with \<open>%w\<close> at its end or start, \<open>PgError\<close> an error of PostgreSQL with its
  SQLSTATE, \<open>ErrNoRows\<close> is \<open>pgx.ErrNoRows\<close>, \<open>ScanError\<close> a failed conversion of a result column, and
  \<open>DriverError\<close> every failure that does not come from the statement itself (lost connection,
  cancelled context, aborted lock wait).
\<close>

datatype error =
    ErrWalletNotFound
  | ErrUnauthorizedWalletAccess
  | ErrImbalancedLedger
  | ErrEmptyEntries
  | ErrInsufficientFunds
  | ErrSameWallet
  | ErrCurrencyMismatch
  | ErrKeyInProgress
  | ErrInvalidStateTransition
  | ErrPaymentNotFound
  | ErrDuplicateWebhook
  | ErrUserNotFound
  | ErrUserExists
  | ErrInvalidCredentials
  | ErrRateLimitExceeded
  | ErrNoRows
  | ErrorsNew string
  | ErrorfW string error
  | ErrorfWSuffix error string
  | PgError string
  | ScanError
  | DriverError string

text \<open>\<open>errors.Is\<close>: the error itself or anything it wraps.\<close>

fun errors_Is :: "error \<Rightarrow> error \<Rightarrow> bool" where
  "errors_Is (ErrorfW s e) target = (ErrorfW s e = target \<or> errors_Is e target)"
| "errors_Is (ErrorfWSuffix e s) target = (ErrorfWSuffix e s = target \<or> errors_Is e target)"
| "errors_Is e target = (e = target)"

text \<open>\<open>errors.As\<close> into an interface with \<open>SQLState()\<close>: the first PostgreSQL error in the chain.\<close>

fun errors_As_SQLState :: "error \<Rightarrow> string option" where
  "errors_As_SQLState (PgError code) = Some code"
| "errors_As_SQLState (ErrorfW s e) = errors_As_SQLState e"
| "errors_As_SQLState (ErrorfWSuffix e s) = errors_As_SQLState e"
| "errors_As_SQLState e = None"

text \<open>
  \<open>err.Error()\<close>: the messages of the source, and the rendering \<open>lib\<close> of the errors that come from pgx.
\<close>

fun error_text :: "(error \<Rightarrow> string) \<Rightarrow> error \<Rightarrow> string" where
  "error_text lib ErrWalletNotFound = ''wallet not found''"
| "error_text lib ErrUnauthorizedWalletAccess = ''unauthorized to access this wallet''"
| "error_text lib ErrImbalancedLedger = ''ledger transaction is imbalanced (debits != credits)''"
| "error_text lib ErrEmptyEntries = ''ledger transaction requires at least 2 entries''"
| "error_text lib ErrInsufficientFunds = ''insufficient funds''"
| "error_text lib ErrSameWallet = ''source and destination wallets must be different''"
| "error_text lib ErrCurrencyMismatch = ''currency mismatch between wallets''"
| "error_text lib ErrKeyInProgress = ''request is currently in progress''"
| "error_text lib ErrInvalidStateTransition = ''invalid payment state transition''"
| "error_text lib ErrPaymentNotFound = ''payment not found''"
| "error_text lib ErrDuplicateWebhook = ''duplicate webhook event''"
| "error_text lib ErrUserNotFound = ''user not found''"
| "error_text lib ErrUserExists = ''user already exists''"
| "error_text lib ErrInvalidCredentials = ''invalid credentials''"
| "error_text lib ErrRateLimitExceeded = ''rate limit exceeded''"
| "error_text lib (ErrorsNew s) = s"
| "error_text lib (ErrorfW s e) = s @ '': '' @ error_text lib e"
| "error_text lib (ErrorfWSuffix e s) = error_text lib e @ '': '' @ s"
| "error_text lib e = lib e"

text \<open>SQLSTATE codes of the errors the schema and the column types can raise.\<close>

definition unique_violation :: error where
  "unique_violation = PgError ''23505''"

definition foreign_key_violation :: error where
  "foreign_key_violation = PgError ''23503''"

definition check_violation :: error where
  "check_violation = PgError ''23514''"

definition numeric_value_out_of_range :: error where
  "numeric_value_out_of_range = PgError ''22003''"

definition invalid_text_representation :: error where
  "invalid_text_representation = PgError ''22P02''"

definition string_data_right_truncation :: error where
  "string_data_right_truncation = PgError ''22001''"

lemmas sqlstate_defs = unique_violation_def foreign_key_violation_def check_violation_def
  numeric_value_out_of_range_def invalid_text_representation_def string_data_right_truncation_def

text \<open>\<open>BIGINT\<close> arithmetic raises an error instead of wrapping.\<close>

definition bigint :: "int \<Rightarrow> error + int64" where
  "bigint i = (if int64_range i then Inr (word_of_int i) else Inl numeric_value_out_of_range)"

lemma bigint_Inr_iff: "bigint i = Inr x \<longleftrightarrow> sint x = i"
  by (auto simp: bigint_def sint_word_of_int64)

lemma bigint_sint [simp]: "bigint (sint x) = Inr x"
  by (simp add: bigint_Inr_iff)

section \<open>Decimal text\<close>

text \<open>\<open>%d\<close> of \<open>fmt.Sprintf\<close> and \<open>strconv.Itoa\<close>.\<close>

fun decimal_nat :: "nat \<Rightarrow> string" where
  "decimal_nat n =
     (if n < 10 then [char_of (48 + n)] else decimal_nat (n div 10) @ [char_of (48 + n mod 10)])"

declare decimal_nat.simps [simp del]

definition decimal :: "int \<Rightarrow> string" where
  "decimal i = (if i < 0 then ''-'' @ decimal_nat (nat (- i)) else decimal_nat (nat i))"

section \<open>JSON values and HTTP responses\<close>

text \<open>\<open>JInt\<close> is an integer literal, \<open>JNumber\<close> the text of any other number literal.\<close>

datatype json =
    JNull
  | JBool bool
  | JInt int
  | JNumber string
  | JString string
  | JArray "json list"
  | JObject "(string \<times> json) list"

text \<open>
  The body of a reply: none, the text given to \<open>http.Error\<close> as a literal, the rendered text of an
  error value (\<open>err.Error()\<close>), or a JSON document.
\<close>

datatype body = NoBody | TextBody string | ErrorBody error | JsonBody json

record response =
  resp_status :: int
  resp_body :: body

definition http_Error :: "body \<Rightarrow> int \<Rightarrow> response" where
  "http_Error b code = \<lparr>resp_status = code, resp_body = b\<rparr>"

section \<open>Tables as lists of rows\<close>

text \<open>
  A table is the list of its rows in the order of insertion. \<open>row_with k x rows\<close> is the row whose
  column \<open>k\<close> is \<open>x\<close>; \<open>update_where k x f rows\<close> rewrites the rows whose column \<open>k\<close> is \<open>x\<close>.
\<close>

definition row_with :: "('r \<Rightarrow> 'k) \<Rightarrow> 'k \<Rightarrow> 'r list \<Rightarrow> 'r option" where
  "row_with k x rows = find (\<lambda>r. k r = x) rows"

definition update_where :: "('r \<Rightarrow> 'k) \<Rightarrow> 'k \<Rightarrow> ('r \<Rightarrow> 'r) \<Rightarrow> 'r list \<Rightarrow> 'r list" where
  "update_where k x f rows = map (\<lambda>r. if k r = x then f r else r) rows"

lemma row_with_Nil [simp]: "row_with k x [] = None"
  by (simp add: row_with_def)

lemma row_with_Cons [simp]:
  "row_with k x (r # rs) = (if k r = x then Some r else row_with k x rs)"
  by (simp add: row_with_def)

lemma row_with_SomeD: "row_with k x rows = Some r \<Longrightarrow> r \<in> set rows \<and> k r = x"
  by (induction rows) (auto split: if_splits)

lemma row_with_None_iff: "row_with k x rows = None \<longleftrightarrow> x \<notin> k ` set rows"
  by (induction rows) auto

lemma row_with_distinct:
  "distinct (map k rows) \<Longrightarrow> r \<in> set rows \<Longrightarrow> row_with k (k r) rows = Some r"
  by (induction rows) (auto simp: image_iff)

lemma row_with_append:
  "row_with k x (rs @ rs') = (case row_with k x rs of None \<Rightarrow> row_with k x rs' | Some r \<Rightarrow> Some r)"
  by (induction rs) auto

lemma update_where_Nil [simp]: "update_where k x f [] = []"
  by (simp add: update_where_def)

lemma update_where_Cons [simp]:
  "update_where k x f (r # rs) = (if k r = x then f r else r) # update_where k x f rs"
  by (simp add: update_where_def)

lemma set_update_where:
  "set (update_where k x f rows) = (\<lambda>r. if k r = x then f r else r) ` set rows"
  by (simp add: update_where_def)

lemma in_update_where:
  "r \<in> set rows \<Longrightarrow> k r = x \<Longrightarrow> f r \<in> set (update_where k x f rows)"
  by (force simp: set_update_where)

lemma in_update_where_other:
  "r \<in> set rows \<Longrightarrow> k r \<noteq> x \<Longrightarrow> r \<in> set (update_where k x f rows)"
  by (force simp: set_update_where)

lemma length_update_where [simp]: "length (update_where k x f rows) = length rows"
  by (simp add: update_where_def)

lemma map_update_where:
  "(\<And>r. k r = x \<Longrightarrow> g (f r) = g r) \<Longrightarrow> map g (update_where k x f rows) = map g rows"
  by (auto simp: update_where_def)

lemma image_update_where:
  "(\<And>r. k (f r) = k r) \<Longrightarrow> k ` set (update_where k' x f rows) = k ` set rows"
  using arg_cong [OF map_update_where [of k' x k f rows], of set] by simp

lemma update_where_none: "x \<notin> k ` set rows \<Longrightarrow> update_where k x f rows = rows"
  by (induction rows) auto

lemma row_with_update_where:
  assumes "\<And>r. k (f r) = k r"
  shows "row_with k y (update_where k x f rows) =
    (if y = x then map_option f (row_with k x rows) else row_with k y rows)"
  using assms by (induction rows) auto

text \<open>A sum over the rows changes by what the one matching row changes.\<close>

lemma sum_update_where:
  fixes g :: "'r \<Rightarrow> int"
  assumes "distinct (map k rows)" and "row_with k x rows = Some r"
  shows "sum_list (map g (update_where k x f rows)) = sum_list (map g rows) + (g (f r) - g r)"
  using assms
proof (induction rows)
  case Nil
  then show ?case by simp
next
  case (Cons a rows)
  show ?case
  proof (cases "k a = x")
    case True
    with Cons.prems have "update_where k x f rows = rows"
      by (auto intro!: update_where_none)
    with True Cons.prems show ?thesis by simp
  next
    case False
    with Cons show ?thesis by simp
  qed
qed

lemma distinct_map_append1:
  "distinct (map k (rows @ [r])) \<longleftrightarrow> distinct (map k rows) \<and> k r \<notin> k ` set rows"
  by auto

end
