(* ===== verification/Observability.thy ===== *)
theory Observability
  imports Prelude
begin

text \<open>
  The Prometheus metrics of \<open>internal/observability/metrics.go\<close>: one counter per label value, and the histogram
  of the latencies as the list of its observations, latest first (what a bucket counts is read off it). Every other part of the library carries them in its state, so that
  what is counted on a path that is rolled back can be stated.
\<close>

record metrics =
  HTTPRequestsTotal :: "string \<times> string \<times> string \<Rightarrow> nat"
  HTTPRequestDuration :: "string \<times> string \<Rightarrow> time list"
  TransfersTotal :: "string \<Rightarrow> nat"
  PaymentsTotal :: "string \<Rightarrow> nat"

definition RecordTransfer :: "bool \<Rightarrow> metrics \<Rightarrow> metrics" where
  "RecordTransfer success m =
     (if success
      then m\<lparr>TransfersTotal := (TransfersTotal m)(''success'' := Suc (TransfersTotal m ''success''))\<rparr>
      else m\<lparr>TransfersTotal := (TransfersTotal m)(''failure'' := Suc (TransfersTotal m ''failure''))\<rparr>)"

definition RecordPayment :: "string \<Rightarrow> metrics \<Rightarrow> metrics" where
  "RecordPayment status m =
     m\<lparr>PaymentsTotal := (PaymentsTotal m)(status := Suc (PaymentsTotal m status))\<rparr>"

text \<open>The initial value of the counters.\<close>

definition metrics0 :: metrics where
  "metrics0 = \<lparr>HTTPRequestsTotal = (\<lambda>_. 0), HTTPRequestDuration = (\<lambda>_. []), TransfersTotal = (\<lambda>_. 0), PaymentsTotal = (\<lambda>_. 0)\<rparr>"

end
