(* ===== verification/Database.thy ===== *)
theory Database
  imports Prelude Observability
begin

text \<open>
  The relational store: the tables of \<open>db/migrations\<close> with their constraints, the environment of
  PostgreSQL and pgx as a parameter, and the effect monad in which the Go code runs its
  statements and transactions.
\<close>

section \<open>Rows\<close>

text \<open>
  A row and the Go struct it is scanned into are one record when their columns coincide
  (\<open>Wallet\<close>, \<open>Transfer\<close>, \<open>Payment\<close>, \<open>Event\<close>, \<open>User\<close>, \<open>Run\<close>, \<open>Item\<close>, \<open>Entry\<close>). Identifiers are
  UUIDs in their canonical text form. The enumerated Go types (\<open>type Direction string\<close> and so on)
  are open string types in the source and are strings here.
\<close>

record User =
  u_ID :: string
  u_Email :: string
  u_PasswordHash :: string
  u_Role :: string
  u_CreatedAt :: time
  u_UpdatedAt :: time

record Account =
  a_ID :: string
  a_Type :: string
  a_Currency :: string
  a_CreatedAt :: time

record Wallet =
  w_ID :: string
  w_OwnerID :: string
  w_AccountID :: string
  w_Currency :: string
  w_AvailableBalance :: int64
  w_LockedBalance :: int64
  w_Status :: string
  w_Version :: int64
  w_CreatedAt :: time
  w_UpdatedAt :: time

record LedgerTransactionRow =
  lt_ID :: string
  lt_ReferenceID :: string
  lt_ReferenceType :: string
  lt_Status :: string
  lt_CreatedAt :: time

record Entry =
  e_ID :: string
  e_TransactionID :: string
  e_AccountID :: string
  e_Amount :: int64
  e_Direction :: string
  e_Currency :: string
  e_CreatedAt :: time

record KeyRow =
  ik_Key :: string
  ik_Status :: string
  ik_RequestPayload :: json
  ik_ResponsePayload :: "json option"
  ik_ResponseStatus :: "int option"
  ik_LockedAt :: "time option"
  ik_CreatedAt :: time

record Transfer =
  t_ID :: string
  t_SourceWalletID :: string
  t_DestinationWalletID :: string
  t_Amount :: int64
  t_Currency :: string
  t_Status :: string
  t_IdempotencyKey :: string
  t_CreatedAt :: time

record Payment =
  p_ID :: string
  p_WalletID :: string
  p_Amount :: int64
  p_Currency :: string
  p_Status :: string
  p_ProviderReference :: string
  p_CreatedAt :: time
  p_UpdatedAt :: time

record WebhookRow =
  we_ID :: string
  we_Provider :: string
  we_EventID :: string
  we_EventType :: string
  we_Payload :: json
  we_Status :: string
  we_CreatedAt :: time

record Event =
  ev_ID :: string
  ev_Topic :: string
  ev_Payload :: json
  ev_Status :: string
  ev_Attempts :: int
  ev_NextRetryAt :: time
  ev_ErrorMsg :: "error option"
  ev_CreatedAt :: time
  ev_UpdatedAt :: time

record Run =
  run_ID :: string
  run_Status :: string
  run_WalletsChecked :: int64
  run_LedgerTransactionsChecked :: int64
  run_MismatchesFound :: int64
  run_StartedAt :: time
  run_CompletedAt :: "time option"

record Item =
  it_ID :: string
  it_RunID :: string
  it_EntityType :: string
  it_EntityID :: string
  it_MismatchType :: string
  it_Details :: json
  it_CreatedAt :: time

record db =
  users :: "User list"
  accounts :: "Account list"
  wallets :: "Wallet list"
  ledger_transactions :: "LedgerTransactionRow list"
  ledger_entries :: "Entry list"
  idempotency_keys :: "KeyRow list"
  transfers :: "Transfer list"
  payments :: "Payment list"
  webhook_events :: "WebhookRow list"
  outbox_events :: "Event list"
  reconciliation_runs :: "Run list"
  reconciliation_items :: "Item list"

definition empty_db :: db where
  "empty_db = \<lparr>users = [], accounts = [], wallets = [], ledger_transactions = [],
     ledger_entries = [], idempotency_keys = [], transfers = [], payments = [],
     webhook_events = [], outbox_events = [], reconciliation_runs = [], reconciliation_items = []\<rparr>"

section \<open>Constraints of the schema\<close>

text \<open>
  \<open>checked\<close> raises the first constraint that fails. PostgreSQL evaluates the \<open>CHECK\<close> constraints
  of a row first, then its unique indexes, then its foreign keys.
\<close>

fun checked :: "(bool \<times> error) list \<Rightarrow> 'a \<Rightarrow> error + 'a" where
  "checked [] x = Inr x"
| "checked ((ok, e) # cs) x = (if ok then checked cs x else Inl e)"

lemma checked_Inr_iff: "checked cs x = Inr y \<longleftrightarrow> y = x \<and> list_all fst cs"
  by (induction cs) (auto split: if_splits)

declare checked.simps [simp del]

definition insert_users :: "User \<Rightarrow> db \<Rightarrow> error + db" where
  "insert_users r d = checked
     [(u_ID r \<notin> u_ID ` set (users d), unique_violation),
      (u_Email r \<notin> u_Email ` set (users d), unique_violation)]
     (d\<lparr>users := users d @ [r]\<rparr>)"

definition insert_accounts :: "Account \<Rightarrow> db \<Rightarrow> error + db" where
  "insert_accounts r d = checked
     [(a_ID r \<notin> a_ID ` set (accounts d), unique_violation)]
     (d\<lparr>accounts := accounts d @ [r]\<rparr>)"

definition wallet_checks :: "Wallet \<Rightarrow> (bool \<times> error) list" where
  "wallet_checks r =
     [(0 \<le> sint (w_AvailableBalance r), check_violation),
      (0 \<le> sint (w_LockedBalance r), check_violation)]"

definition insert_wallets :: "Wallet \<Rightarrow> db \<Rightarrow> error + db" where
  "insert_wallets r d = checked
     (wallet_checks r @
      [(w_ID r \<notin> w_ID ` set (wallets d), unique_violation),
       (w_OwnerID r \<in> u_ID ` set (users d), foreign_key_violation),
       (w_AccountID r \<in> a_ID ` set (accounts d), foreign_key_violation)])
     (d\<lparr>wallets := wallets d @ [r]\<rparr>)"

definition insert_ledger_transactions :: "LedgerTransactionRow \<Rightarrow> db \<Rightarrow> error + db" where
  "insert_ledger_transactions r d = checked
     [(lt_ID r \<notin> lt_ID ` set (ledger_transactions d), unique_violation)]
     (d\<lparr>ledger_transactions := ledger_transactions d @ [r]\<rparr>)"

definition insert_ledger_entries :: "Entry \<Rightarrow> db \<Rightarrow> error + db" where
  "insert_ledger_entries r d = checked
     [(0 < sint (e_Amount r), check_violation),
      (e_ID r \<notin> e_ID ` set (ledger_entries d), unique_violation),
      (e_TransactionID r \<in> lt_ID ` set (ledger_transactions d), foreign_key_violation),
      (e_AccountID r \<in> a_ID ` set (accounts d), foreign_key_violation)]
     (d\<lparr>ledger_entries := ledger_entries d @ [r]\<rparr>)"

definition insert_idempotency_keys :: "KeyRow \<Rightarrow> db \<Rightarrow> error + db" where
  "insert_idempotency_keys r d = checked
     [(ik_Key r \<notin> ik_Key ` set (idempotency_keys d), unique_violation)]
     (d\<lparr>idempotency_keys := idempotency_keys d @ [r]\<rparr>)"

definition insert_transfers :: "Transfer \<Rightarrow> db \<Rightarrow> error + db" where
  "insert_transfers r d = checked
     [(0 < sint (t_Amount r), check_violation),
      (t_SourceWalletID r \<noteq> t_DestinationWalletID r, check_violation),
      (t_ID r \<notin> t_ID ` set (transfers d), unique_violation),
      (t_SourceWalletID r \<in> w_ID ` set (wallets d), foreign_key_violation),
      (t_DestinationWalletID r \<in> w_ID ` set (wallets d), foreign_key_violation),
      (t_IdempotencyKey r \<in> ik_Key ` set (idempotency_keys d), foreign_key_violation)]
     (d\<lparr>transfers := transfers d @ [r]\<rparr>)"

definition insert_payments :: "Payment \<Rightarrow> db \<Rightarrow> error + db" where
  "insert_payments r d = checked
     [(0 < sint (p_Amount r), check_violation),
      (p_ID r \<notin> p_ID ` set (payments d), unique_violation),
      (p_ProviderReference r \<notin> p_ProviderReference ` set (payments d), unique_violation),
      (p_WalletID r \<in> w_ID ` set (wallets d), foreign_key_violation)]
     (d\<lparr>payments := payments d @ [r]\<rparr>)"

definition insert_webhook_events :: "WebhookRow \<Rightarrow> db \<Rightarrow> error + db" where
  "insert_webhook_events r d = checked
     [(we_ID r \<notin> we_ID ` set (webhook_events d), unique_violation),
      ((we_Provider r, we_EventID r) \<notin>
         (\<lambda>x. (we_Provider x, we_EventID x)) ` set (webhook_events d), unique_violation)]
     (d\<lparr>webhook_events := webhook_events d @ [r]\<rparr>)"

definition insert_outbox_events :: "Event \<Rightarrow> db \<Rightarrow> error + db" where
  "insert_outbox_events r d = checked
     [(ev_ID r \<notin> ev_ID ` set (outbox_events d), unique_violation)]
     (d\<lparr>outbox_events := outbox_events d @ [r]\<rparr>)"

definition insert_reconciliation_runs :: "Run \<Rightarrow> db \<Rightarrow> error + db" where
  "insert_reconciliation_runs r d = checked
     [(run_ID r \<notin> run_ID ` set (reconciliation_runs d), unique_violation)]
     (d\<lparr>reconciliation_runs := reconciliation_runs d @ [r]\<rparr>)"

definition insert_reconciliation_items :: "Item \<Rightarrow> db \<Rightarrow> error + db" where
  "insert_reconciliation_items r d = checked
     [(it_ID r \<notin> it_ID ` set (reconciliation_items d), unique_violation),
      (it_RunID r \<in> run_ID ` set (reconciliation_runs d), foreign_key_violation)]
     (d\<lparr>reconciliation_items := reconciliation_items d @ [r]\<rparr>)"

lemmas insert_defs = insert_users_def insert_accounts_def insert_wallets_def wallet_checks_def
  insert_ledger_transactions_def insert_ledger_entries_def insert_idempotency_keys_def
  insert_transfers_def insert_payments_def insert_webhook_events_def insert_outbox_events_def
  insert_reconciliation_runs_def insert_reconciliation_items_def

text \<open>An insert succeeds exactly when every constraint of its row holds.\<close>

lemma insert_users_iff [row_simps]:
  "insert_users r d = Inr d' \<longleftrightarrow> d' = d\<lparr>users := users d @ [r]\<rparr> \<and>
     u_ID r \<notin> u_ID ` set (users d) \<and>
     u_Email r \<notin> u_Email ` set (users d)"
  by (auto simp: insert_defs checked_Inr_iff)

lemma insert_accounts_iff [row_simps]:
  "insert_accounts r d = Inr d' \<longleftrightarrow> d' = d\<lparr>accounts := accounts d @ [r]\<rparr> \<and>
     a_ID r \<notin> a_ID ` set (accounts d)"
  by (auto simp: insert_defs checked_Inr_iff)

lemma insert_wallets_iff [row_simps]:
  "insert_wallets r d = Inr d' \<longleftrightarrow> d' = d\<lparr>wallets := wallets d @ [r]\<rparr> \<and>
     0 \<le> sint (w_AvailableBalance r) \<and>
     0 \<le> sint (w_LockedBalance r) \<and>
     w_ID r \<notin> w_ID ` set (wallets d) \<and>
     w_OwnerID r \<in> u_ID ` set (users d) \<and>
     w_AccountID r \<in> a_ID ` set (accounts d)"
  by (auto simp: insert_defs checked_Inr_iff)

lemma insert_ledger_transactions_iff [row_simps]:
  "insert_ledger_transactions r d = Inr d' \<longleftrightarrow> d' = d\<lparr>ledger_transactions := ledger_transactions d @ [r]\<rparr> \<and>
     lt_ID r \<notin> lt_ID ` set (ledger_transactions d)"
  by (auto simp: insert_defs checked_Inr_iff)

lemma insert_ledger_entries_iff [row_simps]:
  "insert_ledger_entries r d = Inr d' \<longleftrightarrow> d' = d\<lparr>ledger_entries := ledger_entries d @ [r]\<rparr> \<and>
     0 < sint (e_Amount r) \<and>
     e_ID r \<notin> e_ID ` set (ledger_entries d) \<and>
     e_TransactionID r \<in> lt_ID ` set (ledger_transactions d) \<and>
     e_AccountID r \<in> a_ID ` set (accounts d)"
  by (auto simp: insert_defs checked_Inr_iff)

lemma insert_idempotency_keys_iff [row_simps]:
  "insert_idempotency_keys r d = Inr d' \<longleftrightarrow> d' = d\<lparr>idempotency_keys := idempotency_keys d @ [r]\<rparr> \<and>
     ik_Key r \<notin> ik_Key ` set (idempotency_keys d)"
  by (auto simp: insert_defs checked_Inr_iff)

lemma insert_transfers_iff [row_simps]:
  "insert_transfers r d = Inr d' \<longleftrightarrow> d' = d\<lparr>transfers := transfers d @ [r]\<rparr> \<and>
     0 < sint (t_Amount r) \<and>
     t_SourceWalletID r \<noteq> t_DestinationWalletID r \<and>
     t_ID r \<notin> t_ID ` set (transfers d) \<and>
     t_SourceWalletID r \<in> w_ID ` set (wallets d) \<and>
     t_DestinationWalletID r \<in> w_ID ` set (wallets d) \<and>
     t_IdempotencyKey r \<in> ik_Key ` set (idempotency_keys d)"
  by (auto simp: insert_defs checked_Inr_iff)

lemma insert_payments_iff [row_simps]:
  "insert_payments r d = Inr d' \<longleftrightarrow> d' = d\<lparr>payments := payments d @ [r]\<rparr> \<and>
     0 < sint (p_Amount r) \<and>
     p_ID r \<notin> p_ID ` set (payments d) \<and>
     p_ProviderReference r \<notin> p_ProviderReference ` set (payments d) \<and>
     p_WalletID r \<in> w_ID ` set (wallets d)"
  by (auto simp: insert_defs checked_Inr_iff)

lemma insert_webhook_events_iff [row_simps]:
  "insert_webhook_events r d = Inr d' \<longleftrightarrow> d' = d\<lparr>webhook_events := webhook_events d @ [r]\<rparr> \<and>
     we_ID r \<notin> we_ID ` set (webhook_events d) \<and>
     (we_Provider r, we_EventID r) \<notin> (\<lambda>x. (we_Provider x, we_EventID x)) ` set (webhook_events d)"
  by (auto simp: insert_defs checked_Inr_iff)

lemma insert_outbox_events_iff [row_simps]:
  "insert_outbox_events r d = Inr d' \<longleftrightarrow> d' = d\<lparr>outbox_events := outbox_events d @ [r]\<rparr> \<and>
     ev_ID r \<notin> ev_ID ` set (outbox_events d)"
  by (auto simp: insert_defs checked_Inr_iff)

lemma insert_reconciliation_runs_iff [row_simps]:
  "insert_reconciliation_runs r d = Inr d' \<longleftrightarrow> d' = d\<lparr>reconciliation_runs := reconciliation_runs d @ [r]\<rparr> \<and>
     run_ID r \<notin> run_ID ` set (reconciliation_runs d)"
  by (auto simp: insert_defs checked_Inr_iff)

lemma insert_reconciliation_items_iff [row_simps]:
  "insert_reconciliation_items r d = Inr d' \<longleftrightarrow> d' = d\<lparr>reconciliation_items := reconciliation_items d @ [r]\<rparr> \<and>
     it_ID r \<notin> it_ID ` set (reconciliation_items d) \<and>
     it_RunID r \<in> run_ID ` set (reconciliation_runs d)"
  by (auto simp: insert_defs checked_Inr_iff)

text \<open>
  \<open>UPDATE wallets SET available_balance = available_balance + delta WHERE id = x\<close>: the new value
  must be a \<open>BIGINT\<close> and pass the \<open>CHECK\<close>; no row is no error.
\<close>

definition add_available_balance :: "int \<Rightarrow> string \<Rightarrow> db \<Rightarrow> error + db" where
  "add_available_balance delta x d =
     (case row_with w_ID x (wallets d) of
        None \<Rightarrow> Inr d
      | Some r \<Rightarrow>
          (case bigint (sint (w_AvailableBalance r) + delta) of
             Inl e \<Rightarrow> Inl e
           | Inr b \<Rightarrow>
               checked (wallet_checks (r\<lparr>w_AvailableBalance := b\<rparr>))
                 (d\<lparr>wallets := update_where w_ID x
                      (\<lambda>r. r\<lparr>w_AvailableBalance := b\<rparr>) (wallets d)\<rparr>)))"

lemma add_available_balance_iff [row_simps]:
  "add_available_balance delta x d = Inr d' \<longleftrightarrow>
     (case row_with w_ID x (wallets d) of
        None \<Rightarrow> d' = d
      | Some r \<Rightarrow>
          0 \<le> sint (w_AvailableBalance r) + delta \<and> 0 \<le> sint (w_LockedBalance r) \<and>
          int64_range (sint (w_AvailableBalance r) + delta) \<and>
          d' = d\<lparr>wallets := update_where w_ID x
                 (\<lambda>r'. r'\<lparr>w_AvailableBalance := w_AvailableBalance r + word_of_int delta\<rparr>)
                 (wallets d)\<rparr>)"
  by (auto simp: add_available_balance_def bigint_def wallet_checks_def checked_Inr_iff
      sint_add_word64 split: option.splits)

end
