(* ===== verification/Effects.thy ===== *)
theory Effects
  imports Database
begin

text \<open>
  How the Go code reaches the store. The environment record is the part that is not in the
  repository: PostgreSQL's input conversions, its UUID generator and clock, the faults of the
  connection, the outcome of a \<open>COMMIT\<close>, of a Kafka produce and of a Redis call, and the wall clock of the process. Every definition that
  depends on it takes it as an argument. The state is the database, a counter of the statements
  issued so far (the environment answers per statement), the start time of the open transaction,
  the metrics, the Kafka log and the Redis store.
\<close>

section \<open>The environment\<close>

text \<open>
  A \<open>COMMIT\<close> can succeed, fail and leave nothing behind, or be applied although the client sees
  an error (the connection is lost before the acknowledgement).
\<close>

datatype commit_outcome = Committed | CommitFailed string | CommitUnknown string

text \<open>
  A single statement can fail without being executed (a connection that cannot be used, a cancelled
  context, a lock wait that was aborted) or be executed while its acknowledgement is lost.
\<close>

datatype stmt_failure = NotExecuted string | AckLost string

text \<open>A synchronous produce to Kafka has the same three outcomes.\<close>

datatype produce_outcome = Produced | ProduceFailed string | ProduceUnknown string

text \<open>
  \<open>uuid_in s\<close> is the canonical form of the text \<open>s\<close> read as a UUID, \<open>varchar_in n s\<close> the value stored
  for \<open>s\<close> in a \<open>VARCHAR(n)\<close> column, \<open>jsonb_in j\<close> the value stored for a document in a \<open>JSONB\<close> column (its keys are
  reordered and deduplicated there), \<open>jsonb_text_in s\<close> the value stored for the text of a request, which PostgreSQL reads itself; all are \<open>None\<close> where PostgreSQL raises an error. Times are formatted by \<open>format_RFC3339\<close> and, in
  structs, by \<open>time_MarshalJSON\<close>. \<open>lib_error_text\<close> renders the errors of pgx. \<open>row_break\<close> is the number of rows after which the result of a
  query breaks off, \<open>redis_now\<close> the clock of Redis. \<open>rand_Intn\<close> and
  \<open>rand_Float32\<close> are the draws of \<open>math/rand\<close>, \<open>hmac_sha256_hex secret payload\<close> the hexadecimal HMAC.
\<close>

record env =
  uuid_in :: "string \<Rightarrow> string option"
  varchar_in :: "nat \<Rightarrow> string \<Rightarrow> string option"
  jsonb_in :: "json \<Rightarrow> json option"
  jsonb_text_in :: "string \<Rightarrow> json option"
  gen_random_uuid :: "nat \<Rightarrow> string"
  pg_now :: "nat \<Rightarrow> time"
  stmt_fault :: "nat \<Rightarrow> stmt_failure option"
  commit_result :: "nat \<Rightarrow> commit_outcome"
  produce_result :: "nat \<Rightarrow> produce_outcome"
  row_break :: "nat \<Rightarrow> nat option"
  redis_fault :: "nat \<Rightarrow> stmt_failure option"
  redis_now :: "nat \<Rightarrow> time"
  time_Now :: "nat \<Rightarrow> time"
  format_RFC3339 :: "time \<Rightarrow> string"
  time_MarshalJSON :: "time \<Rightarrow> string"
  rand_Intn :: "nat \<Rightarrow> nat \<Rightarrow> nat"
  rand_Float32 :: "nat \<Rightarrow> rat"
  hmac_sha256_hex :: "string \<Rightarrow> string \<Rightarrow> string"
  lib_error_text :: "error \<Rightarrow> string"

text \<open>
  The state of the running system: the database, the number of interactions so far, the open
  transaction, the metrics, the messages the Kafka cluster holds (newest last) and the Redis store
  with the expiry time of its keys.
\<close>

datatype redis_value = RedisInt int | RedisText string

record world =
  db :: db
  tick :: nat
  tx_start :: "time option"
  metrics :: metrics
  kafka_log :: "(string \<times> json) list"
  redis_store :: "string \<Rightarrow> (redis_value \<times> time option) option"

text \<open>What the \<open>select\<close> of a background worker receives: a tick of its timer or the cancellation.\<close>

datatype wakeup = Tick | CtxDone

type_synonym 'a M = "world \<Rightarrow> (error + 'a) \<times> world"

section \<open>Results and effects\<close>

text \<open>\<open>if err != nil { return err }\<close> for pure results and for computations with effects.\<close>

definition rbind :: "error + 'a \<Rightarrow> ('a \<Rightarrow> error + 'b) \<Rightarrow> error + 'b" where
  "rbind r k = (case r of Inl e \<Rightarrow> Inl e | Inr x \<Rightarrow> k x)"

definition mret :: "'a \<Rightarrow> 'a M" where
  "mret x w = (Inr x, w)"

definition mfail :: "error \<Rightarrow> 'a M" where
  "mfail e w = (Inl e, w)"

definition mbind :: "'a M \<Rightarrow> ('a \<Rightarrow> 'b M) \<Rightarrow> 'b M" where
  "mbind m k w = (case m w of (Inl e, w') \<Rightarrow> (Inl e, w') | (Inr x, w') \<Rightarrow> k x w')"

text \<open>A call whose error is wrapped: \<open>fmt.Errorf("...: %w", err)\<close>.\<close>

definition mwrap :: "(error \<Rightarrow> error) \<Rightarrow> 'a M \<Rightarrow> 'a M" where
  "mwrap f m w = (case m w of (Inl e, w') \<Rightarrow> (Inl (f e), w') | (Inr x, w') \<Rightarrow> (Inr x, w'))"

text \<open>A call whose result is inspected by the caller: the error becomes a value.\<close>

definition mtry :: "'a M \<Rightarrow> (error + 'a) M" where
  "mtry m w = (case m w of (r, w') \<Rightarrow> (Inr r, w'))"

definition mmetrics :: "(metrics \<Rightarrow> metrics) \<Rightarrow> unit M" where
  "mmetrics f w = (Inr (), w\<lparr>metrics := f (metrics w)\<rparr>)"

text \<open>\<open>time.Now()\<close> of the process.\<close>

definition mclock :: "env \<Rightarrow> time M" where
  "mclock E w = (Inr (time_Now E (tick w)), w\<lparr>tick := Suc (tick w)\<rparr>)"

lemma mclock_iff [run_simps]:
  "mclock E w = (r, w') \<longleftrightarrow> r = Inr (time_Now E (tick w)) \<and> w' = w\<lparr>tick := Suc (tick w)\<rparr>"
  by (auto simp: mclock_def)

lemma rbind_Inr_iff [run_simps]: "rbind r k = Inr y \<longleftrightarrow> (\<exists>x. r = Inr x \<and> k x = Inr y)"
  by (cases r) (auto simp: rbind_def)

lemma rbind_Inr [simp]: "rbind (Inr x) k = k x"
  by (simp add: rbind_def)

lemma rbind_Inl [simp]: "rbind (Inl e) k = Inl e"
  by (simp add: rbind_def)

lemma mret_iff [run_simps]: "mret x w = (r, w') \<longleftrightarrow> r = Inr x \<and> w' = w"
  by (auto simp: mret_def)

lemma mfail_iff [run_simps]: "mfail e w = (r, w') \<longleftrightarrow> r = Inl e \<and> w' = w"
  by (auto simp: mfail_def)

lemma mbind_Inr_iff [run_simps]:
  "mbind m k w = (Inr y, w') \<longleftrightarrow> (\<exists>x w1. m w = (Inr x, w1) \<and> k x w1 = (Inr y, w'))"
  by (auto simp: mbind_def split: prod.splits sum.splits)

lemma mbind_Inl_iff:
  "mbind m k w = (Inl e, w') \<longleftrightarrow>
     m w = (Inl e, w') \<or> (\<exists>x w1. m w = (Inr x, w1) \<and> k x w1 = (Inl e, w'))"
  by (auto simp: mbind_def split: prod.splits sum.splits)

lemma mbind_runI: "m w = (Inr x, w1) \<Longrightarrow> mbind m k w = k x w1"
  by (simp add: mbind_def)

lemma mbind_run_errI: "m w = (Inl e, w1) \<Longrightarrow> mbind m k w = (Inl e, w1)"
  by (simp add: mbind_def)

lemma mwrap_Inr_iff [run_simps]: "mwrap f m w = (Inr y, w') \<longleftrightarrow> m w = (Inr y, w')"
  by (auto simp: mwrap_def split: prod.splits sum.splits)

lemma mtry_iff [run_simps]: "mtry m w = (Inr r, w') \<longleftrightarrow> m w = (r, w')"
  by (auto simp: mtry_def split: prod.splits)

lemma mtry_not_Inl [run_simps]: "mtry m w = (Inl e, w') \<longleftrightarrow> False"
  by (auto simp: mtry_def split: prod.splits)

lemma mmetrics_iff [run_simps]:
  "mmetrics f w = (r, w') \<longleftrightarrow> r = Inr () \<and> w' = w\<lparr>metrics := f (metrics w)\<rparr>"
  by (auto simp: mmetrics_def)

section \<open>Statements\<close>

text \<open>
  A statement is a partial function on the database. It is given the UUID its
  \<open>DEFAULT gen_random_uuid()\<close> would draw and the value of \<open>NOW()\<close>. \<open>NOW()\<close> is the start of the open
  transaction, or the time of the statement itself outside of one.
\<close>

type_synonym 'a stmt = "string \<Rightarrow> time \<Rightarrow> db \<Rightarrow> error + ('a \<times> db)"

definition NOW :: "env \<Rightarrow> world \<Rightarrow> time" where
  "NOW E w = (case tx_start w of Some t \<Rightarrow> t | None \<Rightarrow> pg_now E (tick w))"

definition sql :: "env \<Rightarrow> 'a stmt \<Rightarrow> 'a M" where
  "sql E st w =
     (let w1 = w\<lparr>tick := Suc (tick w)\<rparr>;
          r = st (gen_random_uuid E (tick w)) (NOW E w) (db w)
      in case stmt_fault E (tick w) of
           Some (NotExecuted msg) \<Rightarrow> (Inl (DriverError msg), w1)
         | Some (AckLost msg) \<Rightarrow>
             (case r of
                Inl e \<Rightarrow> (Inl (DriverError msg), w1)
              | Inr (x, d) \<Rightarrow> (Inl (DriverError msg), w1\<lparr>db := d\<rparr>))
         | None \<Rightarrow>
             (case r of
                Inl e \<Rightarrow> (Inl e, w1)
              | Inr (x, d) \<Rightarrow> (Inr x, w1\<lparr>db := d\<rparr>)))"

lemma sql_Inr_iff [run_simps]:
  "sql E st w = (Inr x, w') \<longleftrightarrow>
     (\<exists>d. stmt_fault E (tick w) = None \<and>
          st (gen_random_uuid E (tick w)) (NOW E w) (db w) = Inr (x, d) \<and>
          w' = w\<lparr>db := d, tick := Suc (tick w)\<rparr>)"
  by (auto simp: sql_def Let_def split: option.splits sum.splits prod.splits stmt_failure.splits)

lemma sql_InlD:
  assumes "sql E st w = (Inl e, w')"
  shows "w' = w\<lparr>db := db w', tick := Suc (tick w)\<rparr> \<and>
    (db w' = db w \<or> (\<exists>x. st (gen_random_uuid E (tick w)) (NOW E w) (db w) = Inr (x, db w')))"
  using assms
  by (auto simp: sql_def Let_def split: option.splits sum.splits prod.splits stmt_failure.splits)

lemma sql_frame:
  "sql E st w = (r, w') \<Longrightarrow>
     tick w' = Suc (tick w) \<and> metrics w' = metrics w \<and> tx_start w' = tx_start w \<and>
     kafka_log w' = kafka_log w \<and> redis_store w' = redis_store w"
  by (auto simp: sql_def Let_def split: option.splits sum.splits prod.splits stmt_failure.splits)

text \<open>A query leaves everything but the counter as it was.\<close>

lemma sql_query:
  assumes "sql E st w = (r, w')" and "\<And>u t d x d'. st u t d = Inr (x, d') \<Longrightarrow> d' = d"
  shows "w' = w\<lparr>tick := Suc (tick w)\<rparr>"
proof (cases r)
  case (Inl e)
  with assms(1) have "w' = w\<lparr>db := db w', tick := Suc (tick w)\<rparr>" "db w' = db w"
    using assms(2) sql_InlD by blast+
  then show ?thesis by simp
next
  case (Inr x)
  with assms show ?thesis by (force simp: sql_Inr_iff)
qed

text \<open>Parameters of a statement: text read as a UUID, text stored in a \<open>VARCHAR(n)\<close>.\<close>

definition uuid_param :: "env \<Rightarrow> string \<Rightarrow> error + string" where
  "uuid_param E s =
     (case uuid_in E s of None \<Rightarrow> Inl invalid_text_representation | Some u \<Rightarrow> Inr u)"

definition varchar :: "env \<Rightarrow> nat \<Rightarrow> string \<Rightarrow> error + string" where
  "varchar E n s =
     (case varchar_in E n s of None \<Rightarrow> Inl string_data_right_truncation | Some v \<Rightarrow> Inr v)"

definition jsonb :: "env \<Rightarrow> json \<Rightarrow> error + json" where
  "jsonb E j = (case jsonb_in E j of None \<Rightarrow> Inl invalid_text_representation | Some v \<Rightarrow> Inr v)"

definition jsonb_text :: "env \<Rightarrow> string \<Rightarrow> error + json" where
  "jsonb_text E s = (case jsonb_text_in E s of None \<Rightarrow> Inl invalid_text_representation | Some v \<Rightarrow> Inr v)"

text \<open>
  Documented of PostgreSQL's UUID type: its output, the canonical form, is read back as the same
  value. Identifiers that were stored or scanned are therefore fixed points.
\<close>

definition uuid_canonical :: "env \<Rightarrow> bool" where
  "uuid_canonical E \<longleftrightarrow> (\<forall>s u. uuid_in E s = Some u \<longrightarrow> uuid_in E u = Some u)"

lemma uuid_canonicalD: "uuid_canonical E \<Longrightarrow> uuid_in E s = Some u \<Longrightarrow> uuid_in E u = Some u"
  by (auto simp: uuid_canonical_def)

lemma uuid_param_Inr_iff [run_simps]: "uuid_param E s = Inr u \<longleftrightarrow> uuid_in E s = Some u"
  by (auto simp: uuid_param_def split: option.splits)

lemma varchar_Inr_iff [run_simps]: "varchar E n s = Inr v \<longleftrightarrow> varchar_in E n s = Some v"
  by (auto simp: varchar_def split: option.splits)

lemma jsonb_Inr_iff [run_simps]: "jsonb E j = Inr v \<longleftrightarrow> jsonb_in E j = Some v"
  by (auto simp: jsonb_def split: option.splits)

lemma jsonb_text_Inr_iff [run_simps]: "jsonb_text E s = Inr v \<longleftrightarrow> jsonb_text_in E s = Some v"
  by (auto simp: jsonb_text_def split: option.splits)

text \<open>Documented of \<open>VARCHAR(n)\<close>: text of at most \<open>n\<close> characters is stored as it is.\<close>

definition varchar_exact :: "env \<Rightarrow> bool" where
  "varchar_exact E \<longleftrightarrow> (\<forall>n s v. varchar_in E n s = Some v \<longrightarrow> length s \<le> n \<longrightarrow> v = s)"

lemma varchar_exactD: "varchar_exact E \<Longrightarrow> varchar_in E n s = Some v \<Longrightarrow> length s \<le> n \<Longrightarrow> v = s"
  by (simp add: varchar_exact_def)

text \<open>A statement that yields no row value and one that reads only.\<close>

definition exec_stmt :: "(db \<Rightarrow> error + db) \<Rightarrow> db \<Rightarrow> error + (unit \<times> db)" where
  "exec_stmt f d = rbind (f d) (\<lambda>d'. Inr ((), d'))"

definition returning :: "'a \<Rightarrow> (db \<Rightarrow> error + db) \<Rightarrow> db \<Rightarrow> error + ('a \<times> db)" where
  "returning x f d = rbind (f d) (\<lambda>d'. Inr (x, d'))"

lemma exec_stmt_Inr_iff [run_simps]: "exec_stmt f d = Inr (u, d') \<longleftrightarrow> f d = Inr d'"
  by (auto simp: exec_stmt_def rbind_Inr_iff)

lemma returning_Inr_iff [run_simps]: "returning x f d = Inr (y, d') \<longleftrightarrow> y = x \<and> f d = Inr d'"
  by (auto simp: returning_def rbind_Inr_iff)

section \<open>Transactions\<close>

text \<open>
  \<open>Begin\<close>, the body, \<open>Commit\<close>, and the deferred \<open>Rollback\<close>: the pattern of every transaction of the
  code. The body returns at its first error, and the rollback then restores the database the
  transaction started from; the metrics and the statement counter are not part of it.
\<close>

definition end_tx :: "env \<Rightarrow> db \<Rightarrow> (error + 'a) \<times> world \<Rightarrow> (error + 'a) \<times> world" where
  "end_tx E d0 p =
     (case p of
        (Inl e, w1) \<Rightarrow> (Inl e, w1\<lparr>db := d0, tx_start := None\<rparr>)
      | (Inr x, w1) \<Rightarrow>
          (case commit_result E (tick w1) of
             Committed \<Rightarrow> (Inr x, w1\<lparr>tick := Suc (tick w1), tx_start := None\<rparr>)
           | CommitFailed msg \<Rightarrow>
               (Inl (DriverError msg), w1\<lparr>db := d0, tick := Suc (tick w1), tx_start := None\<rparr>)
           | CommitUnknown msg \<Rightarrow>
               (Inl (DriverError msg), w1\<lparr>tick := Suc (tick w1), tx_start := None\<rparr>)))"

definition withTx :: "env \<Rightarrow> 'a M \<Rightarrow> 'a M" where
  "withTx E body w =
     (case stmt_fault E (tick w) of
        Some (NotExecuted msg) \<Rightarrow> (Inl (DriverError msg), w\<lparr>tick := Suc (tick w)\<rparr>)
      | Some (AckLost msg) \<Rightarrow> (Inl (DriverError msg), w\<lparr>tick := Suc (tick w)\<rparr>)
      | None \<Rightarrow> end_tx E (db w) (body (w\<lparr>tick := Suc (tick w), tx_start := Some (pg_now E (tick w))\<rparr>)))"

text \<open>The state in which the body of a transaction runs.\<close>

definition tx_begin :: "env \<Rightarrow> world \<Rightarrow> world" where
  "tx_begin E w = w\<lparr>tick := Suc (tick w), tx_start := Some (pg_now E (tick w))\<rparr>"

lemma tx_begin_sel [simp]:
  "db (tx_begin E w) = db w" "metrics (tx_begin E w) = metrics w"
  "kafka_log (tx_begin E w) = kafka_log w" "redis_store (tx_begin E w) = redis_store w"
  "tick (tx_begin E w) = Suc (tick w)" "tx_start (tx_begin E w) = Some (pg_now E (tick w))"
  by (simp_all add: tx_begin_def)

lemma withTx_InrD:
  assumes "withTx E body w = (Inr x, w')"
  shows "\<exists>w1. body (tx_begin E w) = (Inr x, w1) \<and> stmt_fault E (tick w) = None \<and>
    commit_result E (tick w1) = Committed \<and> w' = w1\<lparr>tick := Suc (tick w1), tx_start := None\<rparr>"
  using assms
  by (auto simp: withTx_def end_tx_def tx_begin_def split: option.splits prod.splits sum.splits
      commit_outcome.splits stmt_failure.splits)

lemma withTx_InlD:
  assumes "withTx E body w = (Inl e, w')"
  shows "db w' = db w \<or>
    (\<exists>x w1 msg. body (tx_begin E w) = (Inr x, w1) \<and> commit_result E (tick w1) = CommitUnknown msg \<and>
       e = DriverError msg \<and> db w' = db w1)"
  using assms
  by (auto simp: withTx_def end_tx_def tx_begin_def split: option.splits prod.splits sum.splits
      commit_outcome.splits stmt_failure.splits)

text \<open>
  The two rules for a transaction: after success the body's postcondition holds, and on every path
  the database is the old one or one the body's success left.
\<close>

lemma withTx_post:
  assumes "withTx E body w = (Inr x, w')"
    and "\<And>w1. body (tx_begin E w) = (Inr x, w1) \<Longrightarrow> Q (db w1) (metrics w1)"
  shows "Q (db w') (metrics w')"
proof -
  from withTx_InrD [OF assms(1)] obtain w1 where "body (tx_begin E w) = (Inr x, w1)"
    and "w' = w1\<lparr>tick := Suc (tick w1), tx_start := None\<rparr>" by blast
  with assms(2) show ?thesis by simp
qed

lemma withTx_atomic:
  assumes "withTx E body w = (r, w')"
    and "\<And>x w1. body (tx_begin E w) = (Inr x, w1) \<Longrightarrow> Q x (db w1)"
  shows "db w' = db w \<or> (\<exists>x. Q x (db w'))"
proof (cases r)
  case (Inl e)
  with withTx_InlD assms(1) have "db w' = db w \<or> (\<exists>x w1. body (tx_begin E w) = (Inr x, w1) \<and> db w' = db w1)"
    by blast
  with assms(2) show ?thesis by auto
next
  case (Inr x)
  with assms have "Q x (db w')" by (auto intro: withTx_post [where Q = "\<lambda>d _. Q x d"])
  then show ?thesis by blast
qed

section \<open>Runs without faults\<close>

text \<open>An environment in which no statement and no commit fails.\<close>

definition fault_free :: "env \<Rightarrow> bool" where
  "fault_free E \<longleftrightarrow> (\<forall>n. stmt_fault E n = None) \<and> (\<forall>n. commit_result E n = Committed)"

lemma sql_run: "fault_free E \<Longrightarrow> st (gen_random_uuid E (tick w)) (NOW E w) (db w) = Inr (x, d) \<Longrightarrow>
    sql E st w = (Inr x, w\<lparr>db := d, tick := Suc (tick w)\<rparr>)"
  by (simp add: sql_Inr_iff fault_free_def)

lemma sql_run_err: "fault_free E \<Longrightarrow> st (gen_random_uuid E (tick w)) (NOW E w) (db w) = Inl e \<Longrightarrow>
    sql E st w = (Inl e, w\<lparr>tick := Suc (tick w)\<rparr>)"
  by (simp add: sql_def fault_free_def)

lemma withTx_run_err:
  "fault_free E \<Longrightarrow> body (tx_begin E w) = (Inl e, w1) \<Longrightarrow>
     withTx E body w = (Inl e, w1\<lparr>db := db w, tx_start := None\<rparr>)"
  by (simp add: withTx_def end_tx_def tx_begin_def fault_free_def)

lemma withTx_run:
  "fault_free E \<Longrightarrow> body (tx_begin E w) = (Inr x, w1) \<Longrightarrow>
     withTx E body w = (Inr x, w1\<lparr>tick := Suc (tick w1), tx_start := None\<rparr>)"
  by (simp add: withTx_def end_tx_def tx_begin_def fault_free_def)

text \<open>Computations that leave the counters alone.\<close>

definition no_metrics :: "'a M \<Rightarrow> bool" where
  "no_metrics m \<longleftrightarrow> (\<forall>w r w'. m w = (r, w') \<longrightarrow> metrics w' = metrics w)"

lemma no_metricsD: "no_metrics m \<Longrightarrow> m w = (r, w') \<Longrightarrow> metrics w' = metrics w"
  by (auto simp: no_metrics_def)

lemma no_metrics_mret: "no_metrics (mret x)"
  by (auto simp: no_metrics_def mret_def)

lemma no_metrics_mfail: "no_metrics (mfail e)"
  by (auto simp: no_metrics_def mfail_def)

lemma no_metrics_mclock: "no_metrics (mclock E)"
  by (auto simp: no_metrics_def mclock_def)

lemma no_metrics_sql: "no_metrics (sql E st)"
  by (auto simp: no_metrics_def dest: sql_frame)

lemma no_metrics_mwrap: "no_metrics m \<Longrightarrow> no_metrics (mwrap f m)"
  by (auto simp: no_metrics_def mwrap_def split: sum.splits prod.splits)

lemma no_metrics_mtry: "no_metrics m \<Longrightarrow> no_metrics (mtry m)"
  by (auto simp: no_metrics_def mtry_def split: prod.splits)

lemma no_metrics_mbind: "no_metrics m \<Longrightarrow> (\<And>x. no_metrics (k x)) \<Longrightarrow> no_metrics (mbind m k)"
  unfolding no_metrics_def mbind_def by (fastforce split: sum.splits prod.splits)

lemma no_metrics_withTx:
  assumes "no_metrics body"
  shows "no_metrics (withTx E body)"
  unfolding no_metrics_def
proof (intro allI impI)
  fix w r w'
  assume "withTx E body w = (r, w')"
  then show "metrics w' = metrics w"
    using no_metricsD [OF assms, of "tx_begin E w"]
    by (auto simp: withTx_def end_tx_def tx_begin_def split: option.splits stmt_failure.splits prod.splits sum.splits commit_outcome.splits)
qed

lemma no_metrics_case_prod: "(\<And>a b. no_metrics (f a b)) \<Longrightarrow> no_metrics (case p of (a, b) \<Rightarrow> f a b)"
  by (cases p) simp

lemma no_metrics_case_sum:
  "(\<And>e. no_metrics (f e)) \<Longrightarrow> (\<And>x. no_metrics (g x)) \<Longrightarrow> no_metrics (case r of Inl e \<Rightarrow> f e | Inr x \<Rightarrow> g x)"
  by (cases r) simp_all

lemma no_metrics_if: "no_metrics m \<Longrightarrow> no_metrics m' \<Longrightarrow> no_metrics (if b then m else m')"
  by simp

lemmas no_metrics_intros = no_metrics_mret no_metrics_mfail no_metrics_mclock no_metrics_sql no_metrics_mwrap
  no_metrics_mtry no_metrics_mbind no_metrics_withTx no_metrics_case_prod no_metrics_case_sum no_metrics_if

section \<open>Relations between states\<close>

text \<open>
  What a computation may do to the database: \<open>on_success R m\<close> bounds its successful runs,
  \<open>always R m\<close> all of them. A transaction turns the first into the second.
\<close>

definition on_success :: "(db \<Rightarrow> db \<Rightarrow> bool) \<Rightarrow> 'a M \<Rightarrow> bool" where
  "on_success R m \<longleftrightarrow> (\<forall>w x w'. m w = (Inr x, w') \<longrightarrow> R (db w) (db w'))"

definition always :: "(db \<Rightarrow> db \<Rightarrow> bool) \<Rightarrow> 'a M \<Rightarrow> bool" where
  "always R m \<longleftrightarrow> (\<forall>w r w'. m w = (r, w') \<longrightarrow> R (db w) (db w'))"

lemma alwaysI [intro?]: "(\<And>w r w'. m w = (r, w') \<Longrightarrow> R (db w) (db w')) \<Longrightarrow> always R m"
  by (auto simp: always_def)

lemma alwaysD: "always R m \<Longrightarrow> m w = (r, w') \<Longrightarrow> R (db w) (db w')"
  by (auto simp: always_def)

lemma on_successI [intro?]:
  "(\<And>w x w'. m w = (Inr x, w') \<Longrightarrow> R (db w) (db w')) \<Longrightarrow> on_success R m"
  by (auto simp: on_success_def)

lemma on_successD: "on_success R m \<Longrightarrow> m w = (Inr x, w') \<Longrightarrow> R (db w) (db w')"
  by (auto simp: on_success_def)

lemma always_on_success: "always R m \<Longrightarrow> on_success R m"
  by (auto simp: always_def on_success_def)

lemma always_if: "always R m \<Longrightarrow> always R m' \<Longrightarrow> always R (if b then m else m')"
  by simp

lemma always_case_prod: "(\<And>a b. always R (f a b)) \<Longrightarrow> always R (case p of (a, b) \<Rightarrow> f a b)"
  by (cases p) simp

lemma always_case_sum: "(\<And>e. always R (f e)) \<Longrightarrow> (\<And>x. always R (g x)) \<Longrightarrow> always R (case r of Inl e \<Rightarrow> f e | Inr x \<Rightarrow> g x)"
  by (cases r) simp_all

lemma always_mclock: "R d d \<Longrightarrow> (\<And>d. R d d) \<Longrightarrow> always R (mclock E)"
  by (auto simp: always_def mclock_def)

lemma always_snd: "always R m \<Longrightarrow> R (db w) (db (snd (m w)))"
  by (metis alwaysD surjective_pairing)

text \<open>
  The contract of one unit of work on the store, as the clients of a transaction rely on it: a
  reflexive and transitive relation between the states before and after.
\<close>

locale db_relation =
  fixes R :: "db \<Rightarrow> db \<Rightarrow> bool"
  assumes R_refl: "R d d"
    and R_trans: "R d1 d2 \<Longrightarrow> R d2 d3 \<Longrightarrow> R d1 d3"
begin

lemma always_mret: "always R (mret x)"
  by (auto simp: always_def mret_def R_refl)

lemma always_mfail: "always R (mfail e)"
  by (auto simp: always_def mfail_def R_refl)

lemma always_mmetrics: "always R (mmetrics f)"
  by (auto simp: always_def mmetrics_def R_refl)

lemma always_mbind:
  assumes "always R m" and "\<And>x. always R (k x)"
  shows "always R (mbind m k)"
proof
  fix w r w'
  assume run: "mbind m k w = (r, w')"
  show "R (db w) (db w')"
  proof (cases "m w")
    case (Pair r1 w1)
    with assms(1) have "R (db w) (db w1)" by (auto dest: alwaysD)
    with run Pair assms(2) show ?thesis
      by (auto simp: mbind_def split: sum.splits dest: alwaysD intro: R_trans)
  qed
qed

lemma always_mtry: "always R m \<Longrightarrow> always R (mtry m)"
  by (auto simp: always_def mtry_def split: prod.splits)

lemma always_mwrap: "always R m \<Longrightarrow> always R (mwrap f m)"
  by (auto simp: always_def mwrap_def split: prod.splits sum.splits)

lemma always_sql:
  assumes "\<And>n t d x d'. st (gen_random_uuid E n) t d = Inr (x, d') \<Longrightarrow> R d d'"
  shows "always R (sql E st)"
proof
  fix w r w'
  assume "sql E st w = (r, w')"
  then show "R (db w) (db w')"
    by (cases r) (auto simp: sql_Inr_iff R_refl dest!: sql_InlD dest: assms)
qed

lemma always_withTx:
  assumes "on_success R body"
  shows "always R (withTx E body)"
proof
  fix w r w'
  assume run: "withTx E body w = (r, w')"
  show "R (db w) (db w')"
  proof (cases r)
    case (Inl e)
    with run withTx_InlD [of E body w e w'] assms show ?thesis
      by (auto simp: R_refl dest: on_successD)
  next
    case (Inr x)
    with run withTx_InrD [of E body w x w'] assms show ?thesis
      by (auto dest: on_successD)
  qed
qed

lemmas always_rules = always_mret always_mfail always_mmetrics always_mbind always_mtry
  always_mwrap always_sql always_withTx

end

text \<open>An invariant of the database gives such a relation.\<close>

definition preserves :: "(db \<Rightarrow> bool) \<Rightarrow> db \<Rightarrow> db \<Rightarrow> bool" where
  "preserves I d d' \<longleftrightarrow> (I d \<longrightarrow> I d')"

interpretation preserves: db_relation "preserves I" for I
  by unfold_locales (auto simp: preserves_def)

text \<open>So does being unchanged in some part.\<close>

definition same :: "(db \<Rightarrow> 'b) \<Rightarrow> db \<Rightarrow> db \<Rightarrow> bool" where
  "same f d d' \<longleftrightarrow> f d' = f d"

interpretation same: db_relation "same f" for f
  by unfold_locales (auto simp: same_def)

end
