(* ===== verification/Json_Text.thy ===== *)
theory Json_Text
  imports Prelude
begin

text \<open>
  The text of JSON documents as Go's \<open>encoding/json\<close> writes and reads it (Go 1.22, the version of \<open>go.mod\<close>). Strings are bytes. The writer
  escapes quotes, control characters and the characters of HTML, and replaces bytes that are not UTF-8; the
  reader accepts the grammar of RFC 8259 with the same replacement, at most 10000 levels deep. What is written
  is read back, and the fuel of the reader, the length of the text, is enough.
\<close>

section \<open>UTF-8\<close>

definition byte :: "char \<Rightarrow> nat" where
  "byte c = of_char c"

lemma byte_less [simp]: "byte c < 256"
  by (simp add: byte_def)

fun in_ranges :: "(nat \<times> nat) list \<Rightarrow> string \<Rightarrow> bool" where
  "in_ranges [] s = True"
| "in_ranges (p # ps) [] = False"
| "in_ranges (p # ps) (c # s) = (fst p \<le> byte c \<and> byte c \<le> snd p \<and> in_ranges ps s)"

text \<open>The ranges of the continuation bytes after a lead byte (\<open>utf8.DecodeRune\<close>).\<close>

definition continuation :: "nat \<Rightarrow> (nat \<times> nat) list option" where
  "continuation b =
     (if 0xC2 \<le> b \<and> b \<le> 0xDF then Some [(0x80, 0xBF)]
      else if b = 0xE0 then Some [(0xA0, 0xBF), (0x80, 0xBF)]
      else if b = 0xED then Some [(0x80, 0x9F), (0x80, 0xBF)]
      else if 0xE1 \<le> b \<and> b \<le> 0xEF then Some [(0x80, 0xBF), (0x80, 0xBF)]
      else if b = 0xF0 then Some [(0x90, 0xBF), (0x80, 0xBF), (0x80, 0xBF)]
      else if 0xF1 \<le> b \<and> b \<le> 0xF3 then Some [(0x80, 0xBF), (0x80, 0xBF), (0x80, 0xBF)]
      else if b = 0xF4 then Some [(0x80, 0x8F), (0x80, 0xBF), (0x80, 0xBF)]
      else None)"

text \<open>The number of continuation bytes of the character at the head of a text; none if it is not UTF-8.\<close>

definition rune_tail :: "char \<Rightarrow> string \<Rightarrow> nat option" where
  "rune_tail c s =
     (if byte c < 0x80 then Some 0
      else case continuation (byte c) of
             None \<Rightarrow> None
           | Some ps \<Rightarrow> (if in_ranges ps s then Some (length ps) else None))"

definition replacement :: string where
  "replacement = [char_of (0xEF :: nat), char_of (0xBF :: nat), char_of (0xBD :: nat)]"

text \<open>\<open>utf8.EncodeRune\<close>: surrogates and values out of range become \<open>U+FFFD\<close>.\<close>

definition encode_rune :: "nat \<Rightarrow> string" where
  "encode_rune r =
     (if r < 0x80 then [char_of r]
      else if r < 0x800 then [char_of (0xC0 + r div 64), char_of (0x80 + r mod 64)]
      else if (0xD800 \<le> r \<and> r < 0xE000) \<or> 0x110000 \<le> r then replacement
      else if r < 0x10000 then [char_of (0xE0 + r div 4096), char_of (0x80 + r div 64 mod 64), char_of (0x80 + r mod 64)]
      else [char_of (0xF0 + r div 262144), char_of (0x80 + r div 4096 mod 64), char_of (0x80 + r div 64 mod 64), char_of (0x80 + r mod 64)])"

text \<open>The text with every byte that is not UTF-8 replaced.\<close>

function utf8_clean :: "string \<Rightarrow> string" where
  "utf8_clean [] = []"
| "utf8_clean (c # s) =
     (case rune_tail c s of
        None \<Rightarrow> replacement @ utf8_clean s
      | Some n \<Rightarrow> c # take n s @ utf8_clean (drop n s))"
  by pat_completeness auto
termination by (relation "measure length") auto

definition utf8_valid :: "string \<Rightarrow> bool" where
  "utf8_valid s \<longleftrightarrow> utf8_clean s = s"

section \<open>Writing\<close>

definition hex_digit :: "nat \<Rightarrow> char" where
  "hex_digit n = (if n < 10 then char_of (48 + n) else char_of (87 + n))"

text \<open>The escape of one byte below \<open>0x80\<close>; \<open>None\<close> if it is copied.\<close>

definition escape :: "char \<Rightarrow> string option" where
  "escape c =
     (if c = CHR 0x22 \<or> c = CHR 0x5C then Some [CHR 0x5C, c]
      else if byte c = 8 then Some [CHR 0x5C, CHR ''b'']
      else if byte c = 12 then Some [CHR 0x5C, CHR ''f'']
      else if byte c = 10 then Some [CHR 0x5C, CHR ''n'']
      else if byte c = 13 then Some [CHR 0x5C, CHR ''r'']
      else if byte c = 9 then Some [CHR 0x5C, CHR ''t'']
      else if byte c < 0x20 \<or> c \<in> {CHR ''<'', CHR ''>'', CHR ''&''}
      then Some ([CHR 0x5C, CHR ''u'', CHR ''0'', CHR ''0''] @ [hex_digit (byte c div 16), hex_digit (byte c mod 16)])
      else None)"

text \<open>\<open>U+2028\<close> and \<open>U+2029\<close> are escaped.\<close>

definition line_separator :: "char \<Rightarrow> string \<Rightarrow> bool" where
  "line_separator c s \<longleftrightarrow> (\<exists>r \<in> {0xA8, 0xA9}. map byte (c # take 2 s) = [0xE2, 0x80, r])"

function quote_body :: "string \<Rightarrow> string" where
  "quote_body [] = []"
| "quote_body (c # s) =
     (if byte c < 0x80 then (case escape c of None \<Rightarrow> [c] | Some e \<Rightarrow> e) @ quote_body s
      else case rune_tail c s of
             None \<Rightarrow> [CHR 0x5C] @ ''ufffd'' @ quote_body s
           | Some n \<Rightarrow>
               (if line_separator c s then [CHR 0x5C] @ ''u202'' @ [hex_digit (byte (s ! 1) mod 16)]
                else c # take n s) @ quote_body (drop n s))"
  by pat_completeness auto
termination by (relation "measure length") auto

definition quote :: "string \<Rightarrow> string" where
  "quote s = [CHR 0x22] @ quote_body s @ [CHR 0x22]"

fun intercalate :: "string list \<Rightarrow> string" where
  "intercalate [] = []"
| "intercalate [x] = x"
| "intercalate (x # y # xs) = x @ '','' @ intercalate (y # xs)"

text \<open>The fields of a struct and the sorted keys of a map are the members of an object in their order.\<close>

fun json_Marshal :: "json \<Rightarrow> string" where
  "json_Marshal JNull = ''null''"
| "json_Marshal (JBool b) = (if b then ''true'' else ''false'')"
| "json_Marshal (JInt i) = decimal i"
| "json_Marshal (JNumber t) = t"
| "json_Marshal (JString s) = quote s"
| "json_Marshal (JArray js) = ''['' @ intercalate (map json_Marshal js) @ '']''"
| "json_Marshal (JObject kvs) =
     [CHR 0x7B] @ intercalate (map (\<lambda>(k, j). quote k @ '':'' @ json_Marshal j) kvs) @ [CHR 0x7D]"

section \<open>Reading\<close>

definition json_space :: "char \<Rightarrow> bool" where
  "json_space c \<longleftrightarrow> byte c \<in> {0x20, 0x09, 0x0A, 0x0D}"

definition skip_space :: "string \<Rightarrow> string" where
  "skip_space = dropWhile json_space"

definition hex_value :: "char \<Rightarrow> nat option" where
  "hex_value c =
     (let b = byte c in
      if 48 \<le> b \<and> b \<le> 57 then Some (b - 48)
      else if 97 \<le> b \<and> b \<le> 102 then Some (b - 87)
      else if 65 \<le> b \<and> b \<le> 70 then Some (b - 55)
      else None)"

text \<open>\<open>getu4\<close>, after the \<open>u\<close>.\<close>

fun getu4 :: "string \<Rightarrow> (nat \<times> string) option" where
  "getu4 (a # b # c # d # s) =
     (case (hex_value a, hex_value b, hex_value c, hex_value d) of
        (Some w, Some x, Some y, Some z) \<Rightarrow> Some (((w * 16 + x) * 16 + y) * 16 + z, s)
      | _ \<Rightarrow> None)"
| "getu4 s = None"

text \<open>A surrogate takes the next escape with it if the two make a pair, and is replaced otherwise.\<close>

definition surrogate :: "nat \<Rightarrow> string \<Rightarrow> nat \<times> string" where
  "surrogate u s =
     (if 0xD800 \<le> u \<and> u < 0xE000 then
        (case s of
           e # v # s1 \<Rightarrow>
             (if e = CHR 0x5C \<and> v = CHR ''u'' then
                (case getu4 s1 of
                   None \<Rightarrow> (0xFFFD, s)
                 | Some (u2, s2) \<Rightarrow>
                     (if u < 0xDC00 \<and> 0xDC00 \<le> u2 \<and> u2 < 0xE000
                      then ((u - 0xD800) * 1024 + (u2 - 0xDC00) + 0x10000, s2)
                      else (0xFFFD, s)))
              else (0xFFFD, s))
         | _ \<Rightarrow> (0xFFFD, s))
      else (u, s))"

definition simple_escape :: "char \<Rightarrow> char option" where
  "simple_escape e =
     (if e \<in> {CHR 0x22, CHR 0x5C, CHR ''/''} then Some e
      else if e = CHR ''b'' then Some (char_of (8 :: nat))
      else if e = CHR ''f'' then Some (char_of (12 :: nat))
      else if e = CHR ''n'' then Some (char_of (10 :: nat))
      else if e = CHR ''r'' then Some (char_of (13 :: nat))
      else if e = CHR ''t'' then Some (char_of (9 :: nat))
      else None)"

definition prepend :: "'a list \<Rightarrow> ('a list \<times> 'b) option \<Rightarrow> ('a list \<times> 'b) option" where
  "prepend x r = (case r of None \<Rightarrow> None | Some (t, s) \<Rightarrow> Some (x @ t, s))"

lemma getu4_length: "getu4 s = Some (u, r) \<Longrightarrow> length r < length s"
  by (cases s rule: getu4.cases) (auto split: option.splits)

lemma surrogate_length: "surrogate u s = (r, s') \<Longrightarrow> length s' \<le> length s"
  by (fastforce simp: surrogate_def split: if_splits list.splits option.splits dest: getu4_length)

text \<open>The rest of a string after its opening quote.\<close>

function read_string :: "string \<Rightarrow> (string \<times> string) option" where
  "read_string [] = None"
| "read_string (c # s) =
     (if c = CHR 0x22 then Some ([], s)
      else if byte c < 0x20 then None
      else if c = CHR 0x5C then
        (case s of
           [] \<Rightarrow> None
         | e # s1 \<Rightarrow>
             (case simple_escape e of
                Some x \<Rightarrow> prepend [x] (read_string s1)
              | None \<Rightarrow>
                  (if e = CHR ''u'' then
                     (case getu4 s1 of
                        None \<Rightarrow> None
                      | Some (u, s2) \<Rightarrow> (case surrogate u s2 of (r, s3) \<Rightarrow> prepend (encode_rune r) (read_string s3)))
                   else None)))
      else case rune_tail c s of
             None \<Rightarrow> prepend replacement (read_string s)
           | Some n \<Rightarrow> prepend (c # take n s) (read_string (drop n s)))"
  by pat_completeness auto
termination
  by (relation "measure length") (auto dest!: getu4_length surrogate_length [OF sym])


definition is_digit :: "char \<Rightarrow> bool" where
  "is_digit c \<longleftrightarrow> 48 \<le> byte c \<and> byte c \<le> 57"

definition digits_value :: "string \<Rightarrow> nat" where
  "digits_value ds = foldl (\<lambda>n c. 10 * n + (byte c - 48)) 0 ds"

text \<open>A minus sign, the integer part without leading zeros, and at least one digit after a point or an exponent.\<close>

definition read_minus :: "string \<Rightarrow> string \<times> string" where
  "read_minus s = (case s of c # s1 \<Rightarrow> (if c = CHR ''-'' then ([c], s1) else ([], s)) | [] \<Rightarrow> ([], s))"

definition read_integer :: "string \<Rightarrow> (string \<times> string) option" where
  "read_integer s =
     (case s of
        [] \<Rightarrow> None
      | c # s1 \<Rightarrow>
          (if c = CHR ''0'' then Some ([c], s1)
           else if is_digit c then Some (takeWhile is_digit s, dropWhile is_digit s)
           else None))"

definition read_digits :: "string \<Rightarrow> (string \<times> string) option" where
  "read_digits s = (if takeWhile is_digit s = [] then None else Some (takeWhile is_digit s, dropWhile is_digit s))"

definition read_fraction :: "string \<Rightarrow> (string \<times> string) option" where
  "read_fraction s =
     (case s of
        c # s1 \<Rightarrow> (if c = CHR ''.'' then prepend [c] (read_digits s1) else Some ([], s))
      | [] \<Rightarrow> Some ([], s))"

definition read_exponent :: "string \<Rightarrow> (string \<times> string) option" where
  "read_exponent s =
     (case s of
        c # s1 \<Rightarrow>
          (if c = CHR ''e'' \<or> c = CHR ''E'' then
             (case s1 of
                d # s2 \<Rightarrow> (if d = CHR ''+'' \<or> d = CHR ''-'' then prepend [c, d] (read_digits s2) else prepend [c] (read_digits s1))
              | [] \<Rightarrow> None)
           else Some ([], s))
      | [] \<Rightarrow> Some ([], s))"

definition read_number :: "string \<Rightarrow> (json \<times> string) option" where
  "read_number s =
     (case read_minus s of (sign, s1) \<Rightarrow>
        (case read_integer s1 of
           None \<Rightarrow> None
         | Some (ds, s2) \<Rightarrow>
             (case read_fraction s2 of
                None \<Rightarrow> None
              | Some (f, s3) \<Rightarrow>
                  (case read_exponent s3 of
                     None \<Rightarrow> None
                   | Some (x, s4) \<Rightarrow>
                       (if f = [] \<and> x = []
                        then Some (JInt (if sign = [] then int (digits_value ds) else - int (digits_value ds)), s4)
                        else Some (JNumber (sign @ ds @ f @ x), s4))))))"

definition read_literal :: "string \<Rightarrow> json \<Rightarrow> string \<Rightarrow> (json \<times> string) option" where
  "read_literal t j s = (if take (length t) s = t then Some (j, drop (length t) s) else None)"

definition read_map :: "('a \<Rightarrow> 'b) \<Rightarrow> ('a \<times> string) option \<Rightarrow> ('b \<times> string) option" where
  "read_map f r = (case r of None \<Rightarrow> None | Some (x, s) \<Rightarrow> Some (f x, s))"

text \<open>The first argument is the fuel, the second the number of levels that may still be opened.\<close>

fun read_value :: "nat \<Rightarrow> int \<Rightarrow> string \<Rightarrow> (json \<times> string) option"
  and read_elements :: "nat \<Rightarrow> int \<Rightarrow> string \<Rightarrow> (json list \<times> string) option"
  and read_members :: "nat \<Rightarrow> int \<Rightarrow> string \<Rightarrow> ((string \<times> json) list \<times> string) option" where
  "read_value 0 d s = None"
| "read_value (Suc n) d s =
     (case skip_space s of
        [] \<Rightarrow> None
      | c # s1 \<Rightarrow>
          (if c = CHR 0x7B then
             (if d \<le> 0 then None
              else case skip_space s1 of
                     [] \<Rightarrow> None
                   | x # s2 \<Rightarrow> (if x = CHR 0x7D then Some (JObject [], s2) else read_map JObject (read_members n (d - 1) (x # s2))))
           else if c = CHR ''['' then
             (if d \<le> 0 then None
              else case skip_space s1 of
                     [] \<Rightarrow> None
                   | x # s2 \<Rightarrow> (if x = CHR '']'' then Some (JArray [], s2) else read_map JArray (read_elements n (d - 1) (x # s2))))
           else if c = CHR 0x22 then read_map JString (read_string s1)
           else if c = CHR ''t'' then read_literal ''true'' (JBool True) (c # s1)
           else if c = CHR ''f'' then read_literal ''false'' (JBool False) (c # s1)
           else if c = CHR ''n'' then read_literal ''null'' JNull (c # s1)
           else read_number (c # s1)))"
| "read_elements 0 d s = None"
| "read_elements (Suc n) d s =
     (case read_value n d s of
        None \<Rightarrow> None
      | Some (v, s1) \<Rightarrow>
          (case skip_space s1 of
             [] \<Rightarrow> None
           | c # s2 \<Rightarrow>
               (if c = CHR '']'' then Some ([v], s2)
                else if c = CHR '','' then prepend [v] (read_elements n d s2)
                else None)))"
| "read_members 0 d s = None"
| "read_members (Suc n) d s =
     (case skip_space s of
        [] \<Rightarrow> None
      | q # s1 \<Rightarrow>
          (if q \<noteq> CHR 0x22 then None
           else case read_string s1 of
                  None \<Rightarrow> None
                | Some (k, s2) \<Rightarrow>
                    (case skip_space s2 of
                       [] \<Rightarrow> None
                     | x # s3 \<Rightarrow>
                         (if x \<noteq> CHR '':'' then None
                          else case read_value n d s3 of
                                 None \<Rightarrow> None
                               | Some (v, s4) \<Rightarrow>
                                   (case skip_space s4 of
                                      [] \<Rightarrow> None
                                    | c # s5 \<Rightarrow>
                                        (if c = CHR 0x7D then Some ([(k, v)], s5)
                                         else if c = CHR '','' then prepend [(k, v)] (read_members n d s5)
                                         else None))))))"

definition max_depth :: int where "max_depth = 10000"

text \<open>\<open>json.Unmarshal\<close> wants one document and nothing after it, \<open>Decoder.Decode\<close> takes the first.\<close>

definition json_Unmarshal :: "string \<Rightarrow> json option" where
  "json_Unmarshal s =
     (case read_value (length s) max_depth s of
        None \<Rightarrow> None
      | Some (v, r) \<Rightarrow> (if skip_space r = [] then Some v else None))"

definition json_Decode :: "string \<Rightarrow> json option" where
  "json_Decode s = map_option fst (read_value (length s) max_depth s)"

section \<open>The fuel is enough\<close>

text \<open>What is read is not longer than the text, and costs at most its length in fuel.\<close>

lemma skip_space_length: "length (skip_space s) \<le> length s"
  by (simp add: skip_space_def length_dropWhile_le)

lemma prepend_Some: "prepend x q = Some (t, r) \<longleftrightarrow> (\<exists>t'. q = Some (t', r) \<and> t = x @ t')"
  by (auto simp: prepend_def split: option.splits)

lemma prepend_simps [simp]: "prepend x (Some (t, r)) = Some (x @ t, r)" "prepend x None = None"
  by (simp_all add: prepend_def)

lemma read_map_Some: "read_map f q = Some (y, r) \<longleftrightarrow> (\<exists>x. q = Some (x, r) \<and> y = f x)"
  by (auto simp: read_map_def split: option.splits)

text \<open>One character of a string: what it stands for and the rest.\<close>

definition read_char :: "char \<Rightarrow> string \<Rightarrow> (string \<times> string) option" where
  "read_char c s =
     (if byte c < 0x20 then None
      else if c = CHR 0x5C then
        (case s of
           [] \<Rightarrow> None
         | e # s1 \<Rightarrow>
             (case simple_escape e of
                Some x \<Rightarrow> Some ([x], s1)
              | None \<Rightarrow>
                  (if e = CHR ''u'' then
                     (case getu4 s1 of
                        None \<Rightarrow> None
                      | Some (u, s2) \<Rightarrow> (case surrogate u s2 of (r, s3) \<Rightarrow> Some (encode_rune r, s3)))
                   else None)))
      else case rune_tail c s of
             None \<Rightarrow> Some (replacement, s)
           | Some n \<Rightarrow> Some (c # take n s, drop n s))"

lemma read_string_Cons:
  "read_string (c # s) =
     (if c = CHR 0x22 then Some ([], s)
      else case read_char c s of None \<Rightarrow> None | Some (x, s1) \<Rightarrow> prepend x (read_string s1))"
  by (simp add: read_char_def split: list.split option.split prod.split)

lemma read_char_length: "read_char c s = Some (x, r) \<Longrightarrow> length r \<le> length s"
  by (auto simp: read_char_def split: if_splits list.splits option.splits prod.splits dest!: getu4_length surrogate_length)

declare read_string.simps(2) [simp del]

lemma read_string_length: "read_string s = Some (t, r) \<Longrightarrow> length r < length s"
proof (induction "length s" arbitrary: s t rule: less_induct)
  case less
  show ?case
  proof (cases s)
    case (Cons c s')
    show ?thesis
    proof (cases "c = CHR 0x22")
      case True
      with less.prems Cons show ?thesis by (simp add: read_string_Cons)
    next
      case False
      with less.prems Cons obtain x s1 t' where r: "read_char c s' = Some (x, s1)" "read_string s1 = Some (t', r)"
        by (auto simp: read_string_Cons prepend_Some split: option.splits)
      with read_char_length [OF r(1)] less.hyps [of s1 t'] Cons show ?thesis by simp
    qed
  qed (use less.prems in simp)
qed

lemma length_dropWhile_digits: "length (dropWhile is_digit s) \<le> length s"
  by (rule length_dropWhile_le)

lemma read_integer_length: "read_integer s = Some (x, r) \<Longrightarrow> length r < length s"
  using length_dropWhile_digits by (fastforce simp: read_integer_def less_Suc_eq_le split: list.splits if_splits)

lemma read_digits_length: "read_digits s = Some (x, r) \<Longrightarrow> length r \<le> length s"
  by (auto simp: read_digits_def length_dropWhile_digits split: if_splits)

lemma read_fraction_length: "read_fraction s = Some (x, r) \<Longrightarrow> length r \<le> length s"
  by (fastforce simp: read_fraction_def prepend_Some split: list.splits if_splits dest: read_digits_length)

lemma read_exponent_length: "read_exponent s = Some (x, r) \<Longrightarrow> length r \<le> length s"
  by (fastforce simp: read_exponent_def prepend_Some split: list.splits if_splits dest: read_digits_length)

lemma read_number_length:
  assumes "read_number s = Some (v, r)"
  shows "length r < length s"
proof -
  from assms obtain sign s1 ds s2 f s3 x where
    "read_minus s = (sign, s1)" "read_integer s1 = Some (ds, s2)" "read_fraction s2 = Some (f, s3)" "read_exponent s3 = Some (x, r)"
    by (auto simp: read_number_def split: prod.splits option.splits if_splits)
  moreover from this(1) have "length s1 \<le> length s" by (auto simp: read_minus_def split: list.splits if_splits)
  ultimately show ?thesis using read_integer_length read_fraction_length read_exponent_length by (meson le_less_trans less_le_trans)
qed

lemma read_literal_length: "read_literal t j s = Some (v, r) \<Longrightarrow> t \<noteq> [] \<Longrightarrow> length r < length s"
  by (cases s) (auto simp: read_literal_def split: if_splits)

definition value_fits :: "nat \<Rightarrow> bool" where
  "value_fits m \<longleftrightarrow>
     (\<forall>d s v r. read_value m d s = Some (v, r) \<longrightarrow>
        length r < length s \<and> (\<forall>n. length s - length r \<le> n \<longrightarrow> read_value n d s = Some (v, r)))"

definition elements_fit :: "nat \<Rightarrow> bool" where
  "elements_fit m \<longleftrightarrow>
     (\<forall>d s v r. read_elements m d s = Some (v, r) \<longrightarrow>
        length r < length s \<and> (\<forall>n. length s - length r \<le> n \<longrightarrow> read_elements n d s = Some (v, r)))"

definition members_fit :: "nat \<Rightarrow> bool" where
  "members_fit m \<longleftrightarrow>
     (\<forall>d s v r. read_members m d s = Some (v, r) \<longrightarrow>
        length r < length s \<and> (\<forall>n. length s - length r \<le> n \<longrightarrow> read_members n d s = Some (v, r)))"

lemma skip_space_Cons: "skip_space s = c # t \<Longrightarrow> length t < length s"
  using skip_space_length [of s] by simp

lemma value_fitsD:
  "value_fits m \<Longrightarrow> read_value m d s = Some (v, r) \<Longrightarrow>
   length r < length s \<and> (\<forall>n. length s - length r \<le> n \<longrightarrow> read_value n d s = Some (v, r))"
  unfolding value_fits_def by blast

lemma elements_fitD:
  "elements_fit m \<Longrightarrow> read_elements m d s = Some (v, r) \<Longrightarrow>
   length r < length s \<and> (\<forall>n. length s - length r \<le> n \<longrightarrow> read_elements n d s = Some (v, r))"
  unfolding elements_fit_def by blast

lemma members_fitD:
  "members_fit m \<Longrightarrow> read_members m d s = Some (v, r) \<Longrightarrow>
   length r < length s \<and> (\<forall>n. length s - length r \<le> n \<longrightarrow> read_members n d s = Some (v, r))"
  unfolding members_fit_def by blast

lemma value_fits_Suc:
  assumes "elements_fit m" and "members_fit m"
  shows "value_fits (Suc m)"
  unfolding value_fits_def
proof (intro allI impI)
  fix d s v r assume read: "read_value (Suc m) d s = Some (v, r)"
  then obtain c s1 where s: "skip_space s = c # s1" by (auto split: list.splits)
  note len = skip_space_Cons [OF s]
  have "length r < length s \<and> (\<forall>n. length s \<le> Suc n + length r \<longrightarrow> read_value (Suc n) d s = Some (v, r))"
  proof (cases "c = CHR 0x7B \<or> c = CHR ''[''")
    case True
    with read s obtain x s2 where x: "skip_space s1 = x # s2" and d: "\<not> d \<le> 0"
      by (auto split: list.splits if_splits)
    from skip_space_length [of s1] x have l: "length (x # s2) \<le> length s1" by simp
    show ?thesis
    proof (cases "x = (if c = CHR 0x7B then CHR 0x7D else CHR '']'')")
      case True
      with \<open>c = CHR 0x7B \<or> c = CHR ''[''\<close> read s len x d l show ?thesis by (auto split: if_splits)
    next
      case False
      consider ms where "c = CHR 0x7B" "v = JObject ms" "read_members m (d - 1) (x # s2) = Some (ms, r)"
        | es where "c = CHR ''[''" "v = JArray es" "read_elements m (d - 1) (x # s2) = Some (es, r)"
        using True False read s x d by (auto simp: read_map_Some split: if_splits)
      then show ?thesis
      proof cases
        case (1 ms)
        with members_fitD [OF assms(2) 1(3)] s len x d l False show ?thesis by (simp add: read_map_Some)
      next
        case (2 es)
        with elements_fitD [OF assms(1) 2(3)] s len x d l False show ?thesis by (simp add: read_map_Some)
      qed
    qed
  next
    case False
    with read s len show ?thesis
      by (auto simp: read_map_Some split: if_splits
        dest: read_string_length read_literal_length read_number_length)
  qed
  then show "length r < length s \<and> (\<forall>n. length s - length r \<le> n \<longrightarrow> read_value n d s = Some (v, r))"
    by (metis Suc_diff_Suc Suc_le_D le_diff_conv)
qed

lemma elements_fit_Suc:
  assumes "value_fits m" and "elements_fit m"
  shows "elements_fit (Suc m)"
  unfolding elements_fit_def
proof (intro allI impI)
  fix d s v r assume read: "read_elements (Suc m) d s = Some (v, r)"
  then obtain x s1 c s2 where s1: "read_value m d s = Some (x, s1)" and s2: "skip_space s1 = c # s2"
    by (auto split: list.splits option.splits prod.splits)
  from s1 assms(1) have x: "length s1 < length s"
    "\<And>n. length s - length s1 \<le> n \<Longrightarrow> read_value n d s = Some (x, s1)"
    unfolding value_fits_def by blast+
  note len = skip_space_Cons [OF s2]
  have "length r < length s \<and> (\<forall>n. length s \<le> Suc n + length r \<longrightarrow> read_elements (Suc n) d s = Some (v, r))"
  proof (cases "c = CHR '']''")
    case True
    with read s1 s2 x len show ?thesis by auto
  next
    case False
    with read s1 s2 obtain w where w: "c = CHR '',''" "read_elements m d s2 = Some (w, r)" "v = x # w"
      by (auto simp: prepend_Some split: if_splits)
    with assms(2) have "length r < length s2" "\<And>n. length s2 - length r \<le> n \<Longrightarrow> read_elements n d s2 = Some (w, r)"
      unfolding elements_fit_def by blast+
    with w s2 x len show ?thesis by (auto simp: prepend_Some)
  qed
  then show "length r < length s \<and> (\<forall>n. length s - length r \<le> n \<longrightarrow> read_elements n d s = Some (v, r))"
    by (metis Suc_diff_Suc Suc_le_D le_diff_conv)
qed

lemma members_fit_Suc:
  assumes "value_fits m" and "members_fit m"
  shows "members_fit (Suc m)"
  unfolding members_fit_def
proof (intro allI impI)
  fix d s v r assume read: "read_members (Suc m) d s = Some (v, r)"
  then obtain s1 k s2 s3 x s4 c s5 where s1: "skip_space s = CHR 0x22 # s1" and k: "read_string s1 = Some (k, s2)"
    and s3: "skip_space s2 = CHR '':'' # s3" and s4: "read_value m d s3 = Some (x, s4)" and s5: "skip_space s4 = c # s5"
    by (auto split: list.splits option.splits prod.splits if_splits)
  from s4 assms(1) have x: "length s4 < length s3"
    "\<And>n. length s3 - length s4 \<le> n \<Longrightarrow> read_value n d s3 = Some (x, s4)"
    unfolding value_fits_def by blast+
  note len = skip_space_Cons [OF s1] read_string_length [OF k] skip_space_Cons [OF s3] skip_space_Cons [OF s5]
  have "length r < length s \<and> (\<forall>n. length s \<le> Suc n + length r \<longrightarrow> read_members (Suc n) d s = Some (v, r))"
  proof (cases "c = CHR 0x7D")
    case True
    with read s1 k s3 s4 s5 x len show ?thesis by auto
  next
    case False
    with read s1 k s3 s4 s5 obtain w where w: "c = CHR '',''" "read_members m d s5 = Some (w, r)" "v = (k, x) # w"
      by (auto simp: prepend_Some split: if_splits)
    with assms(2) have "length r < length s5" "\<And>n. length s5 - length r \<le> n \<Longrightarrow> read_members n d s5 = Some (w, r)"
      unfolding members_fit_def by blast+
    with w s1 k s3 s5 x len show ?thesis by (auto simp: prepend_Some)
  qed
  then show "length r < length s \<and> (\<forall>n. length s - length r \<le> n \<longrightarrow> read_members n d s = Some (v, r))"
    by (metis Suc_diff_Suc Suc_le_D le_diff_conv)
qed

lemma reader_fits: "value_fits m \<and> elements_fit m \<and> members_fit m"
proof (induction m)
  case 0
  then show ?case by (simp add: value_fits_def elements_fit_def members_fit_def)
qed (simp add: value_fits_Suc elements_fit_Suc members_fit_Suc)

text \<open>A document that any fuel reads is read with the fuel of \<open>json_Unmarshal\<close> and \<open>json_Decode\<close>.\<close>

lemma read_value_enough:
  assumes "read_value m d s = Some (v, r)" and "length s - length r \<le> n"
  shows "read_value n d s = Some (v, r)"
  using value_fitsD [OF conjunct1 [OF reader_fits] assms(1)] assms(2) by blast

lemma read_value_length_enough: "read_value m d s = Some (v, r) \<Longrightarrow> read_value (length s) d s = Some (v, r)"
  by (erule read_value_enough) simp

section \<open>What is written is read back\<close>

lemma char_of_byte [simp]: "char_of (byte c) = c"
  by (simp add: byte_def)

lemma byte_char_of [simp]: "n < 256 \<Longrightarrow> byte (char_of n) = n"
  by (simp add: byte_def)

lemma byte_inject [simp]: "byte c = byte d \<longleftrightarrow> c = d"
  by (simp add: byte_def)

lemma hex_value_digit: "n < 16 \<Longrightarrow> hex_value (hex_digit n) = Some n"
  by (auto simp: hex_value_def hex_digit_def Let_def)

lemma hex_value_const [simp]:
  "hex_value (CHR ''0'') = Some 0" "hex_value (CHR ''2'') = Some 2" "hex_value (CHR ''f'') = Some 15"
  "hex_value (CHR ''d'') = Some 13"
  by (simp_all add: hex_value_def byte_def Let_def)

lemma byte_const [simp]:
  "byte (CHR 0x22) = 0x22" "byte (CHR 0x5C) = 0x5C" "byte (CHR ''u'') = 0x75"
  by (simp_all add: byte_def)

lemma simple_escape_u [simp]: "simple_escape (CHR ''u'') = None"
  by (simp add: simple_escape_def)

text \<open>An escape stands for its byte.\<close>

lemma read_u_escape:
  assumes "hex_value a = Some w" "hex_value b = Some x" "hex_value c = Some y" "hex_value d = Some z"
    and "u = ((w * 16 + x) * 16 + y) * 16 + z" "\<not> (0xD800 \<le> u \<and> u < 0xE000)"
  shows "read_string (CHR 0x5C # CHR ''u'' # a # b # c # d # t) = prepend (encode_rune u) (read_string t)"
proof -
  from assms have "getu4 (a # b # c # d # t) = Some (u, t)" by simp
  moreover from assms(6) have "surrogate u t = (u, t)" unfolding surrogate_def by (rule if_not_P)
  ultimately show ?thesis by (simp add: read_string_Cons [of "CHR 0x5C"] read_char_def del: getu4.simps)
qed

lemma encode_rune_byte: "byte c < 0x80 \<Longrightarrow> encode_rune (byte c) = [c]"
  by (simp add: encode_rune_def)

lemma read_simple_escape:
  "simple_escape e = Some x \<Longrightarrow> read_string (CHR 0x5C # e # t) = prepend [x] (read_string t)"
  by (simp add: read_string_Cons [of "CHR 0x5C"] read_char_def)

lemma read_escape:
  assumes "escape c = Some e" and "byte c < 0x80"
  shows "read_string (e @ t) = prepend [c] (read_string t)"
proof -
  have c: "char_of (byte c) = c" by simp
  consider "c = CHR 0x22 \<or> c = CHR 0x5C" "e = [CHR 0x5C, c]"
    | "byte c = 8" "e = [CHR 0x5C, CHR ''b'']" | "byte c = 12" "e = [CHR 0x5C, CHR ''f'']"
    | "byte c = 10" "e = [CHR 0x5C, CHR ''n'']" | "byte c = 13" "e = [CHR 0x5C, CHR ''r'']"
    | "byte c = 9" "e = [CHR 0x5C, CHR ''t'']"
    | "e = [CHR 0x5C, CHR ''u'', CHR ''0'', CHR ''0'', hex_digit (byte c div 16), hex_digit (byte c mod 16)]"
    using assms(1) by (auto simp: escape_def split: if_splits)
  then show ?thesis
  proof cases
    case 7
    have "read_string (e @ t) = prepend (encode_rune (byte c)) (read_string t)"
      unfolding 7 append_Cons append_Nil
      by (rule read_u_escape [OF _ _ hex_value_digit hex_value_digit]) (use assms(2) in auto)
    with encode_rune_byte [OF assms(2)] show ?thesis by simp
  qed (use c in \<open>auto simp: simple_escape_def intro!: read_simple_escape\<close>)
qed

lemma escape_None: "escape c = None \<Longrightarrow> c \<noteq> CHR 0x22 \<and> c \<noteq> CHR 0x5C \<and> \<not> byte c < 0x20"
  by (auto simp: escape_def split: if_splits)

lemma in_ranges_take: "in_ranges ps s \<Longrightarrow> in_ranges ps (take (length ps) s @ t)"
  by (induction ps s rule: in_ranges.induct) auto

lemma in_ranges_length: "in_ranges ps s \<Longrightarrow> length ps \<le> length s"
  by (induction ps s rule: in_ranges.induct) auto

lemma rune_tail_take: "rune_tail c s = Some n \<Longrightarrow> rune_tail c (take n s @ t) = Some n \<and> n \<le> length s"
  by (auto simp: rune_tail_def in_ranges_take in_ranges_length split: if_splits option.splits)

lemma byte_high: "\<not> byte c < 0x80 \<Longrightarrow> c \<noteq> CHR 0x22 \<and> c \<noteq> CHR 0x5C \<and> \<not> byte c < 0x20"
  by auto

lemma read_rune:
  assumes "rune_tail c s = Some n" and "c \<noteq> CHR 0x22 \<and> c \<noteq> CHR 0x5C \<and> \<not> byte c < 0x20"
  shows "read_string (c # take n s @ t) = prepend (c # take n s) (read_string t)"
  using assms rune_tail_take [OF assms(1), of t]
  by (simp add: read_string_Cons read_char_def min_def)

lemma read_line_separator:
  assumes "line_separator c s"
  shows "rune_tail c s = Some 2" and
    "read_string ([CHR 0x5C] @ ''u202'' @ [hex_digit (byte (s ! 1) mod 16)] @ t) = prepend (c # take 2 s) (read_string t)"
proof -
  from assms obtain r a b s' where r: "r = 0xA8 \<or> r = 0xA9" and s: "s = a # b # s'" and
    abc: "byte c = 0xE2" "byte a = 0x80" "byte b = r"
    by (cases s; cases "tl s") (auto simp: line_separator_def)
  from r s abc show "rune_tail c s = Some 2"
    by (auto simp: rune_tail_def continuation_def numeral_2_eq_2)
  have "encode_rune (0x2020 + r mod 16) = map char_of [0xE2, 0x80, r]"
    using r by (auto simp: encode_rune_def)
  also have "\<dots> = c # take 2 s" unfolding abc [symmetric] s by (simp add: numeral_2_eq_2)
  finally have "encode_rune (0x2020 + r mod 16) = c # take 2 s" .
  moreover have "read_string (CHR 0x5C # CHR ''u'' # CHR ''2'' # CHR ''0'' # CHR ''2'' # hex_digit (r mod 16) # t) =
      prepend (encode_rune (0x2020 + r mod 16)) (read_string t)"
    by (rule read_u_escape [OF _ _ _ hex_value_digit]) (use r in auto)
  ultimately show "read_string ([CHR 0x5C] @ ''u202'' @ [hex_digit (byte (s ! 1) mod 16)] @ t) = prepend (c # take 2 s) (read_string t)"
    using s abc by simp
qed

text \<open>A string written and read is the string with the bytes that are not UTF-8 replaced.\<close>

lemma read_quote_body: "read_string (quote_body s @ CHR 0x22 # t) = Some (utf8_clean s, t)"
proof (induction s rule: quote_body.induct)
  case 1
  then show ?case by (simp add: read_string_Cons)
next
  case (2 c s)
  show ?case
  proof (cases "byte c < 0x80")
    case True
    then have n: "rune_tail c s = Some 0" by (simp add: rune_tail_def)
    with True 2(1) show ?thesis
      using read_escape [of c _ "quote_body s @ CHR 0x22 # t"] escape_None [of c]
        read_rune [OF n, of "quote_body s @ CHR 0x22 # t"]
      by (auto simp: prepend_def split: option.splits)
  next
    case False
    show ?thesis
    proof (cases "rune_tail c s")
      case None
      have "read_string (CHR 0x5C # CHR ''u'' # CHR ''f'' # CHR ''f'' # CHR ''f'' # CHR ''d'' # quote_body s @ CHR 0x22 # t) =
          prepend (encode_rune 0xFFFD) (read_string (quote_body s @ CHR 0x22 # t))"
        by (rule read_u_escape [where w = 15 and x = 15 and y = 15 and z = 13]) simp_all
      also have "encode_rune 0xFFFD = replacement" by (simp add: encode_rune_def replacement_def)
      finally show ?thesis using False None 2(2) by (simp add: prepend_def)
    next
      case (Some n)
      from False Some 2(3) [OF False Some] show ?thesis
        using read_rune [OF Some byte_high [OF False], of "quote_body (drop n s) @ CHR 0x22 # t"]
          read_line_separator [of c s] read_line_separator(2) [of c s "quote_body (drop n s) @ CHR 0x22 # t"]
        by (auto simp: prepend_def)
    qed
  qed
qed

lemma decimal_nat_digits: "\<forall>c \<in> set (decimal_nat n). is_digit c"
proof (induction n rule: decimal_nat.induct)
  case (1 n)
  then show ?case by (subst decimal_nat.simps) (auto simp: is_digit_def)
qed

lemma decimal_nat_nonempty [simp]: "decimal_nat n \<noteq> []"
  by (subst decimal_nat.simps) simp

lemma decimal_nat_head: "hd (decimal_nat n) = CHR ''0'' \<longleftrightarrow> n = 0"
proof (induction n rule: decimal_nat.induct)
  case (1 n)
  have "char_of (48 + n) = CHR ''0'' \<longleftrightarrow> n = 0" if "n < 10"
    using byte_inject [of "char_of (48 + n)" "CHR ''0''"] that by (simp add: byte_def [of "CHR ''0''"] del: byte_inject)
  with 1 show ?case by (subst decimal_nat.simps) (auto simp: hd_append)
qed

lemma digits_value_append: "digits_value (ds @ [c]) = 10 * digits_value ds + (byte c - 48)"
  by (simp add: digits_value_def)

lemma digits_value_decimal [simp]: "digits_value (decimal_nat n) = n"
proof (induction n rule: decimal_nat.induct)
  case (1 n)
  then show ?case
    by (subst decimal_nat.simps) (auto simp: digits_value_append, simp add: digits_value_def)
qed

text \<open>A number ends where none of its characters can follow.\<close>

definition ends_number :: "string \<Rightarrow> bool" where
  "ends_number r \<longleftrightarrow> r = [] \<or> \<not> is_digit (hd r) \<and> hd r \<notin> {CHR ''.'', CHR ''e'', CHR ''E''}"

lemma read_integer_decimal:
  assumes "ends_number r"
  shows "read_integer (decimal_nat n @ r) = Some (decimal_nat n, r)"
proof (cases "n = 0")
  case True
  have "decimal_nat 0 = [CHR ''0'']" using decimal_nat_head [of 0] by (simp add: decimal_nat.simps [of 0])
  with True show ?thesis by (simp add: read_integer_def)
next
  case False
  then obtain c ds where c: "decimal_nat n = c # ds" "c \<noteq> CHR ''0''"
    using decimal_nat_head [of n] by (cases "decimal_nat n") auto
  have d: "takeWhile is_digit (decimal_nat n @ r) = decimal_nat n" "dropWhile is_digit (decimal_nat n @ r) = r"
    using assms decimal_nat_digits [of n] by (cases r; auto simp: ends_number_def takeWhile_append dropWhile_append)+
  from c decimal_nat_digits [of n] d show ?thesis by (simp add: read_integer_def)
qed

lemma read_number_decimal:
  assumes "ends_number r"
  shows "read_number (decimal i @ r) = Some (JInt i, r)"
proof -
  obtain c ds where c: "decimal_nat (nat i) = c # ds" "is_digit c"
    using decimal_nat_digits [of "nat i"] by (cases "decimal_nat (nat i)") auto
  have "c \<noteq> CHR ''-''" using c(2) by (auto simp: is_digit_def byte_def)
  with c have "read_minus (decimal i @ r) =
      (if i < 0 then (''-'', decimal_nat (nat (- i)) @ r) else ([], decimal_nat (nat i) @ r))"
    by (simp add: read_minus_def decimal_def)
  moreover have "read_fraction r = Some ([], r)" "read_exponent r = Some ([], r)"
    using assms by (cases r; simp add: ends_number_def read_fraction_def read_exponent_def)+
  ultimately show ?thesis using read_integer_decimal [OF assms] by (simp add: read_number_def)
qed

text \<open>
  The document that is read back: its strings with the bytes that are not UTF-8 replaced. \<open>exact_numbers\<close>
  says that every number is an integer literal, \<open>json_depth\<close> counts the levels.
\<close>

fun json_clean :: "json \<Rightarrow> json" where
  "json_clean (JString s) = JString (utf8_clean s)"
| "json_clean (JArray js) = JArray (map json_clean js)"
| "json_clean (JObject kvs) = JObject (map (\<lambda>(k, j). (utf8_clean k, json_clean j)) kvs)"
| "json_clean j = j"

fun exact_numbers :: "json \<Rightarrow> bool" where
  "exact_numbers (JNumber t) = False"
| "exact_numbers (JArray js) = (\<forall>j \<in> set js. exact_numbers j)"
| "exact_numbers (JObject kvs) = (\<forall>(k, j) \<in> set kvs. exact_numbers j)"
| "exact_numbers j = True"

fun json_depth :: "json \<Rightarrow> int" where
  "json_depth (JArray js) = 1 + foldr (\<lambda>j. max (json_depth j)) js 0"
| "json_depth (JObject kvs) = 1 + foldr (\<lambda>(k, j). max (json_depth j)) kvs 0"
| "json_depth j = 0"

lemma is_digit_CHR [simp]:
  "\<not> is_digit (CHR 0x7B)" "\<not> is_digit (CHR 0x22)" "\<not> is_digit (CHR ''['')" "\<not> is_digit (CHR '']'')" "\<not> is_digit (CHR '','')"
  "\<not> is_digit (CHR 0x7D)" "\<not> is_digit (CHR ''t'')" "\<not> is_digit (CHR ''f'')" "\<not> is_digit (CHR ''n'')"
  by (simp_all add: is_digit_def byte_def)

lemma json_space_CHR [simp]:
  "\<not> json_space (CHR 0x7B)" "\<not> json_space (CHR 0x22)" "\<not> json_space (CHR ''['')" "\<not> json_space (CHR '']'')" "\<not> json_space (CHR '','')"
  "\<not> json_space (CHR 0x7D)" "\<not> json_space (CHR ''t'')" "\<not> json_space (CHR ''f'')" "\<not> json_space (CHR ''n'')" "\<not> json_space (CHR '':'')"
  "\<not> json_space (CHR ''-'')"
  by (simp_all add: json_space_def byte_def)

lemma skip_space_same [simp]: "\<not> json_space c \<Longrightarrow> skip_space (c # s) = c # s"
  by (simp add: skip_space_def)

lemma digit_not_space: "is_digit c \<Longrightarrow> \<not> json_space c"
  by (auto simp: is_digit_def json_space_def)

lemma decimal_Cons: "\<exists>c t. decimal i = c # t \<and> (c = CHR ''-'' \<or> is_digit c)"
proof (cases "i < 0")
  case False
  then show ?thesis using decimal_nat_digits [of "nat i"] by (cases "decimal_nat (nat i)") (auto simp: decimal_def)
qed (simp add: decimal_def)

text \<open>A document starts with neither a space nor a closing bracket, and ends a number.\<close>

lemma json_Marshal_Cons:
  assumes "exact_numbers j"
  obtains c t where "json_Marshal j = c # t" "\<not> json_space c" "c \<noteq> CHR '']''"
proof (cases j)
  case (JInt i)
  with decimal_Cons [of i] that show ?thesis by (fastforce dest: digit_not_space)
next
  case (JBool b)
  with that show ?thesis by (cases b) auto
qed (use assms that in \<open>auto simp: quote_def\<close>)

lemma ends_number_CHR [simp]: "ends_number (CHR '','' # r)" "ends_number (CHR '']'' # r)" "ends_number (CHR 0x7D # r)" "ends_number []"
  by (simp_all add: ends_number_def)

definition reads_back :: "json \<Rightarrow> bool" where
  "reads_back j \<longleftrightarrow>
     (\<forall>n d r. ends_number r \<longrightarrow> json_depth j \<le> d \<longrightarrow> length (json_Marshal j) \<le> n \<longrightarrow>
        read_value n d (json_Marshal j @ r) = Some (json_clean j, r))"

lemma reads_backD:
  "reads_back j \<Longrightarrow> ends_number r \<Longrightarrow> json_depth j \<le> d \<Longrightarrow> length (json_Marshal j) \<le> n \<Longrightarrow>
   read_value n d (json_Marshal j @ r) = Some (json_clean j, r)"
  by (simp add: reads_back_def)

lemma read_elements_written:
  assumes "\<forall>j \<in> set (j # js). reads_back j \<and> json_depth j \<le> d"
    and "length (intercalate (map json_Marshal (j # js))) < n"
  shows "read_elements n d (intercalate (map json_Marshal (j # js)) @ CHR '']'' # r) = Some (map json_clean (j # js), r)"
  using assms
proof (induction js arbitrary: j n)
  case Nil
  then obtain n' where n: "n = Suc n'" by (cases n) auto
  with Nil show ?case by (simp add: reads_backD)
next
  case (Cons k js)
  then obtain n' where n: "n = Suc n'" by (cases n) auto
  from Cons.prems n have "read_value n' d (json_Marshal j @ CHR '','' # intercalate (map json_Marshal (k # js)) @ CHR '']'' # r) =
      Some (json_clean j, CHR '','' # intercalate (map json_Marshal (k # js)) @ CHR '']'' # r)"
    by (intro reads_backD) auto
  moreover have "read_elements n' d (intercalate (map json_Marshal (k # js)) @ CHR '']'' # r) = Some (map json_clean (k # js), r)"
    by (rule Cons.IH) (use Cons.prems n in auto)
  ultimately show ?case by (simp add: n)
qed

definition json_member :: "string \<times> json \<Rightarrow> string" where
  "json_member m = quote (fst m) @ '':'' @ json_Marshal (snd m)"

definition clean_member :: "string \<times> json \<Rightarrow> string \<times> json" where
  "clean_member m = (utf8_clean (fst m), json_clean (snd m))"

lemma json_members: "map (\<lambda>(k, j). quote k @ '':'' @ json_Marshal j) = map json_member"
  "map (\<lambda>(k, j). (utf8_clean k, json_clean j)) = map clean_member"
  by (simp_all add: json_member_def clean_member_def case_prod_beta fun_eq_iff)

lemmas json_Marshal_members = json_Marshal.simps(7) [unfolded json_members]
lemmas json_clean_members = json_clean.simps(3) [unfolded json_members]

text \<open>One member: its key, its value, and what the reader goes on with.\<close>

lemma read_members_member:
  assumes "reads_back (snd m)" "json_depth (snd m) \<le> d" "length (json_member m) \<le> n" "ends_number (c # r)" "\<not> json_space c"
  shows "read_members (Suc n) d (json_member m @ c # r) =
    (if c = CHR 0x7D then Some ([clean_member m], r)
     else if c = CHR '','' then prepend [clean_member m] (read_members n d r) else None)"
proof -
  from assms have "read_value n d (json_Marshal (snd m) @ c # r) = Some (json_clean (snd m), c # r)"
    by (intro reads_backD) (auto simp: json_member_def)
  with assms(5) show ?thesis by (simp add: json_member_def quote_def read_quote_body clean_member_def)
qed

lemma read_members_written:
  assumes "\<forall>m \<in> set (m # ms). reads_back (snd m) \<and> json_depth (snd m) \<le> d"
    and "length (intercalate (map json_member (m # ms))) < n"
  shows "read_members n d (intercalate (map json_member (m # ms)) @ CHR 0x7D # r) = Some (map clean_member (m # ms), r)"
  using assms
proof (induction ms arbitrary: m n)
  case Nil
  then obtain n' where n: "n = Suc n'" by (cases n) auto
  with Nil show ?case by (simp add: read_members_member del: read_members.simps)
next
  case (Cons k ms)
  then obtain n' where n: "n = Suc n'" by (cases n) auto
  moreover have "read_members n' d (intercalate (map json_member (k # ms)) @ CHR 0x7D # r) = Some (map clean_member (k # ms), r)"
    by (rule Cons.IH) (use Cons.prems n in auto)
  ultimately show ?case using Cons.prems
    by (simp add: read_members_member del: read_members.simps)
qed

lemma member_depth: "(\<lambda>(k :: string, j). max (json_depth j)) = (\<lambda>m. max (json_depth (snd m)))"
  by auto

lemma foldr_max_le: "foldr (\<lambda>x. max (f x)) xs (0 :: int) \<le> d \<longleftrightarrow> 0 \<le> d \<and> (\<forall>x \<in> set xs. f x \<le> d)"
  by (induction xs) auto

lemma reads_back_leaf:
  assumes "\<And>m d r. ends_number r \<Longrightarrow> read_value (Suc m) d (json_Marshal j @ r) = Some (json_clean j, r)"
    and "json_Marshal j \<noteq> []"
  shows "reads_back j"
  unfolding reads_back_def
proof (intro allI impI)
  fix n d r assume "ends_number r" "length (json_Marshal j) \<le> n"
  moreover from this(2) assms(2) obtain m where "n = Suc m" by (cases n) auto
  ultimately show "read_value n d (json_Marshal j @ r) = Some (json_clean j, r)" by (simp add: assms(1) del: read_value.simps)
qed

lemma reads_back_all: "exact_numbers j \<Longrightarrow> reads_back j"
proof (induction j)
  case (JInt i)
  obtain c t where c: "decimal i = c # t" "c = CHR ''-'' \<or> is_digit c" using decimal_Cons by blast
  then have d: "\<not> json_space c" "c \<noteq> CHR 0x7B" "c \<noteq> CHR ''[''" "c \<noteq> CHR 0x22" "c \<noteq> CHR ''t''" "c \<noteq> CHR ''f''" "c \<noteq> CHR ''n''"
    by (auto dest: digit_not_space)
  show ?case
  proof (rule reads_back_leaf)
    fix m d r assume "ends_number r"
    then show "read_value (Suc m) d (json_Marshal (JInt i) @ r) = Some (json_clean (JInt i), r)"
      using c(1) d read_number_decimal [of r i] by simp
  qed (use c in simp)
next
  case (JArray js)
  show ?case unfolding reads_back_def
  proof (intro allI impI)
    fix n d r assume r: "json_depth (JArray js) \<le> d" "length (json_Marshal (JArray js)) \<le> n"
    have depth: "1 \<le> d \<and> (\<forall>j \<in> set js. json_depth j \<le> d - 1)"
      using r(1) foldr_max_le [of json_depth js "d - 1"] by simp
    from r(2) obtain n' where n: "n = Suc n'" by (cases n) auto
    show "read_value n d (json_Marshal (JArray js) @ r) = Some (json_clean (JArray js), r)"
    proof (cases js)
      case Nil
      with r n show ?thesis by simp
    next
      case (Cons j js')
      from JArray.prems Cons obtain c t where c: "json_Marshal j = c # t" "\<not> json_space c" "c \<noteq> CHR '']''"
        using json_Marshal_Cons [of j] by auto
      obtain t' where t: "intercalate (map json_Marshal js) = c # t'"
        using c Cons by (cases js') auto
      have "read_elements n' (d - 1) (intercalate (map json_Marshal (j # js')) @ CHR '']'' # r) = Some (map json_clean (j # js'), r)"
        by (rule read_elements_written) (use JArray depth r(2) n Cons in auto)
      with c t n Cons depth show ?thesis by (simp add: read_map_Some)
    qed
  qed
next
  case (JObject kvs)
  show ?case unfolding reads_back_def
  proof (intro allI impI)
    fix n d r assume r: "json_depth (JObject kvs) \<le> d" "length (json_Marshal (JObject kvs)) \<le> n"
    have depth: "1 \<le> d \<and> (\<forall>m \<in> set kvs. json_depth (snd m) \<le> d - 1)"
      using r(1) foldr_max_le [of "\<lambda>m. json_depth (snd m)" kvs "d - 1"] by (simp add: member_depth)
    from r(2) obtain n' where n: "n = Suc n'" by (cases n) auto
    show "read_value n d (json_Marshal (JObject kvs) @ r) = Some (json_clean (JObject kvs), r)"
    proof (cases kvs)
      case Nil
      with depth n show ?thesis by simp
    next
      case (Cons m ms)
      obtain t where t: "intercalate (map json_member kvs) = CHR 0x22 # t"
        using Cons by (cases ms) (auto simp: json_member_def quote_def)
      have "read_members n' (d - 1) (intercalate (map json_member (m # ms)) @ CHR 0x7D # r) = Some (map clean_member (m # ms), r)"
      proof (rule read_members_written)
        show "\<forall>m \<in> set (m # ms). reads_back (snd m) \<and> json_depth (snd m) \<le> d - 1"
        proof
          fix m' assume m': "m' \<in> set (m # ms)"
          with JObject.prems Cons have "exact_numbers (snd m')" by auto
          with JObject.IH [of m' "snd m'"] m' Cons have "reads_back (snd m')" by (simp add: snds.simps)
          moreover from depth m' Cons have "json_depth (snd m') \<le> d - 1" by blast
          ultimately show "reads_back (snd m') \<and> json_depth (snd m') \<le> d - 1" by blast
        qed
        show "length (intercalate (map json_member (m # ms))) < n'" using r(2) n Cons by (simp add: json_Marshal_members del: json_Marshal.simps)
      qed
      with t n Cons depth show ?thesis
        by (simp add: read_map_Some json_Marshal_members json_clean_members del: json_Marshal.simps json_clean.simps)
    qed
  qed
qed (auto simp: quote_def read_quote_body read_map_Some read_literal_def intro!: reads_back_leaf split: if_splits)

lemma json_Decode_Marshal:
  assumes "exact_numbers j" and "json_depth j \<le> max_depth" and "ends_number r"
  shows "json_Decode (json_Marshal j @ r) = Some (json_clean j)"
  using reads_backD [OF reads_back_all [OF assms(1)] assms(3,2)] by (simp add: json_Decode_def)

lemma json_Unmarshal_Marshal:
  assumes "exact_numbers j" and "json_depth j \<le> max_depth"
  shows "json_Unmarshal (json_Marshal j) = Some (json_clean j)"
  using reads_backD [OF reads_back_all [OF assms(1)] ends_number_CHR(4) assms(2)] by (simp add: json_Unmarshal_def skip_space_def)

end
