(* ===== verification/Json.thy ===== *)
theory Json
  imports Json_Text
begin

text \<open>
  The part of \<open>encoding/json\<close> the handlers use: filling the fields of a struct from a JSON value.
  A field is matched by its tag up to case (Unicode's simple folding, in which U+017F is an \<open>s\<close> and U+212A a \<open>k\<close>), the last match wins, \<open>null\<close> and a missing key
  leave the zero value, and a value of another type is an error.
\<close>

definition ascii_lower :: "char \<Rightarrow> char" where
  "ascii_lower c =
     (if 65 \<le> (of_char c :: nat) \<and> (of_char c :: nat) \<le> 90 then char_of (of_char c + 32 :: nat) else c)"

text \<open>The two characters beyond ASCII that fold to a letter of ASCII are the bytes C5 BF and E2 84 AA.\<close>

function json_fold :: "string \<Rightarrow> string" where
  "json_fold [] = []"
| "json_fold (c # s) =
     (if byte c = 0xC5 \<and> map byte (take 1 s) = [0xBF] then CHR ''s'' # json_fold (drop 1 s)
      else if byte c = 0xE2 \<and> map byte (take 2 s) = [0x84, 0xAA] then CHR ''k'' # json_fold (drop 2 s)
      else ascii_lower c # json_fold s)"
  by pat_completeness auto
termination by (relation "measure length") auto

declare json_fold.simps [simp del]

definition json_type_error :: error where
  "json_type_error = ErrorsNew ''json: cannot unmarshal value into Go struct field''"

fun json_fields :: "json \<Rightarrow> error + (string \<times> json) list" where
  "json_fields (JObject kvs) = Inr kvs"
| "json_fields JNull = Inr []"
| "json_fields _ = Inl json_type_error"

fun string_field :: "string \<Rightarrow> string \<Rightarrow> (string \<times> json) list \<Rightarrow> error + string" where
  "string_field n v [] = Inr v"
| "string_field n v ((k, j) # kvs) =
     (if json_fold k \<noteq> json_fold n then string_field n v kvs
      else case j of
             JString s \<Rightarrow> string_field n s kvs
           | JNull \<Rightarrow> string_field n v kvs
           | _ \<Rightarrow> Inl json_type_error)"

fun int64_field :: "string \<Rightarrow> int64 \<Rightarrow> (string \<times> json) list \<Rightarrow> error + int64" where
  "int64_field n v [] = Inr v"
| "int64_field n v ((k, j) # kvs) =
     (if json_fold k \<noteq> json_fold n then int64_field n v kvs
      else case j of
             JInt i \<Rightarrow> (if int64_range i then int64_field n (word_of_int i) kvs else Inl json_type_error)
           | JNull \<Rightarrow> int64_field n v kvs
           | _ \<Rightarrow> Inl json_type_error)"

text \<open>A decoded integer field is the integer of the document, never a wrapped one.\<close>

lemma int64_field_exact:
  assumes "int64_field n v kvs = Inr x" and "x \<noteq> v"
  shows "\<exists>k i. (k, JInt i) \<in> set kvs \<and> json_fold k = json_fold n \<and> sint x = i"
  using assms
proof (induction n v kvs rule: int64_field.induct)
  case (1 n v)
  then show ?case by simp
next
  case (2 n v k j kvs)
  show ?case
  proof (cases "json_fold k = json_fold n")
    case False
    with 2 show ?thesis by (auto split: if_splits)
  next
    case True
    show ?thesis
    proof (cases j)
      case (JInt i)
      with True 2 show ?thesis
        by (cases "x = word_of_int i") (auto simp: sint_word_of_int64 split: if_splits)
    next
      case JNull
      with True 2 show ?thesis by auto
    qed (use True 2 in auto)
  qed
qed

end
