(* ===== verification/Demo.thy ===== *)
theory Demo
  imports Effects Json
begin

text \<open>
  A concrete environment and a concrete state, on which the theorems with hypotheses are applied:
  UUID text is read case-insensitively, a \<open>VARCHAR(n)\<close> column takes up to \<open>n\<close> characters, generated
  identifiers are distinct, and neither the database nor Kafka nor Redis fails. The state holds two
  users, their wallets (funded from the platform account, so that the ledger explains the
  balances), and one idempotency key. Two bodies of requests are given as their text.
\<close>

definition succeeded_body :: string where
  \<open>succeeded_body = ''{"event_id": "evt-1", "event_type": "payment.succeeded", "reference_id": "ext_1", "status": "SUCCEEDED"}''\<close>

definition succeeded_document :: json where
  "succeeded_document = JObject
     [(''event_id'', JString ''evt-1''), (''event_type'', JString ''payment.succeeded''),
      (''reference_id'', JString ''ext_1''), (''status'', JString ''SUCCEEDED'')]"

lemma succeeded_text [simp]: "json_Unmarshal succeeded_body = Some succeeded_document"
  by code_simp

definition transfer_body_text :: string where
  \<open>transfer_body_text =
     ''{"source_wallet_id": "wallet-a", "destination_wallet_id": "wallet-b", "amount": 30, "currency": "USD"}''\<close>

definition demo_env :: env where
  "demo_env =
     \<lparr>uuid_in = (\<lambda>s. if s = '''' then None else Some (map ascii_lower s)),
      varchar_in = (\<lambda>n s. if length s \<le> n then Some s else None),
      jsonb_in = Some, jsonb_text_in = json_Unmarshal,
      gen_random_uuid = (\<lambda>n. ''id-'' @ replicate (n mod 100) (CHR ''x'')),
      pg_now = int, stmt_fault = (\<lambda>_. None), commit_result = (\<lambda>_. Committed),
      produce_result = (\<lambda>_. Produced), row_break = (\<lambda>_. None), redis_fault = (\<lambda>_. None), redis_now = int, time_Now = int,
      format_RFC3339 = (\<lambda>t. ''time''), time_MarshalJSON = (\<lambda>t. ''time''),
      rand_Intn = (\<lambda>n k. n mod k), rand_Float32 = (\<lambda>n. 1 / 2),
      hmac_sha256_hex = (\<lambda>secret payload. secret @ ''/'' @ payload),
      lib_error_text = (\<lambda>e. ''error'')\<rparr>"

definition demo_wallet :: "string \<Rightarrow> string \<Rightarrow> string \<Rightarrow> int64 \<Rightarrow> Wallet" where
  "demo_wallet i owner account balance =
     \<lparr>w_ID = i, w_OwnerID = owner, w_AccountID = account, w_Currency = ''USD'',
      w_AvailableBalance = balance, w_LockedBalance = 0, w_Status = ''ACTIVE'', w_Version = 1,
      w_CreatedAt = 0, w_UpdatedAt = 0\<rparr>"

definition demo_entry :: "string \<Rightarrow> string \<Rightarrow> string \<Rightarrow> int64 \<Rightarrow> string \<Rightarrow> Entry" where
  "demo_entry i txid account amount direction =
     \<lparr>e_ID = i, e_TransactionID = txid, e_AccountID = account, e_Amount = amount,
      e_Direction = direction, e_Currency = ''USD'', e_CreatedAt = 0\<rparr>"

definition demo_db :: db where
  "demo_db = empty_db\<lparr>
     users := [\<lparr>u_ID = ''alice'', u_Email = ''a@x'', u_PasswordHash = ''h'', u_Role = ''USER'', u_CreatedAt = 0, u_UpdatedAt = 0\<rparr>,
               \<lparr>u_ID = ''bob'', u_Email = ''b@x'', u_PasswordHash = ''h'', u_Role = ''USER'', u_CreatedAt = 0, u_UpdatedAt = 0\<rparr>],
     accounts := [\<lparr>a_ID = ''platform'', a_Type = ''PLATFORM'', a_Currency = ''USD'', a_CreatedAt = 0\<rparr>,
                  \<lparr>a_ID = ''acc-a'', a_Type = ''USER'', a_Currency = ''USD'', a_CreatedAt = 0\<rparr>,
                  \<lparr>a_ID = ''acc-b'', a_Type = ''USER'', a_Currency = ''USD'', a_CreatedAt = 0\<rparr>],
     wallets := [demo_wallet ''wallet-a'' ''alice'' ''acc-a'' 100, demo_wallet ''wallet-b'' ''bob'' ''acc-b'' 50],
     ledger_transactions :=
       [\<lparr>lt_ID = ''tx-1'', lt_ReferenceID = ''p-1'', lt_ReferenceType = ''PAYMENT'', lt_Status = ''COMPLETED'', lt_CreatedAt = 0\<rparr>,
        \<lparr>lt_ID = ''tx-2'', lt_ReferenceID = ''p-2'', lt_ReferenceType = ''PAYMENT'', lt_Status = ''COMPLETED'', lt_CreatedAt = 0\<rparr>],
     ledger_entries :=
       [demo_entry ''en-1'' ''tx-1'' ''platform'' 100 ''DEBIT'', demo_entry ''en-2'' ''tx-1'' ''acc-a'' 100 ''CREDIT'',
        demo_entry ''en-3'' ''tx-2'' ''platform'' 50 ''DEBIT'', demo_entry ''en-4'' ''tx-2'' ''acc-b'' 50 ''CREDIT''],
     idempotency_keys :=
       [\<lparr>ik_Key = ''key-1'', ik_Status = ''IN_PROGRESS'', ik_RequestPayload = JNull, ik_ResponsePayload = None,
         ik_ResponseStatus = None, ik_LockedAt = Some 0, ik_CreatedAt = 0\<rparr>]\<rparr>"

definition demo_world :: world where
  "demo_world = \<lparr>db = demo_db, tick = 0, tx_start = None, metrics = metrics0, kafka_log = [],
     redis_store = (\<lambda>_. None)\<rparr>"

lemma ascii_lower_idem [simp]: "ascii_lower (ascii_lower c) = ascii_lower c"
proof (cases "65 \<le> (of_char c :: nat) \<and> (of_char c :: nat) \<le> 90")
  case True
  then have "(of_char (ascii_lower c) :: nat) = of_char c + 32" by (simp add: ascii_lower_def)
  with True show ?thesis by (simp add: ascii_lower_def)
next
  case False
  then show ?thesis by (auto simp: ascii_lower_def)
qed

lemma demo_env_canonical [simp]: "uuid_canonical demo_env"
  by (auto simp: uuid_canonical_def demo_env_def comp_def split: if_splits)

end
