(* ===== verification/Middleware.thy ===== *)
theory Middleware
  imports Auth Demo
begin

text \<open>
  The Redis client (\<open>internal/redis/client.go\<close>) and the middlewares of \<open>internal/middleware\<close>:
  authentication, roles, rate limiting and request metrics. A middleware is a function from handlers
  to handlers. The lemmas say when a request reaches the handler behind it, with which claims, and
  how many requests pass the limiter within one window.
\<close>

section \<open>Redis\<close>

text \<open>The value of a key that has not expired.\<close>

definition redis_live :: "time \<Rightarrow> (string \<Rightarrow> (redis_value \<times> time option) option) \<Rightarrow> string \<Rightarrow> (redis_value \<times> time option) option" where
  "redis_live t store key =
     (case store key of
        None \<Rightarrow> None
      | Some (v, None) \<Rightarrow> Some (v, None)
      | Some (v, Some x) \<Rightarrow> (if x \<le> t then None else Some (v, Some x)))"

text \<open>
  The Lua script: \<open>GET\<close>, compare, \<open>INCR\<close>, \<open>EXPIRE\<close> on the first increment. It runs atomically. A key that
  holds text makes the comparison fail; no code stores text under a limiter key.
\<close>

definition allow_script ::
  "string \<Rightarrow> int \<Rightarrow> int \<Rightarrow> time \<Rightarrow> (string \<Rightarrow> (redis_value \<times> time option) option) \<Rightarrow>
   (error + int) \<times> (string \<Rightarrow> (redis_value \<times> time option) option)" where
  "allow_script key limit windowSeconds t store =
     (case redis_live t store key of
        Some (RedisText s, x) \<Rightarrow> (Inl (ErrorsNew ''attempt to compare number with nil''), store)
      | Some (RedisInt current, x) \<Rightarrow>
          (if current \<ge> limit then (Inr 0, store)
           else if current + 1 = 1 then (Inr 1, store(key \<mapsto> (RedisInt 1, Some (t + windowSeconds))))
           else (Inr 1, store(key \<mapsto> (RedisInt (current + 1), x))))
      | None \<Rightarrow> (Inr 1, store(key \<mapsto> (RedisInt 1, Some (t + windowSeconds)))))"

text \<open>A command sent to Redis can be lost on the way or on the way back.\<close>

definition redis_call :: "env \<Rightarrow> (time \<Rightarrow> (string \<Rightarrow> (redis_value \<times> time option) option) \<Rightarrow>
    (error + 'a) \<times> (string \<Rightarrow> (redis_value \<times> time option) option)) \<Rightarrow> 'a M" where
  "redis_call E f w =
     (case f (redis_now E (tick w)) (redis_store w) of
        (r, store) \<Rightarrow>
          (case redis_fault E (tick w) of
             None \<Rightarrow> (r, w\<lparr>redis_store := store, tick := Suc (tick w)\<rparr>)
           | Some (NotExecuted msg) \<Rightarrow> (Inl (DriverError msg), w\<lparr>tick := Suc (tick w)\<rparr>)
           | Some (AckLost msg) \<Rightarrow> (Inl (DriverError msg), w\<lparr>redis_store := store, tick := Suc (tick w)\<rparr>)))"

text \<open>\<open>window\<close> is the duration in whole seconds.\<close>

definition Allow :: "env \<Rightarrow> string \<Rightarrow> int \<Rightarrow> int \<Rightarrow> unit M" where
  "Allow E key limit window =
     (let windowSeconds = (if window \<le> 0 then 1 else window) in
      mbind (mwrap (ErrorfW ''rate limiter script failed'') (redis_call E (allow_script key limit windowSeconds)))
        (\<lambda>allowed. if allowed = 0 then mfail ErrRateLimitExceeded else mret ()))"

text \<open>\<open>ttl\<close> is in whole seconds and not negative; zero means no expiry.\<close>

definition SetCache :: "env \<Rightarrow> string \<Rightarrow> string \<Rightarrow> int \<Rightarrow> unit M" where
  "SetCache E key value ttl =
     redis_call E (\<lambda>t store. (Inr (), store(key \<mapsto> (RedisText value, if ttl = 0 then None else Some (t + ttl)))))"

definition GetCache :: "env \<Rightarrow> string \<Rightarrow> string M" where
  "GetCache E key =
     redis_call E (\<lambda>t store.
       (case redis_live t store key of
          None \<Rightarrow> Inr ''''
        | Some (RedisText s, _) \<Rightarrow> Inr s
        | Some (RedisInt i, _) \<Rightarrow> Inr (decimal i), store))"

section \<open>Middlewares\<close>

definition GetClaims :: "request \<Rightarrow> JWTClaims option" where
  "GetClaims rq = rq_claims rq"

text \<open>\<open>strings.Split\<close> at a character.\<close>

fun strings_Split :: "char \<Rightarrow> string \<Rightarrow> string list" where
  "strings_Split c [] = [[]]"
| "strings_Split c (x # xs) =
     (if x = c then [] # strings_Split c xs
      else case strings_Split c xs of [] \<Rightarrow> [[x]] | y # ys \<Rightarrow> (x # y) # ys)"

definition AuthMiddleware :: "authlib \<Rightarrow> env \<Rightarrow> string \<Rightarrow> handler \<Rightarrow> handler" where
  "AuthMiddleware L E secret next rq w =
     (let authHeader = rq_header rq ''Authorization'' in
      if authHeader = '''' then (http_Error (TextBody ''missing authorization header'') 401, w)
      else
        (let parts = strings_Split (CHR '' '') authHeader in
         if length parts \<noteq> 2 \<or> parts ! 0 \<noteq> ''Bearer''
         then (http_Error (TextBody ''invalid authorization header format'') 401, w)
         else
           (case ValidateToken L (time_Now E (tick w)) (parts ! 1) secret of
              Inl _ \<Rightarrow> (http_Error (TextBody ''invalid token'') 401, w\<lparr>tick := Suc (tick w)\<rparr>)
            | Inr claims \<Rightarrow> next (rq\<lparr>rq_claims := Some claims\<rparr>) (w\<lparr>tick := Suc (tick w)\<rparr>))))"

definition RequireRole :: "string list \<Rightarrow> handler \<Rightarrow> handler" where
  "RequireRole roles next rq w =
     (case rq_claims rq of
        None \<Rightarrow> (http_Error (TextBody ''unauthorized'') 401, w)
      | Some claims \<Rightarrow>
          (if \<not> list_ex (\<lambda>role. c_Role claims = role) roles
           then (http_Error (TextBody ''forbidden: insufficient permissions'') 403, w)
           else next rq w))"

definition client_ip :: "request \<Rightarrow> string" where
  "client_ip rq =
     (if rq_header rq ''X-Real-IP'' \<noteq> '''' then rq_header rq ''X-Real-IP''
      else if rq_header rq ''X-Forwarded-For'' \<noteq> '''' then rq_header rq ''X-Forwarded-For''
      else rq_remote_addr rq)"

definition RateLimiter :: "env \<Rightarrow> int \<Rightarrow> handler \<Rightarrow> handler" where
  "RateLimiter E requestsPerMinute next rq w =
     (case Allow E (''ratelimit:ip:'' @ client_ip rq) requestsPerMinute 60 w of
        (Inl e, w1) \<Rightarrow>
          (if e = ErrRateLimitExceeded then (http_Error (TextBody ''Too Many Requests'') 429, w1) else next rq w1)
      | (Inr _, w1) \<Rightarrow> next rq w1)"

text \<open>
  \<open>pattern\<close> is the route pattern that chi reports once the request has been served, empty when there
  is none. The clock is read before and after the handler.
\<close>

definition url_path :: "request \<Rightarrow> string" where
  "url_path rq = concat (map (\<lambda>s. ''/'' @ s) (rq_path rq))"

definition count_request :: "string \<Rightarrow> string \<Rightarrow> int \<Rightarrow> metrics \<Rightarrow> metrics" where
  "count_request method path status m =
     m\<lparr>HTTPRequestsTotal := (HTTPRequestsTotal m)
        ((method, path, decimal status) := Suc (HTTPRequestsTotal m (method, path, decimal status)))\<rparr>"

definition observe_request :: "string \<Rightarrow> string \<Rightarrow> time \<Rightarrow> metrics \<Rightarrow> metrics" where
  "observe_request method path duration m =
     m\<lparr>HTTPRequestDuration := (HTTPRequestDuration m)((method, path) := duration # HTTPRequestDuration m (method, path))\<rparr>"

definition MetricsMiddleware :: "env \<Rightarrow> (request \<Rightarrow> world \<Rightarrow> string) \<Rightarrow> handler \<Rightarrow> handler" where
  "MetricsMiddleware E pattern next rq w =
     (case next rq (w\<lparr>tick := Suc (tick w)\<rparr>) of
        (resp, w1) \<Rightarrow>
          (let duration = time_Now E (tick w1) - time_Now E (tick w);
               path = (if pattern rq w \<noteq> '''' then pattern rq w else url_path rq)
           in (resp, w1\<lparr>tick := Suc (tick w1),
                       metrics := observe_request (rq_method rq) path duration
                         (count_request (rq_method rq) path (resp_status resp) (metrics w1))\<rparr>)))"

section \<open>A concrete request and token library\<close>

text \<open>
  The token library of the witnesses signs one set of claims \<open>c\<close> and checks the secret and the times;
  its password hash is the reversed password. \<open>demo_claims\<close> are the claims of the wallet owner \<open>alice\<close>.
\<close>

definition demo_claims :: JWTClaims where
  "demo_claims = \<lparr>c_UserID = ''alice'', c_Role = ''USER'', c_ExpiresAt = 86401, c_IssuedAt = 2, c_NotBefore = 3,
     c_Issuer = ''wallet-ledger'', c_Subject = ''alice''\<rparr>"

definition authlib_for :: "JWTClaims \<Rightarrow> authlib" where
  "authlib_for claims = \<lparr>
     bcrypt_generate = (\<lambda>n pw. if length pw \<le> 60 then Inr (rev pw) else Inl (ErrorsNew ''password too long'')),
     bcrypt_compare = (\<lambda>h pw. h = rev pw),
     jwt_sign = (\<lambda>secret c. if c = claims then Inr (''token.'' @ filter (\<lambda>x. x \<noteq> CHR '' '') secret) else Inl (ErrorsNew ''not signed'')),
     jwt_decode = (\<lambda>tok. if take 6 tok = ''token.'' then Some (SigningMethodHMAC ''HS256'', claims) else None),
     jwt_verify = (\<lambda>alg secret tok. alg = SigningMethodHMAC ''HS256'' \<and> drop 6 tok = filter (\<lambda>x. x \<noteq> CHR '' '') secret),
     jwt_claims_valid = (\<lambda>now c. c_NotBefore c \<le> now \<and> now < c_ExpiresAt c)\<rparr>"

definition demo_authlib :: authlib where
  "demo_authlib = authlib_for demo_claims"

definition demo_http_request :: request where
  "demo_http_request = \<lparr>rq_method = ''GET'', rq_path = [''health''],
     rq_header = (\<lambda>h. if h = ''Authorization'' then ''Bearer token.key'' else ''''),
     rq_body = Some [], rq_id = '''', rq_remote_addr = ''1.2.3.4:5'', rq_claims = None\<rparr>"

section \<open>The limiter\<close>

text \<open>The number of requests let through out of \<open>n\<close> calls in a row.\<close>

fun allowed_count :: "env \<Rightarrow> string \<Rightarrow> int \<Rightarrow> int \<Rightarrow> nat \<Rightarrow> world \<Rightarrow> nat \<times> world" where
  "allowed_count E key limit window 0 w = (0, w)"
| "allowed_count E key limit window (Suc n) w =
     (case Allow E key limit window w of
        (r, w1) \<Rightarrow>
          (case allowed_count E key limit window n w1 of (k, w2) \<Rightarrow> (if isl r then k else Suc k, w2)))"

lemma Allow_counting:
  assumes "redis_fault E (tick w) = None" and "redis_store w key = Some (RedisInt i, Some x)" and "redis_now E (tick w) < x" and "0 < i"
  shows "Allow E key limit window w =
    (if i \<ge> limit then (Inl ErrRateLimitExceeded, w\<lparr>tick := Suc (tick w)\<rparr>)
     else (Inr (), w\<lparr>redis_store := (redis_store w)(key \<mapsto> (RedisInt (i + 1), Some x)), tick := Suc (tick w)\<rparr>))"
  using assms by (simp add: Allow_def mbind_def mwrap_def redis_call_def allow_script_def redis_live_def mfail_def mret_def Let_def)

lemma allowed_count_live:
  assumes "\<And>m. redis_fault E m = None" and "\<And>m. tick w \<le> m \<Longrightarrow> m < tick w + n \<Longrightarrow> redis_now E m < x"
    and "redis_store w key = Some (RedisInt i, Some x)" and "0 < i" and "i \<le> limit"
  shows "fst (allowed_count E key limit window n w) = min n (nat (limit - i))"
  using assms(2-)
proof (induction n arbitrary: w i)
  case 0
  then show ?case by simp
next
  case (Suc n)
  have step: "Allow E key limit window w =
    (if i \<ge> limit then (Inl ErrRateLimitExceeded, w\<lparr>tick := Suc (tick w)\<rparr>)
     else (Inr (), w\<lparr>redis_store := (redis_store w)(key \<mapsto> (RedisInt (i + 1), Some x)), tick := Suc (tick w)\<rparr>))"
    using Allow_counting [OF assms(1) Suc.prems(2) _ Suc.prems(3)] Suc.prems(1) [of "tick w"] by simp
  show ?case
  proof (cases "i \<ge> limit")
    case True
    with Suc.IH [of "w\<lparr>tick := Suc (tick w)\<rparr>" i] Suc.prems step show ?thesis
      by (simp split: prod.splits)
  next
    case False
    let ?w1 = "w\<lparr>redis_store := (redis_store w)(key \<mapsto> (RedisInt (i + 1), Some x)), tick := Suc (tick w)\<rparr>"
    from Suc.IH [of ?w1 "i + 1"] Suc.prems False have "fst (allowed_count E key limit window n ?w1) = min n (nat (limit - (i + 1)))"
      by simp
    with False step show ?thesis by (auto split: prod.splits)
  qed
qed


lemma Allow_first:
  assumes "redis_fault E (tick w) = None" and "redis_live (redis_now E (tick w)) (redis_store w) key = None"
  shows "Allow E key limit window w = (Inr (), w\<lparr>redis_store := (redis_store w)(key \<mapsto>
    (RedisInt 1, Some (redis_now E (tick w) + (if window \<le> 0 then 1 else window)))), tick := Suc (tick w)\<rparr>)"
  using assms by (simp add: Allow_def mbind_def mwrap_def redis_call_def allow_script_def mret_def Let_def)

text \<open>
  C39: one window. Of \<open>n\<close> calls under one key within the window that the first of them opens, exactly
  the first \<open>min n limit\<close> are allowed.
\<close>

theorem rate_limit_window:
  assumes "\<And>m. redis_fault E m = None" and "redis_live (redis_now E (tick w)) (redis_store w) key = None"
    and "\<And>m. tick w \<le> m \<Longrightarrow> m < tick w + n \<Longrightarrow> redis_now E m < redis_now E (tick w) + window" and "0 < window" and "1 \<le> limit"
  shows "fst (allowed_count E key limit window n w) = min n (nat limit)"
proof (cases n)
  case 0
  then show ?thesis by simp
next
  case (Suc k)
  let ?x = "redis_now E (tick w) + window"
  let ?w1 = "w\<lparr>redis_store := (redis_store w)(key \<mapsto> (RedisInt 1, Some ?x)), tick := Suc (tick w)\<rparr>"
  have step: "Allow E key limit window w = (Inr (), ?w1)"
    using Allow_first [OF assms(1,2)] assms(4) by simp
  have "fst (allowed_count E key limit window k ?w1) = min k (nat (limit - 1))"
    using assms(3,5) Suc by (intro allowed_count_live [OF assms(1), of ?w1 k ?x]) auto
  with step assms(5) Suc show ?thesis by (auto split: prod.splits)
qed

theorem rate_limit_window_witness:
  "fst (allowed_count demo_env ''ratelimit:ip:1.2.3.4'' 2 60 5 demo_world) = 2"
proof -
  have "fst (allowed_count demo_env ''ratelimit:ip:1.2.3.4'' 2 60 5 demo_world) = min 5 (nat 2)"
    by (rule rate_limit_window) (simp_all add: demo_env_def demo_world_def redis_live_def)
  then show ?thesis by simp
qed

text \<open>
  A fixed window, not a bucket. With a limit of two per 60 seconds, four requests pass within two
  seconds when they straddle the end of a window.
\<close>

definition burst_env :: env where
  "burst_env = demo_env\<lparr>redis_now := (\<lambda>n. if n = 0 then 0 else if n = 1 then 59 else 60)\<rparr>"

lemma rate_limit_burst:
  "fst (allowed_count burst_env ''ratelimit:ip:1.2.3.4'' 2 60 4 demo_world) = 4 \<and>
   redis_now burst_env 3 - redis_now burst_env 1 = 1"
  by code_simp

text \<open>
  Fail open. When Redis cannot be reached, every request is passed on to the handler.
\<close>

lemma rate_limiter_fails_open:
  assumes "redis_fault E (tick w) = Some f"
  shows "\<exists>w1. RateLimiter E limit next rq w = next rq w1 \<and> db w1 = db w \<and> metrics w1 = metrics w"
  using assms
  by (cases f) (auto simp: RateLimiter_def Allow_def mbind_def mwrap_def redis_call_def Let_def split: prod.splits sum.splits)

definition redis_down_env :: env where
  "redis_down_env = demo_env\<lparr>redis_fault := (\<lambda>_. Some (NotExecuted ''connection refused''))\<rparr>"

lemma rate_limiter_fails_open_witness:
  "\<exists>w1. RateLimiter redis_down_env 0 (\<lambda>rq w. (http_Error NoBody 200, w)) demo_http_request demo_world
      = (http_Error NoBody 200, w1) \<and> db w1 = demo_db \<and> metrics w1 = metrics0"
  using rate_limiter_fails_open [of redis_down_env demo_world "NotExecuted ''connection refused''" 0 "\<lambda>rq w. (http_Error NoBody 200, w)" demo_http_request]
  by (simp add: redis_down_env_def demo_world_def)

section \<open>Authentication\<close>

lemma strings_Split_ne: "strings_Split c s \<noteq> []"
  by (induction s) (auto split: list.splits)

lemma strings_Split_one: "strings_Split c s = [a] \<Longrightarrow> s = a \<and> c \<notin> set a"
proof (induction s arbitrary: a)
  case Nil
  then show ?case by simp
next
  case (Cons x s)
  then show ?case using strings_Split_ne [of c s] by (auto split: if_splits list.splits)
qed

lemma strings_Split_two: "strings_Split c s = [a, b] \<Longrightarrow> s = a @ c # b \<and> c \<notin> set a \<and> c \<notin> set b"
proof (induction s arbitrary: a)
  case Nil
  then show ?case by simp
next
  case (Cons x s)
  then show ?case using strings_Split_one [of c s b] by (auto split: if_splits list.splits)
qed

lemma strings_Split_none: "c \<notin> set b \<Longrightarrow> strings_Split c b = [b]"
  by (induction b) auto

lemma strings_Split_sep: "c \<notin> set a \<Longrightarrow> c \<notin> set b \<Longrightarrow> strings_Split c (a @ c # b) = [a, b]"
  by (induction a) (auto simp: strings_Split_none)

text \<open>
  C31: the gate. A request passes \<open>AuthMiddleware\<close> only with a header \<open>Bearer\<close> and a token that is signed
  with HMAC under the secret and whose times are valid now; the handler then sees exactly the
  claims of that token, whatever claims the request carried before. Every other request is answered with 401
  and changes nothing.
\<close>

theorem auth_gate:
  assumes "AuthMiddleware L E secret next rq w = (resp, w')"
  shows "(resp_status resp = 401 \<and> (w' = w \<or> w' = w\<lparr>tick := Suc (tick w)\<rparr>)) \<or>
    (\<exists>tok alg claims. rq_header rq ''Authorization'' = ''Bearer '' @ tok \<and> jwt_decode L tok = Some (SigningMethodHMAC alg, claims) \<and>
       jwt_verify L (SigningMethodHMAC alg) secret tok \<and> jwt_claims_valid L (time_Now E (tick w)) claims \<and>
       next (rq\<lparr>rq_claims := Some claims\<rparr>) (w\<lparr>tick := Suc (tick w)\<rparr>) = (resp, w'))"
proof (cases "\<exists>tok. strings_Split (CHR '' '') (rq_header rq ''Authorization'') = [''Bearer'', tok]")
  case False
  then have "length (strings_Split (CHR '' '') (rq_header rq ''Authorization'')) \<noteq> 2 \<or>
      strings_Split (CHR '' '') (rq_header rq ''Authorization'') ! 0 \<noteq> ''Bearer''"
    by (auto simp: length_Suc_conv numeral_2_eq_2)
  with assms show ?thesis by (auto simp: AuthMiddleware_def Let_def http_Error_def split: if_splits)
next
  case True
  then obtain tok where sp: "strings_Split (CHR '' '') (rq_header rq ''Authorization'') = [''Bearer'', tok]" ..
  from strings_Split_two [OF sp] have h: "rq_header rq ''Authorization'' = ''Bearer '' @ tok" by simp
  with assms sp have run: "(case ValidateToken L (time_Now E (tick w)) tok secret of
        Inl _ \<Rightarrow> (http_Error (TextBody ''invalid token'') 401, w\<lparr>tick := Suc (tick w)\<rparr>)
      | Inr claims \<Rightarrow> next (rq\<lparr>rq_claims := Some claims\<rparr>) (w\<lparr>tick := Suc (tick w)\<rparr>)) = (resp, w')"
    by (simp add: AuthMiddleware_def Let_def)
  show ?thesis
  proof (cases "ValidateToken L (time_Now E (tick w)) tok secret")
    case (Inl e)
    with run show ?thesis by (auto simp: http_Error_def)
  next
    case (Inr claims)
    with run h show ?thesis
      by (auto simp: ValidateToken_def split: option.splits signing_method.splits if_splits)
  qed
qed

text \<open>The demo token is accepted at a time between its limits and shows the handler the claims of \<open>alice\<close>.\<close>

theorem auth_gate_witness:
  "resp_status (fst (AuthMiddleware demo_authlib demo_env ''key'' (\<lambda>rq w. (http_Error NoBody (if rq_claims rq = Some demo_claims then 200 else 500), w))
      demo_http_request (demo_world\<lparr>tick := 7\<rparr>))) = 200"
proof -
  let ?h = "\<lambda>rq w. (http_Error NoBody (if rq_claims rq = Some demo_claims then 200 else 500), w)"
  obtain resp w' where run: "AuthMiddleware demo_authlib demo_env ''key'' ?h demo_http_request (demo_world\<lparr>tick := 7\<rparr>) = (resp, w')"
    by (meson surj_pair)
  have "resp_status (fst (AuthMiddleware demo_authlib demo_env ''key'' ?h demo_http_request (demo_world\<lparr>tick := 7\<rparr>))) \<noteq> 401"
    by code_simp
  with run have ne: "resp_status resp \<noteq> 401" by simp
  have "c = demo_claims" if "jwt_decode demo_authlib tok = Some (alg, c)" for tok alg c
    using that by (simp add: demo_authlib_def authlib_for_def split: if_splits)
  with auth_gate [OF run] ne have "resp = http_Error NoBody 200" by auto
  with run show ?thesis by (simp add: http_Error_def)
qed

text \<open>
  Roles. A request passes \<open>RequireRole\<close> only if its claims carry one of the roles; otherwise it is
  answered with 401 or 403 and changes nothing.
\<close>

lemma role_gate:
  "RequireRole roles next rq w =
     (case rq_claims rq of
        None \<Rightarrow> (\<lparr>resp_status = 401, resp_body = TextBody ''unauthorized''\<rparr>, w)
      | Some c \<Rightarrow> if c_Role c \<in> set roles then next rq w
                  else (\<lparr>resp_status = 403, resp_body = TextBody ''forbidden: insufficient permissions''\<rparr>, w))"
  by (auto simp: RequireRole_def list_ex_iff http_Error_def split: option.splits)

end
