(* ===== verification/Auth_Correctness.thy ===== *)
theory Auth_Correctness
  imports Middleware
begin

text \<open>
  Registration, login and tokens of \<open>internal/auth\<close> together with the middleware that accepts them. What
  is relied on of the bcrypt and JWT libraries are the two predicates of the first section. The
  properties: exactly what registration stores, the way from registration over login to an
  accepted request, and what a failed login tells.
\<close>

section \<open>What is relied on of the libraries\<close>

text \<open>
  Documented of golang-jwt: a token signed with HS256 is decoded to the signed claims, verifies under
  its secret, has the compact form (which has no space), and its claims are valid from \<open>nbf\<close> until \<open>exp\<close>.
\<close>

definition jwt_ok :: "authlib \<Rightarrow> bool" where
  "jwt_ok L \<longleftrightarrow>
     (\<forall>secret c tok. jwt_sign L secret c = Inr tok \<longrightarrow>
        jwt_decode L tok = Some (SigningMethodHMAC ''HS256'', c) \<and> jwt_verify L (SigningMethodHMAC ''HS256'') secret tok \<and>
        CHR '' '' \<notin> set tok) \<and>
     (\<forall>now c. jwt_claims_valid L now c \<longleftrightarrow> c_NotBefore c \<le> now \<and> now < c_ExpiresAt c)"

text \<open>Documented of bcrypt: a generated hash has 60 characters and compares with its password.\<close>

definition bcrypt_ok :: "authlib \<Rightarrow> bool" where
  "bcrypt_ok L \<longleftrightarrow> (\<forall>n pw h. bcrypt_generate L n pw = Inr h \<longrightarrow> bcrypt_compare L h pw \<and> length h \<le> 60)"

lemma authlib_for_ok: "jwt_ok (authlib_for c)" "bcrypt_ok (authlib_for c)"
  by (auto simp: jwt_ok_def bcrypt_ok_def authlib_for_def split: if_splits)

section \<open>Runs\<close>

lemma ValidateToken_signed:
  assumes "jwt_ok L" and "jwt_sign L secret c = Inr tok" and "c_NotBefore c \<le> now" and "now < c_ExpiresAt c"
  shows "ValidateToken L now tok secret = Inr c"
  using assms by (auto simp: jwt_ok_def ValidateToken_def)

lemma AuthMiddleware_signed:
  assumes "jwt_ok L" and "jwt_sign L secret c = Inr tok" and "rq_header rq ''Authorization'' = ''Bearer '' @ tok"
    and "c_NotBefore c \<le> time_Now E (tick w)" and "time_Now E (tick w) < c_ExpiresAt c"
  shows "AuthMiddleware L E secret h rq w = h (rq\<lparr>rq_claims := Some c\<rparr>) (w\<lparr>tick := Suc (tick w)\<rparr>)"
proof -
  have "CHR '' '' \<notin> set tok" using assms(1,2) by (auto simp: jwt_ok_def)
  then have "strings_Split (CHR '' '') (''Bearer'' @ CHR '' '' # tok) = [''Bearer'', tok]"
    by (intro strings_Split_sep) simp_all
  with assms(3) ValidateToken_signed [OF assms(1,2,4,5)] show ?thesis by (simp add: AuthMiddleware_def Let_def)
qed

lemma auth_Login_Inr:
  assumes "auth_Login L E secret req w = (Inr r, w')"
  shows "row_with u_Email (lr_Email req) (users (db w)) = Some (ar_User r) \<and>
    bcrypt_compare L (u_PasswordHash (ar_User r)) (lr_Password req) \<and>
    jwt_sign L secret (token_claims E (Suc (tick w)) (ar_User r) (24 * 3600)) = Inr (ar_Token r) \<and> db w' = db w"
  using assms
  by (auto simp: auth_Login_def GetUserByEmail_def GenerateToken_def run_simps split: option.splits if_splits)

text \<open>The row a registration adds.\<close>

definition user_added :: "env \<Rightarrow> RegisterRequest \<Rightarrow> User \<Rightarrow> db \<Rightarrow> db \<Rightarrow> bool" where
  "user_added E req u d d' \<longleftrightarrow>
     d' = d\<lparr>users := users d @ [u]\<rparr> \<and>
     varchar_in E 255 (rr_Email req) = Some (u_Email u) \<and>
     varchar_in E 50 (if rr_Role req = '''' then RoleUser else rr_Role req) = Some (u_Role u) \<and>
     u_Email u \<notin> u_Email ` set (users d) \<and> u_ID u \<notin> u_ID ` set (users d)"

lemma insert_user_added:
  assumes "sql_insert_user E \<lparr>u_ID = i, u_Email = rr_Email req, u_PasswordHash = h,
      u_Role = (if rr_Role req = '''' then RoleUser else rr_Role req), u_CreatedAt = c, u_UpdatedAt = c\<rparr> u t d = Inr (x, d')"
  shows "\<exists>v. user_added E req v d d' \<and> varchar_in E 255 h = Some (u_PasswordHash v) \<and> x = (u_ID v, u_CreatedAt v, u_UpdatedAt v)"
proof -
  let ?v = "\<lambda>em ph ro. \<lparr>u_ID = u, u_Email = em, u_PasswordHash = ph, u_Role = ro, u_CreatedAt = t, u_UpdatedAt = t\<rparr>"
  from assms obtain em ph ro where "varchar_in E 255 (rr_Email req) = Some em" "varchar_in E 255 h = Some ph"
    "varchar_in E 50 (if rr_Role req = '''' then RoleUser else rr_Role req) = Some ro"
    "user_added E req (?v em ph ro) d d'" "x = (u, t, t)"
    by (auto simp: sql_insert_user_def user_added_def run_simps row_simps RoleUser_def)
  then show ?thesis by (intro exI [of _ "?v em ph ro"]) simp
qed


lemma CreateUser_cases:
  assumes "CreateUser E \<lparr>u_ID = i, u_Email = rr_Email req, u_PasswordHash = h,
      u_Role = (if rr_Role req = '''' then RoleUser else rr_Role req), u_CreatedAt = c, u_UpdatedAt = c\<rparr> w = (r, w')"
  obtains (refused) "db w' = db w" "isl r"
    | (added) u where "user_added E req u (db w) (db w')" "varchar_in E 255 h = Some (u_PasswordHash u)"
       "r = Inr \<lparr>u_ID = u_ID u, u_Email = rr_Email req, u_PasswordHash = h, u_Role = (if rr_Role req = '''' then RoleUser else rr_Role req),
          u_CreatedAt = u_CreatedAt u, u_UpdatedAt = u_UpdatedAt u\<rparr> \<or> isl r"
proof -
  let ?row = "\<lparr>u_ID = i, u_Email = rr_Email req, u_PasswordHash = h,
      u_Role = (if rr_Role req = '''' then RoleUser else rr_Role req), u_CreatedAt = c, u_UpdatedAt = c\<rparr>"
  obtain q w1 where q: "sql E (sql_insert_user E ?row) w = (q, w1)" by (meson surj_pair)
  with assms have w': "w' = w1" by (cases q) (auto simp: CreateUser_def mbind_def mwrap_def mret_def)
  show ?thesis
  proof (cases q)
    case (Inl e)
    with assms q have "isl r" by (auto simp: CreateUser_def mbind_def mwrap_def)
    from sql_InlD [OF q [unfolded Inl]] insert_user_added consider "db w1 = db w" | u where "user_added E req u (db w) (db w1)"
        "varchar_in E 255 h = Some (u_PasswordHash u)" by metis
    then show ?thesis using that \<open>isl r\<close> w' by cases auto
  next
    case (Inr x)
    with q have st: "sql_insert_user E ?row (gen_random_uuid E (tick w)) (NOW E w) (db w) = Inr (x, db w1)" by (auto simp: sql_Inr_iff)
    from insert_user_added [OF st] obtain u where u: "user_added E req u (db w) (db w1)" "varchar_in E 255 h = Some (u_PasswordHash u)"
      "x = (u_ID u, u_CreatedAt u, u_UpdatedAt u)" by blast
    with assms q Inr show ?thesis
      by (intro that(2) [of u]) (auto simp: CreateUser_def mbind_def mwrap_def mret_def w')
  qed
qed

lemma auth_Register_cases:
  assumes "auth_Register L E secret req w = (r, w')"
  obtains (refused) "db w' = db w" "isl r"
    | (added) u h where "user_added E req u (db w) (db w')" "bcrypt_generate L (tick w) (rr_Password req) = Inr h"
       "varchar_in E 255 h = Some (u_PasswordHash u)"
       "\<And>x. r = Inr x \<Longrightarrow> u_ID (ar_User x) = u_ID u \<and> u_Role (ar_User x) = (if rr_Role req = '''' then RoleUser else rr_Role req) \<and>
          (\<exists>n. jwt_sign L secret (token_claims E n (ar_User x) (24 * 3600)) = Inr (ar_Token x))"
proof (cases "bcrypt_generate L (tick w) (rr_Password req)")
  case (Inl e)
  with assms that(1) show ?thesis by (auto simp: auth_Register_def Let_def)
next
  case (Inr h)
  let ?row = "\<lparr>u_ID = '''', u_Email = rr_Email req, u_PasswordHash = h,
      u_Role = (if rr_Role req = '''' then RoleUser else rr_Role req), u_CreatedAt = 0, u_UpdatedAt = 0\<rparr>"
  obtain q w1 where q: "CreateUser E ?row (w\<lparr>tick := Suc (tick w)\<rparr>) = (q, w1)" by (meson surj_pair)
  from assms Inr q have run: "(case q of Inl e \<Rightarrow> (Inl e, w1) | Inr user \<Rightarrow>
      mbind (GenerateToken L E user secret (24 * 3600)) (\<lambda>token. mret \<lparr>ar_Token = token, ar_User = user\<rparr>) w1) = (r, w')"
    by (simp add: auth_Register_def Let_def mbind_def split: sum.splits)
  have dbw: "db w' = db w1"
    using run by (auto simp: mbind_def GenerateToken_def mret_def split: sum.splits)
  from q show ?thesis
  proof (cases rule: CreateUser_cases)
    case refused
    with run dbw that(1) show ?thesis by (auto split: sum.splits)
  next
    case (added u)
    show ?thesis
    proof (rule that(2) [OF _ Inr added(2)])
      show "user_added E req u (db w) (db w')" using added(1) dbw by simp
      fix x assume "r = Inr x"
      with run added(3) show "u_ID (ar_User x) = u_ID u \<and> u_Role (ar_User x) = (if rr_Role req = '''' then RoleUser else rr_Role req) \<and>
          (\<exists>n. jwt_sign L secret (token_claims E n (ar_User x) (24 * 3600)) = Inr (ar_Token x))"
        by (auto simp: GenerateToken_def run_simps split: sum.splits)
    qed
  qed
qed


section \<open>Properties\<close>

lemma HandleRegister_effect:
  assumes "HandleRegister L E secret rq w = (resp, w')"
  shows "(db w' = db w \<and> resp_status resp \<in> {400, 409, 500}) \<or>
    (\<exists>req u h. rbind (decode_body rq) decode_RegisterRequest = Inr req \<and> rr_Email req \<noteq> '''' \<and> rr_Password req \<noteq> '''' \<and>
       user_added E req u (db w) (db w') \<and> bcrypt_generate L (tick w) (rr_Password req) = Inr h \<and>
       varchar_in E 255 h = Some (u_PasswordHash u) \<and> resp_status resp \<in> {201, 409, 500})"
proof (cases "rbind (decode_body rq) decode_RegisterRequest")
  case (Inl e)
  with assms show ?thesis by (auto simp: HandleRegister_def http_Error_def)
next
  case (Inr req)
  show ?thesis
  proof (cases "rr_Email req = '''' \<or> rr_Password req = ''''")
    case True
    with assms Inr show ?thesis by (auto simp: HandleRegister_def http_Error_def)
  next
    case False
    obtain r where run: "auth_Register L E secret req w = (r, w')"
      and resp: "resp_status resp \<in> (if isl r then {409, 500} else {201})"
      using assms Inr False
      by (auto simp: HandleRegister_def http_Error_def split: prod.splits sum.splits if_splits)
    from run show ?thesis
    proof (cases rule: auth_Register_cases)
      case refused
      with resp show ?thesis by auto
    next
      case (added u h)
      with resp Inr False show ?thesis by (auto split: if_splits)
    qed
  qed
qed

text \<open>
  Registration. Whatever happens, at most one user is added, with the requested e-mail (new in the
  table), a hash of the password and the role the client asked for, USER if it asked for none: any
  role is accepted. An answer 201 means that the user was added, and 400 that nothing changed.
\<close>

lemma register_effect:
  assumes "HandleRegister L E secret rq w = (resp, w')"
  shows "(db w' = db w \<and> resp_status resp \<in> {400, 409, 500}) \<or>
    (\<exists>req u h. rbind (decode_body rq) decode_RegisterRequest = Inr req \<and> rr_Email req \<noteq> '''' \<and> rr_Password req \<noteq> '''' \<and>
       user_added E req u (db w) (db w') \<and> bcrypt_generate L (tick w) (rr_Password req) = Inr h \<and>
       varchar_in E 255 h = Some (u_PasswordHash u) \<and> resp_status resp \<in> {201, 409, 500})"
  by (rule HandleRegister_effect [OF assms])

text \<open>A client that asks for the role SYSTEM gets it.\<close>

definition register_request :: request where
  \<open>register_request = demo_http_request\<lparr>rq_body := Some ''{"email": "c@x", "password": "secret", "role": "SYSTEM"}''\<rparr>\<close>

lemma register_effect_witness:
  "\<exists>u \<in> set (users (db (snd (HandleRegister (authlib_for demo_claims) demo_env ''key'' register_request demo_world)))). u_Role u = ''SYSTEM''"
proof -
  let ?run = "HandleRegister (authlib_for demo_claims) demo_env ''key'' register_request demo_world"
  have ne: "length (users (db (snd ?run))) \<noteq> length (users (db demo_world))" by code_simp
  have req: "rbind (decode_body register_request) decode_RegisterRequest =
      Inr \<lparr>rr_Email = ''c@x'', rr_Password = ''secret'', rr_Role = ''SYSTEM''\<rparr>" by code_simp
  have "varchar_in demo_env 50 ''SYSTEM'' = Some ''SYSTEM''" by (simp add: demo_env_def)
  with register_effect [of "authlib_for demo_claims" demo_env "''key''" register_request demo_world "fst ?run" "snd ?run"] ne req
  show ?thesis by (auto simp: user_added_def)
qed

text \<open>
  C32: from login to an accepted request. The token of a successful login belongs to the user
  with that e-mail whose stored hash matches the password, and a later request that carries it reaches the handler
  behind \<open>AuthMiddleware\<close> with the identifier and role of that user, until 24 hours after the login.
\<close>

theorem login_token_accepted:
  assumes "jwt_ok L" and "auth_Login L E secret req w = (Inr r, w')"
    and "rq_header rq ''Authorization'' = ''Bearer '' @ ar_Token r"
    and "time_Now E (tick w + 3) \<le> time_Now E (tick w1)" and "time_Now E (tick w1) < time_Now E (tick w + 1) + 86400"
  shows "\<exists>u c. row_with u_Email (lr_Email req) (users (db w)) = Some u \<and> bcrypt_compare L (u_PasswordHash u) (lr_Password req) \<and>
    c_UserID c = u_ID u \<and> c_Role c = u_Role u \<and>
    AuthMiddleware L E secret h rq w1 = h (rq\<lparr>rq_claims := Some c\<rparr>) (w1\<lparr>tick := Suc (tick w1)\<rparr>)"
proof -
  let ?c = "token_claims E (Suc (tick w)) (ar_User r) (24 * 3600)"
  note login = auth_Login_Inr [OF assms(2)]
  from login have "jwt_sign L secret ?c = Inr (ar_Token r)" by blast
  from AuthMiddleware_signed [OF assms(1) this assms(3)] assms(4,5)
  have "AuthMiddleware L E secret h rq w1 = h (rq\<lparr>rq_claims := Some ?c\<rparr>) (w1\<lparr>tick := Suc (tick w1)\<rparr>)"
    by (simp add: token_claims_def eval_nat_numeral)
  with login show ?thesis
    by (intro exI [of _ "ar_User r"] exI [of _ ?c]) (simp add: token_claims_def)
qed

definition alice_login :: LoginRequest where
  "alice_login = \<lparr>lr_Email = ''a@x'', lr_Password = ''h''\<rparr>"

theorem login_token_accepted_witness:
  "AuthMiddleware demo_authlib demo_env ''key'' (\<lambda>rq w. (http_Error NoBody (if map_option c_UserID (rq_claims rq) = Some ''alice'' then 200 else 500), w))
     demo_http_request (demo_world\<lparr>tick := 7\<rparr>) = (http_Error NoBody 200, demo_world\<lparr>tick := 8\<rparr>)"
proof -
  let ?h = "\<lambda>rq w. (http_Error NoBody (if map_option c_UserID (rq_claims rq) = Some ''alice'' then 200 else 500), w)"
  obtain r w' where run: "auth_Login demo_authlib demo_env ''key'' alice_login demo_world = (Inr r, w')" and tok: "ar_Token r = ''token.key''"
  proof -
    have "case fst (auth_Login demo_authlib demo_env ''key'' alice_login demo_world) of Inl _ \<Rightarrow> False | Inr r \<Rightarrow> ar_Token r = ''token.key''" by code_simp
    then show ?thesis using that by (auto split: sum.splits prod.splits) (metis prod.collapse)
  qed
  have "jwt_ok demo_authlib" by (simp add: demo_authlib_def authlib_for_ok)
  from login_token_accepted [OF this run, of demo_http_request "demo_world\<lparr>tick := 7\<rparr>" ?h] tok
  obtain u c where "row_with u_Email ''a@x'' (users demo_db) = Some u" "c_UserID c = u_ID u"
    "AuthMiddleware demo_authlib demo_env ''key'' ?h demo_http_request (demo_world\<lparr>tick := 7\<rparr>) =
       ?h (demo_http_request\<lparr>rq_claims := Some c\<rparr>) (demo_world\<lparr>tick := 8\<rparr>)"
    by (auto simp: demo_http_request_def demo_env_def demo_world_def alice_login_def)
  then show ?thesis by (auto simp: demo_db_def)
qed

lemma auth_Login_run:
  assumes "fault_free E" and "row_with u_Email (lr_Email req) (users (db w)) = Some u"
  shows "fst (auth_Login L E secret req w) =
    (if bcrypt_compare L (u_PasswordHash u) (lr_Password req)
     then rbind (jwt_sign L secret (token_claims E (Suc (tick w)) u (24 * 3600))) (\<lambda>tok. Inr \<lparr>ar_Token = tok, ar_User = u\<rparr>)
     else Inl ErrInvalidCredentials)"
  using assms
  by (auto simp: auth_Login_def GetUserByEmail_def mbind_def mwrap_def sql_run GenerateToken_def mret_def mfail_def rbind_def split: sum.splits)


text \<open>
  C33: registration and login agree. After a successful registration a login with the same e-mail and
  password (without faults) is not refused: it signs claims for exactly the user that was registered.
\<close>

theorem register_then_login:
  assumes "fault_free E" and "bcrypt_ok L" and "varchar_exact E" and "length (rr_Email req) \<le> 255"
    and "auth_Register L E secret req w = (Inr x, w1)" and "db w2 = db w1"
  shows "\<exists>u. u_ID u = u_ID (ar_User x) \<and> u_Email u = rr_Email req \<and> u \<in> set (users (db w1)) \<and>
    fst (auth_Login L E secret \<lparr>lr_Email = rr_Email req, lr_Password = rr_Password req\<rparr> w2) =
      rbind (jwt_sign L secret (token_claims E (Suc (tick w2)) u 86400)) (\<lambda>tok. Inr \<lparr>ar_Token = tok, ar_User = u\<rparr>)"
  using assms(5)
proof (cases rule: auth_Register_cases)
  case refused
  then show ?thesis by simp
next
  case (added u h)
  from assms(2) added(2) have h: "bcrypt_compare L h (rr_Password req)" "length h \<le> 60" by (auto simp: bcrypt_ok_def)
  with varchar_exactD [OF assms(3) added(3)] have pw: "u_PasswordHash u = h" by simp
  have em: "u_Email u = rr_Email req"
    using varchar_exactD [OF assms(3), of 255 "rr_Email req"] added(1) assms(4) by (auto simp: user_added_def)
  with added(1) assms(6) have "row_with u_Email (rr_Email req) (users (db w2)) = Some u"
    by (auto simp: user_added_def row_with_append row_with_None_iff [THEN iffD2])
  from auth_Login_run [OF assms(1), of "\<lparr>lr_Email = rr_Email req, lr_Password = rr_Password req\<rparr>" w2 u L secret] this h pw em added(1,4)
  show ?thesis by (intro exI [of _ u]) (auto simp: user_added_def)
qed

definition carol_registration :: RegisterRequest where
  "carol_registration = \<lparr>rr_Email = ''c@x'', rr_Password = ''secret'', rr_Role = ''SYSTEM''\<rparr>"

definition carol_claims :: JWTClaims where
  "carol_claims = \<lparr>c_UserID = ''id-x'', c_Role = ''SYSTEM'', c_ExpiresAt = 86402, c_IssuedAt = 3, c_NotBefore = 4,
     c_Issuer = ''wallet-ledger'', c_Subject = ''id-x''\<rparr>"

theorem register_then_login_witness:
  "\<exists>x w1 u. auth_Register (authlib_for carol_claims) demo_env ''key'' carol_registration demo_world = (Inr x, w1) \<and>
     u_ID u = ''id-x'' \<and> u \<in> set (users (db w1)) \<and>
     fst (auth_Login (authlib_for carol_claims) demo_env ''key'' \<lparr>lr_Email = ''c@x'', lr_Password = ''secret''\<rparr> (w1\<lparr>tick := 1\<rparr>)) =
       Inr \<lparr>ar_Token = ''token.key'', ar_User = u\<rparr>"
proof -
  have "map_sum (\<lambda>_. ()) (\<lambda>x. u_ID (ar_User x)) (fst (auth_Register (authlib_for carol_claims) demo_env ''key'' carol_registration demo_world)) = Inr ''id-x''"
    "map u_Role (users (db (snd (auth_Register (authlib_for carol_claims) demo_env ''key'' carol_registration demo_world)))) = [''USER'', ''USER'', ''SYSTEM'']"
    "map u_ID (users (db (snd (auth_Register (authlib_for carol_claims) demo_env ''key'' carol_registration demo_world)))) = [''alice'', ''bob'', ''id-x'']"
    by code_simp+
  then obtain x w1 where run: "auth_Register (authlib_for carol_claims) demo_env ''key'' carol_registration demo_world = (Inr x, w1)"
    and x: "u_ID (ar_User x) = ''id-x''" and us: "map u_Role (users (db w1)) = [''USER'', ''USER'', ''SYSTEM'']" "map u_ID (users (db w1)) = [''alice'', ''bob'', ''id-x'']"
    by (cases "auth_Register (authlib_for carol_claims) demo_env ''key'' carol_registration demo_world"; cases "fst (auth_Register (authlib_for carol_claims) demo_env ''key'' carol_registration demo_world)") auto
  have "fault_free demo_env" "varchar_exact demo_env" by (simp_all add: fault_free_def varchar_exact_def demo_env_def)
  from register_then_login [OF this(1) authlib_for_ok(2) this(2) _ run, of "w1\<lparr>tick := 1\<rparr>"] x obtain u where
    u: "u_ID u = ''id-x''" "u \<in> set (users (db w1))" and login: "fst (auth_Login (authlib_for carol_claims) demo_env ''key''
        \<lparr>lr_Email = ''c@x'', lr_Password = ''secret''\<rparr> (w1\<lparr>tick := 1\<rparr>)) =
      rbind (jwt_sign (authlib_for carol_claims) ''key'' (token_claims demo_env 2 u 86400)) (\<lambda>tok. Inr \<lparr>ar_Token = tok, ar_User = u\<rparr>)"
    by (auto simp: carol_registration_def numeral_2_eq_2)
  from us u have "u_Role u = ''SYSTEM''" by auto
  with u have "token_claims demo_env 2 u 86400 = carol_claims" by (simp add: token_claims_def carol_claims_def demo_env_def)
  with login have "fst (auth_Login (authlib_for carol_claims) demo_env ''key''
        \<lparr>lr_Email = ''c@x'', lr_Password = ''secret''\<rparr> (w1\<lparr>tick := 1\<rparr>)) = Inr \<lparr>ar_Token = ''token.key'', ar_User = u\<rparr>"
    by (simp add: authlib_for_def)
  with run u show ?thesis by blast
qed

text \<open>
  C34: no enumeration of users. Without faults the answer to a login with an unknown e-mail is the same
  as the answer with a known e-mail and a wrong password: 401 with the same text. Neither changes the database.
\<close>

theorem login_no_enumeration:
  assumes "fault_free E" and "rbind (decode_body rq) decode_LoginRequest = Inr req" and "lr_Email req \<noteq> ''''" and "lr_Password req \<noteq> ''''"
    and "case row_with u_Email (lr_Email req) (users (db w)) of None \<Rightarrow> True | Some u \<Rightarrow> \<not> bcrypt_compare L (u_PasswordHash u) (lr_Password req)"
  shows "HandleLogin L E secret rq w = (\<lparr>resp_status = 401, resp_body = ErrorBody ErrInvalidCredentials\<rparr>, w\<lparr>tick := Suc (tick w)\<rparr>)"
  using assms
  by (auto simp: HandleLogin_def auth_Login_def GetUserByEmail_def mbind_def mwrap_def sql_run sql_run_err mfail_def http_Error_def split: option.splits)

definition login_request :: request where
  \<open>login_request = demo_http_request\<lparr>rq_body := Some ''{"email": "a@x", "password": "wrong"}''\<rparr>\<close>

theorem login_no_enumeration_witness:
  "fst (HandleLogin demo_authlib demo_env ''key'' login_request demo_world) = \<lparr>resp_status = 401, resp_body = ErrorBody ErrInvalidCredentials\<rparr>"
proof -
  let ?req = "\<lparr>lr_Email = ''a@x'', lr_Password = ''wrong''\<rparr>"
  have "rbind (decode_body login_request) decode_LoginRequest = Inr ?req"
    "case row_with u_Email (lr_Email ?req) (users (db demo_world)) of None \<Rightarrow> True | Some u \<Rightarrow> \<not> bcrypt_compare demo_authlib (u_PasswordHash u) (lr_Password ?req)"
    by code_simp+
  moreover have "fault_free demo_env" by (simp add: fault_free_def demo_env_def)
  ultimately show ?thesis using login_no_enumeration [where E = demo_env and rq = login_request and req = ?req and w = demo_world and L = demo_authlib] by simp
qed

end
