(* ===== verification/Ledger.thy ===== *)
theory Ledger
  imports Effects
begin

text \<open>
  The double-entry ledger of \<open>internal/ledger\<close>: the transaction and entry structs, the balance check
  of \<open>CreateTransaction\<close> with its 64-bit sums, and the two inserts. The lemmas say what an accepted
  transaction appends, that its debits equal its credits modulo \<open>2^64\<close>, and exactly when the true
  sums do not overflow.
\<close>

section \<open>Model\<close>

definition DirectionDebit :: string where [const_defs]: "DirectionDebit = ''DEBIT''"
definition DirectionCredit :: string where [const_defs]: "DirectionCredit = ''CREDIT''"

definition TxTypeTransfer :: string where [const_defs]: "TxTypeTransfer = ''TRANSFER''"
definition TxTypePayment :: string where [const_defs]: "TxTypePayment = ''PAYMENT''"
definition TxTypeRefund :: string where [const_defs]: "TxTypeRefund = ''REFUND''"
definition TxTypeAdjustment :: string where [const_defs]: "TxTypeAdjustment = ''ADJUSTMENT''"
definition TxTypeReversal :: string where [const_defs]: "TxTypeReversal = ''REVERSAL''"
definition TxTypeFee :: string where [const_defs]: "TxTypeFee = ''FEE''"

definition ledger_StatusPending :: string where [const_defs]: "ledger_StatusPending = ''PENDING''"
definition ledger_StatusCompleted :: string where
  [const_defs]: "ledger_StatusCompleted = ''COMPLETED''"
definition ledger_StatusFailed :: string where [const_defs]: "ledger_StatusFailed = ''FAILED''"

record LedgerTransaction =
  lx_ID :: string
  lx_ReferenceID :: string
  lx_ReferenceType :: string
  lx_Status :: string
  lx_CreatedAt :: time
  lx_Entries :: "Entry list"

text \<open>An entry as the callers build it: identifiers and times are still Go's zero values.\<close>

definition new_entry :: "string \<Rightarrow> int64 \<Rightarrow> string \<Rightarrow> string \<Rightarrow> Entry" where
  "new_entry account amount direction currency =
     \<lparr>e_ID = '''', e_TransactionID = '''', e_AccountID = account, e_Amount = amount,
      e_Direction = direction, e_Currency = currency, e_CreatedAt = 0\<rparr>"

text \<open>The loop over the entries. The totals are \<open>int64\<close> and wrap.\<close>

fun verify_entries :: "string \<Rightarrow> Entry list \<Rightarrow> int64 \<Rightarrow> int64 \<Rightarrow> error + (int64 \<times> int64)" where
  "verify_entries currency [] totalDebits totalCredits = Inr (totalDebits, totalCredits)"
| "verify_entries currency (entry # es) totalDebits totalCredits =
     (if e_Currency entry \<noteq> currency
      then Inl (ErrorsNew ''multi-currency ledger transactions are not supported'')
      else if sint (e_Amount entry) \<le> 0 then Inl (ErrorsNew ''entry amount must be positive'')
      else if e_Direction entry = DirectionDebit
      then verify_entries currency es (totalDebits + e_Amount entry) totalCredits
      else if e_Direction entry = DirectionCredit
      then verify_entries currency es totalDebits (totalCredits + e_Amount entry)
      else Inl (ErrorsNew ''invalid entry direction''))"

text \<open>The checks before the first statement. \<open>Entries[0]\<close> exists once the length is checked.\<close>

definition verify_transaction :: "LedgerTransaction \<Rightarrow> error + unit" where
  "verify_transaction txn =
     (case lx_Entries txn of
        first # second # rest \<Rightarrow>
          (case verify_entries (e_Currency first) (lx_Entries txn) 0 0 of
             Inl e \<Rightarrow> Inl e
           | Inr (totalDebits, totalCredits) \<Rightarrow>
               (if totalDebits \<noteq> totalCredits then Inl ErrImbalancedLedger else Inr ()))
      | _ \<Rightarrow> Inl ErrEmptyEntries)"

definition sql_insert_ledger_transaction :: "env \<Rightarrow> LedgerTransaction \<Rightarrow> (string \<times> time) stmt" where
  "sql_insert_ledger_transaction E txn u t d =
     rbind (varchar E 255 (lx_ReferenceID txn)) (\<lambda>ref.
       returning (u, t)
         (insert_ledger_transactions
            \<lparr>lt_ID = u, lt_ReferenceID = ref, lt_ReferenceType = lx_ReferenceType txn,
             lt_Status = lx_Status txn, lt_CreatedAt = t\<rparr>) d)"

text \<open>
  The direction has passed the check above, so it is one of two constants that fit their column.
\<close>

definition sql_insert_ledger_entry :: "env \<Rightarrow> Entry \<Rightarrow> (string \<times> time) stmt" where
  "sql_insert_ledger_entry E e u t d =
     rbind (uuid_param E (e_TransactionID e)) (\<lambda>txid.
     rbind (uuid_param E (e_AccountID e)) (\<lambda>acct.
     rbind (varchar E 3 (e_Currency e)) (\<lambda>cur.
       returning (u, t)
         (insert_ledger_entries
            \<lparr>e_ID = u, e_TransactionID = txid, e_AccountID = acct, e_Amount = e_Amount e,
             e_Direction = e_Direction e, e_Currency = cur, e_CreatedAt = t\<rparr>) d)))"

text \<open>The batch: the queued inserts run in order and the first error is returned.\<close>

fun insert_entries :: "env \<Rightarrow> string \<Rightarrow> Entry list \<Rightarrow> Entry list M" where
  "insert_entries E txid [] = mret []"
| "insert_entries E txid (e # es) =
     mbind (sql E (sql_insert_ledger_entry E (e\<lparr>e_TransactionID := txid\<rparr>))) (\<lambda>(i, t).
     mbind (insert_entries E txid es) (\<lambda>es'.
       mret (e\<lparr>e_TransactionID := txid, e_ID := i, e_CreatedAt := t\<rparr> # es')))"

text \<open>The struct the pointer refers to after the call is the result.\<close>

definition CreateTransaction :: "env \<Rightarrow> LedgerTransaction \<Rightarrow> LedgerTransaction M" where
  "CreateTransaction E txn =
     (case verify_transaction txn of
        Inl e \<Rightarrow> mfail e
      | Inr _ \<Rightarrow>
          mbind (sql E (sql_insert_ledger_transaction E txn)) (\<lambda>(i, t).
          mbind (insert_entries E i (lx_Entries txn)) (\<lambda>es.
            mret (txn\<lparr>lx_ID := i, lx_CreatedAt := t, lx_Entries := es\<rparr>))))"

section \<open>Sums over entries\<close>

definition debits :: "Entry list \<Rightarrow> int" where
  "debits es = sum_list (map (\<lambda>e. if e_Direction e = DirectionDebit then sint (e_Amount e) else 0) es)"

definition credits :: "Entry list \<Rightarrow> int" where
  "credits es = sum_list (map (\<lambda>e. if e_Direction e = DirectionCredit then sint (e_Amount e) else 0) es)"

text \<open>What the entries add to one account: credits minus debits.\<close>

definition net_account :: "string \<Rightarrow> Entry list \<Rightarrow> int" where
  "net_account acct es =
     credits (filter (\<lambda>e. e_AccountID e = acct) es) - debits (filter (\<lambda>e. e_AccountID e = acct) es)"

definition of_transaction :: "string \<Rightarrow> Entry list \<Rightarrow> Entry list" where
  "of_transaction txid es = filter (\<lambda>e. e_TransactionID e = txid) es"

text \<open>The ledger invariant: positive amounts, known directions, every transaction balanced.\<close>

definition entry_ok :: "Entry \<Rightarrow> bool" where
  "entry_ok e \<longleftrightarrow> 0 < sint (e_Amount e) \<and> e_Direction e \<in> {DirectionDebit, DirectionCredit}"

definition ledger_balanced :: "db \<Rightarrow> bool" where
  "ledger_balanced d \<longleftrightarrow>
     (\<forall>e \<in> set (ledger_entries d). entry_ok e \<and> e_TransactionID e \<in> lt_ID ` set (ledger_transactions d)) \<and>
     (\<forall>txid. debits (of_transaction txid (ledger_entries d)) =
              credits (of_transaction txid (ledger_entries d)))"

lemma direction_distinct [simp]:
  "DirectionDebit \<noteq> DirectionCredit" "DirectionCredit \<noteq> DirectionDebit"
  by (simp_all add: const_defs)

lemma debits_simps [simp]:
  "debits [] = 0"
  "debits (e # es) = (if e_Direction e = DirectionDebit then sint (e_Amount e) else 0) + debits es"
  "debits (es @ es') = debits es + debits es'"
  by (simp_all add: debits_def)

lemma credits_simps [simp]:
  "credits [] = 0"
  "credits (e # es) = (if e_Direction e = DirectionCredit then sint (e_Amount e) else 0) + credits es"
  "credits (es @ es') = credits es + credits es'"
  by (simp_all add: credits_def)

lemma net_account_append [simp]:
  "net_account acct (es @ es') = net_account acct es + net_account acct es'"
  by (simp add: net_account_def)

lemma net_account_Nil [simp]: "net_account acct [] = 0"
  by (simp add: net_account_def)

lemma net_account_Cons:
  "net_account acct (e # es) =
     (if e_AccountID e = acct
      then (if e_Direction e = DirectionCredit then sint (e_Amount e) else 0) -
           (if e_Direction e = DirectionDebit then sint (e_Amount e) else 0)
      else 0) + net_account acct es"
  by (simp add: net_account_def)

section \<open>The balance check\<close>

lemma verify_entries_Inr:
  assumes "verify_entries cur es td tc = Inr (td', tc')"
  shows "list_all (\<lambda>e. entry_ok e \<and> e_Currency e = cur) es \<and>
    td' = td + word_of_int (debits es) \<and> tc' = tc + word_of_int (credits es)"
  using assms
proof (induction cur es td tc rule: verify_entries.induct)
  case (1 currency td tc)
  then show ?case by simp
next
  case (2 currency entry es td tc)
  then show ?case
    by (auto simp: entry_ok_def algebra_simps split: if_splits)
qed

lemma verify_entries_complete:
  assumes "list_all (\<lambda>e. entry_ok e \<and> e_Currency e = cur) es"
  shows "verify_entries cur es td tc =
    Inr (td + word_of_int (debits es), tc + word_of_int (credits es))"
  using assms
  by (induction es arbitrary: td tc) (auto simp: entry_ok_def algebra_simps)

text \<open>The entries a transaction must have to be accepted, in exact integer arithmetic.\<close>

definition acceptable :: "LedgerTransaction \<Rightarrow> bool" where
  "acceptable txn \<longleftrightarrow>
     2 \<le> length (lx_Entries txn) \<and>
     list_all (\<lambda>e. entry_ok e \<and> e_Currency e = e_Currency (hd (lx_Entries txn))) (lx_Entries txn) \<and>
     (debits (lx_Entries txn) - credits (lx_Entries txn)) mod 2 ^ 64 = 0"

lemma word64_of_int_eq_iff:
  "(word_of_int a :: int64) = word_of_int b \<longleftrightarrow> (a - b) mod 2 ^ 64 = 0"
  by (simp add: word_of_int_eq_iff take_bit_eq_mod mod_eq_dvd_iff dvd_eq_mod_eq_0)

lemma verify_transaction_alt:
  "verify_transaction txn =
     (if length (lx_Entries txn) < 2 then Inl ErrEmptyEntries
      else case verify_entries (e_Currency (hd (lx_Entries txn))) (lx_Entries txn) 0 0 of
             Inl e \<Rightarrow> Inl e
           | Inr (totalDebits, totalCredits) \<Rightarrow>
               (if totalDebits \<noteq> totalCredits then Inl ErrImbalancedLedger else Inr ()))"
  unfolding verify_transaction_def by (cases "lx_Entries txn") (simp_all split: list.split)

lemma verify_transaction_iff: "verify_transaction txn = Inr () \<longleftrightarrow> acceptable txn"
proof (cases "list_all (\<lambda>e. entry_ok e \<and> e_Currency e = e_Currency (hd (lx_Entries txn)))
    (lx_Entries txn)")
  case True
  then show ?thesis
    using verify_entries_complete [OF True, of 0 0]
    by (simp add: verify_transaction_alt acceptable_def word64_of_int_eq_iff)
next
  case False
  then show ?thesis
    using verify_entries_Inr [of "e_Currency (hd (lx_Entries txn))" "lx_Entries txn" 0 0]
    by (auto simp: verify_transaction_alt acceptable_def split: sum.splits)
qed

text \<open>Below \<open>2^64\<close> the wrapped sums decide the true equation.\<close>

lemma acceptable_exact:
  assumes "acceptable txn" and "debits (lx_Entries txn) < 2 ^ 64" and "credits (lx_Entries txn) < 2 ^ 64"
  shows "debits (lx_Entries txn) = credits (lx_Entries txn)"
proof -
  have pos: "list_all entry_ok es \<Longrightarrow> 0 \<le> debits es \<and> 0 \<le> credits es" for es
    by (induction es) (auto simp: entry_ok_def)
  from assms(1) have "list_all entry_ok (lx_Entries txn)"
    by (auto simp: acceptable_def list_all_iff)
  from pos [OF this] assms(2,3) have "\<bar>debits (lx_Entries txn) - credits (lx_Entries txn)\<bar> < 2 ^ 64"
    by auto
  moreover from assms(1) have "(2 ^ 64 :: int) dvd debits (lx_Entries txn) - credits (lx_Entries txn)"
    by (simp add: acceptable_def dvd_eq_mod_eq_0)
  ultimately show ?thesis
    using dvd_imp_le_int [of "debits (lx_Entries txn) - credits (lx_Entries txn)" "2 ^ 64"]
    by fastforce
qed

section \<open>What an accepted transaction stores\<close>

text \<open>\<open>r\<close> is the row that stores the entry \<open>e\<close> of the transaction \<open>txid\<close>.\<close>

definition stored_entry :: "env \<Rightarrow> string \<Rightarrow> Entry \<Rightarrow> Entry \<Rightarrow> bool" where
  "stored_entry E txid e r \<longleftrightarrow>
     uuid_in E txid = Some (e_TransactionID r) \<and> uuid_in E (e_AccountID e) = Some (e_AccountID r) \<and>
     e_Amount r = e_Amount e \<and> e_Direction r = e_Direction e \<and>
     varchar_in E 3 (e_Currency e) = Some (e_Currency r)"

text \<open>The whole effect of a successful call: one transaction row and the rows of its entries.\<close>

definition ledger_appended ::
  "env \<Rightarrow> LedgerTransaction \<Rightarrow> LedgerTransactionRow \<Rightarrow> Entry list \<Rightarrow> db \<Rightarrow> db \<Rightarrow> bool" where
  "ledger_appended E txn row rows d d' \<longleftrightarrow>
     d' = d\<lparr>ledger_transactions := ledger_transactions d @ [row],
            ledger_entries := ledger_entries d @ rows\<rparr> \<and>
     list_all2 (stored_entry E (lt_ID row)) (lx_Entries txn) rows \<and>
     lt_ID row \<notin> lt_ID ` set (ledger_transactions d) \<and>
     lt_ReferenceType row = lx_ReferenceType txn \<and> lt_Status row = lx_Status txn \<and>
     varchar_in E 255 (lx_ReferenceID txn) = Some (lt_ReferenceID row) \<and>
     distinct (map e_ID rows) \<and> e_ID ` set rows \<inter> e_ID ` set (ledger_entries d) = {} \<and>
     (\<forall>r \<in> set rows. e_TransactionID r \<in> lt_ID ` set (ledger_transactions d') \<and>
        e_AccountID r \<in> a_ID ` set (accounts d))"

lemma stored_entries_sums:
  assumes "list_all2 (stored_entry E txid) es rows"
  shows "debits rows = debits es \<and> credits rows = credits es"
  using assms by (induction rule: list_all2_induct) (auto simp: stored_entry_def)

lemma stored_entries_ok:
  assumes "list_all2 (stored_entry E txid) es rows" and "list_all entry_ok es"
  shows "list_all entry_ok rows"
  using assms by (induction rule: list_all2_induct) (auto simp: stored_entry_def entry_ok_def)

lemma stored_entries_one_transaction:
  assumes "list_all2 (stored_entry E txid) es rows"
  shows "of_transaction t rows = (if uuid_in E txid = Some t then rows else [])"
  using assms by (induction rule: list_all2_induct) (auto simp: stored_entry_def of_transaction_def)

lemma sql_insert_ledger_entry_Inr:
  assumes "sql E (sql_insert_ledger_entry E e) w = (Inr x, w')"
  shows "\<exists>r. stored_entry E (e_TransactionID e) e r \<and>
    w' = w\<lparr>db := (db w)\<lparr>ledger_entries := ledger_entries (db w) @ [r]\<rparr>, tick := Suc (tick w)\<rparr> \<and>
    e_TransactionID r \<in> lt_ID ` set (ledger_transactions (db w)) \<and>
    e_AccountID r \<in> a_ID ` set (accounts (db w)) \<and> e_ID r \<notin> e_ID ` set (ledger_entries (db w))"
proof -
  let ?r = "\<lambda>txid acct cur. \<lparr>e_ID = gen_random_uuid E (tick w), e_TransactionID = txid,
    e_AccountID = acct, e_Amount = e_Amount e, e_Direction = e_Direction e, e_Currency = cur,
    e_CreatedAt = NOW E w\<rparr>"
  from assms obtain txid acct cur where
    "stored_entry E (e_TransactionID e) e (?r txid acct cur)"
    "w' = w\<lparr>db := (db w)\<lparr>ledger_entries := ledger_entries (db w) @ [?r txid acct cur]\<rparr>,
       tick := Suc (tick w)\<rparr>"
    "txid \<in> lt_ID ` set (ledger_transactions (db w))" "acct \<in> a_ID ` set (accounts (db w))"
    "gen_random_uuid E (tick w) \<notin> e_ID ` set (ledger_entries (db w))"
    by (auto simp: run_simps sql_insert_ledger_entry_def row_simps stored_entry_def)
  then show ?thesis by (intro exI [of _ "?r txid acct cur"]) simp
qed

lemma insert_entries_Inr:
  assumes "insert_entries E txid es w = (Inr es', w')"
  shows "\<exists>rows. list_all2 (stored_entry E txid) es rows \<and>
    db w' = (db w)\<lparr>ledger_entries := ledger_entries (db w) @ rows\<rparr> \<and>
    metrics w' = metrics w \<and> tx_start w' = tx_start w \<and>
    distinct (map e_ID rows) \<and> e_ID ` set rows \<inter> e_ID ` set (ledger_entries (db w)) = {} \<and>
    (\<forall>r \<in> set rows. e_TransactionID r \<in> lt_ID ` set (ledger_transactions (db w)) \<and>
       e_AccountID r \<in> a_ID ` set (accounts (db w)))"
  using assms
proof (induction es arbitrary: w es' w')
  case Nil
  then show ?case by (simp add: run_simps)
next
  case (Cons e es)
  from Cons.prems obtain i t w1 es1
    where st: "sql E (sql_insert_ledger_entry E (e\<lparr>e_TransactionID := txid\<rparr>)) w = (Inr (i, t), w1)"
      and rest: "insert_entries E txid es w1 = (Inr es1, w')"
    by (auto simp: run_simps)
  from sql_insert_ledger_entry_Inr [OF st] obtain r where r: "stored_entry E txid e r"
      and w1: "w1 = w\<lparr>db := (db w)\<lparr>ledger_entries := ledger_entries (db w) @ [r]\<rparr>, tick := Suc (tick w)\<rparr>"
      and fk: "e_TransactionID r \<in> lt_ID ` set (ledger_transactions (db w))"
        "e_AccountID r \<in> a_ID ` set (accounts (db w))" "e_ID r \<notin> e_ID ` set (ledger_entries (db w))"
    by (auto simp: stored_entry_def)
  from Cons.IH [OF rest] obtain rows where "list_all2 (stored_entry E txid) es rows"
      "db w' = (db w1)\<lparr>ledger_entries := ledger_entries (db w1) @ rows\<rparr>"
      "metrics w' = metrics w1" "tx_start w' = tx_start w1"
      "distinct (map e_ID rows)" "e_ID ` set rows \<inter> e_ID ` set (ledger_entries (db w1)) = {}"
      "\<forall>r \<in> set rows. e_TransactionID r \<in> lt_ID ` set (ledger_transactions (db w1)) \<and>
         e_AccountID r \<in> a_ID ` set (accounts (db w1))"
    by blast
  then show ?case
    using r fk by (intro exI [of _ "r # rows"]) (auto simp: w1)
qed

lemma CreateTransaction_Inr:
  assumes "CreateTransaction E txn w = (Inr txn', w')"
  shows "acceptable txn \<and> (\<exists>row rows. ledger_appended E txn row rows (db w) (db w')) \<and>
    metrics w' = metrics w \<and> tx_start w' = tx_start w"
proof -
  have ok: "verify_transaction txn = Inr ()"
    using assms by (auto simp: CreateTransaction_def run_simps split: sum.splits)
  with assms obtain i t w1 es
    where st: "sql E (sql_insert_ledger_transaction E txn) w = (Inr (i, t), w1)"
      and es: "insert_entries E i (lx_Entries txn) w1 = (Inr es, w')"
    by (auto simp: CreateTransaction_def run_simps)
  let ?row = "\<lambda>ref. \<lparr>lt_ID = i, lt_ReferenceID = ref, lt_ReferenceType = lx_ReferenceType txn,
    lt_Status = lx_Status txn, lt_CreatedAt = t\<rparr>"
  from st obtain ref where row: "varchar_in E 255 (lx_ReferenceID txn) = Some ref"
      "i \<notin> lt_ID ` set (ledger_transactions (db w))"
      and w1: "w1 = w\<lparr>db := (db w)\<lparr>ledger_transactions := ledger_transactions (db w) @ [?row ref]\<rparr>,
        tick := Suc (tick w)\<rparr>"
    by (auto simp: run_simps sql_insert_ledger_transaction_def row_simps)
  from insert_entries_Inr [OF es] obtain rows where
    "ledger_appended E txn (?row ref) rows (db w) (db w')"
    "metrics w' = metrics w" "tx_start w' = tx_start w"
    using row by (auto simp: ledger_appended_def w1)
  with ok show ?thesis by (auto simp: verify_transaction_iff)
qed

lemma insert_entries_no_metrics: "no_metrics (insert_entries E txid es)"
proof (induction es)
  case Nil
  show ?case unfolding insert_entries.simps by (intro no_metrics_intros)
next
  case (Cons e es)
  show ?case unfolding insert_entries.simps by (intro no_metrics_intros Cons)
qed

lemma CreateTransaction_no_metrics: "no_metrics (CreateTransaction E txn)"
  unfolding CreateTransaction_def by (intro no_metrics_intros insert_entries_no_metrics)

text \<open>Where nothing stands against it the call succeeds, for any number of entries.\<close>

lemma insert_entries_run:
  assumes "fault_free E"
    and "inj_on (gen_random_uuid E) {tick w..<tick w + length es}"
    and "\<And>m. m \<in> {tick w..<tick w + length es} \<Longrightarrow> gen_random_uuid E m \<notin> e_ID ` set (ledger_entries (db w))"
    and "uuid_in E txid = Some txid" and "txid \<in> lt_ID ` set (ledger_transactions (db w))"
    and "\<And>e. e \<in> set es \<Longrightarrow> 0 < sint (e_Amount e) \<and> varchar_in E 3 (e_Currency e) = Some (e_Currency e) \<and>
      uuid_in E (e_AccountID e) = Some (e_AccountID e) \<and> e_AccountID e \<in> a_ID ` set (accounts (db w))"
  shows "\<exists>es' rows w'. insert_entries E txid es w = (Inr es', w') \<and>
    db w' = (db w)\<lparr>ledger_entries := ledger_entries (db w) @ rows\<rparr> \<and> tick w' = tick w + length es"
  using assms(2-)
proof (induction es arbitrary: w)
  case Nil
  show ?case by (intro exI [of _ "[]"] exI [of _ w]) (simp add: mret_def)
next
  case (Cons e es)
  obtain row i t w1 where st: "sql E (sql_insert_ledger_entry E (e\<lparr>e_TransactionID := txid\<rparr>)) w = (Inr (i, t), w1)"
    and w1: "w1 = w\<lparr>db := (db w)\<lparr>ledger_entries := ledger_entries (db w) @ [row]\<rparr>, tick := Suc (tick w)\<rparr>"
      "e_ID row = gen_random_uuid E (tick w)"
    using Cons.prems(2) [of "tick w"] Cons.prems(3-5)
    by (simp add: sql_run [OF assms(1)] sql_insert_ledger_entry_def uuid_param_def varchar_def returning_def
        insert_defs checked.simps)
  have fresh: "gen_random_uuid E m \<notin> e_ID ` set (ledger_entries (db w1))" if "m \<in> {tick w1..<tick w1 + length es}" for m
  proof -
    have "gen_random_uuid E m \<noteq> gen_random_uuid E (tick w)"
      using inj_onD [OF Cons.prems(1), of m "tick w"] that by (auto simp: w1)
    with Cons.prems(2) [of m] that show ?thesis by (auto simp: w1)
  qed
  have "inj_on (gen_random_uuid E) {tick w1..<tick w1 + length es}"
    using Cons.prems(1) by (rule inj_on_subset) (auto simp: w1)
  from Cons.IH [of w1, OF this fresh] Cons.prems(3-5) obtain es' rows w' where
    "insert_entries E txid es w1 = (Inr es', w')"
    "db w' = (db w1)\<lparr>ledger_entries := ledger_entries (db w1) @ rows\<rparr>" "tick w' = tick w1 + length es"
    by (auto simp: w1)
  then show ?case
    by (auto intro!: exI [of _ "row # rows"] simp: mbind_def st mret_def w1(1))
qed

lemma CreateTransaction_run:
  assumes "fault_free E" and "acceptable txn"
    and "inj_on (gen_random_uuid E) {tick w..tick w + length (lx_Entries txn)}"
    and "\<And>m. m \<in> {tick w..tick w + length (lx_Entries txn)} \<Longrightarrow> uuid_in E (gen_random_uuid E m) = Some (gen_random_uuid E m) \<and>
      gen_random_uuid E m \<notin> lt_ID ` set (ledger_transactions (db w)) \<and>
      gen_random_uuid E m \<notin> e_ID ` set (ledger_entries (db w))"
    and "varchar_in E 255 (lx_ReferenceID txn) = Some ref"
    and "\<And>e. e \<in> set (lx_Entries txn) \<Longrightarrow> varchar_in E 3 (e_Currency e) = Some (e_Currency e) \<and>
      uuid_in E (e_AccountID e) = Some (e_AccountID e) \<and> e_AccountID e \<in> a_ID ` set (accounts (db w))"
  shows "\<exists>txn' row rows w'. CreateTransaction E txn w = (Inr txn', w') \<and>
    db w' = (db w)\<lparr>ledger_transactions := ledger_transactions (db w) @ [row],
      ledger_entries := ledger_entries (db w) @ rows\<rparr> \<and> tick w' = Suc (tick w + length (lx_Entries txn))"
proof -
  let ?i = "gen_random_uuid E (tick w)"
  obtain t row w1 where st: "sql E (sql_insert_ledger_transaction E txn) w = (Inr (?i, t), w1)"
    and w1: "w1 = w\<lparr>db := (db w)\<lparr>ledger_transactions := ledger_transactions (db w) @ [row]\<rparr>, tick := Suc (tick w)\<rparr>"
      "lt_ID row = ?i"
    using assms(4) [of "tick w"] assms(5)
    by (simp add: sql_run [OF assms(1)] sql_insert_ledger_transaction_def varchar_def returning_def
        insert_defs checked.simps)
  have pos: "0 < sint (e_Amount e)" if "e \<in> set (lx_Entries txn)" for e
    using assms(2) that by (auto simp: acceptable_def list_all_iff entry_ok_def)
  have "inj_on (gen_random_uuid E) {tick w1..<tick w1 + length (lx_Entries txn)}"
    using assms(3) by (rule inj_on_subset) (auto simp: w1)
  then have "\<exists>es' rows w'. insert_entries E ?i (lx_Entries txn) w1 = (Inr es', w') \<and>
      db w' = (db w1)\<lparr>ledger_entries := ledger_entries (db w1) @ rows\<rparr> \<and> tick w' = tick w1 + length (lx_Entries txn)"
    using assms(4,6) pos by (intro insert_entries_run [OF assms(1)]) (auto simp: w1)
  then obtain es' rows w' where "insert_entries E ?i (lx_Entries txn) w1 = (Inr es', w')"
    "db w' = (db w1)\<lparr>ledger_entries := ledger_entries (db w1) @ rows\<rparr>" "tick w' = tick w1 + length (lx_Entries txn)" by blast
  with st assms(2) show ?thesis
    by (auto intro!: exI [of _ row] exI [of _ rows] simp: CreateTransaction_def verify_transaction_iff [THEN iffD2] mbind_def mret_def w1(1))
qed

section \<open>The ledger stays balanced\<close>

lemma debits_partition: "debits es = debits (filter P es) + debits (filter (\<lambda>e. \<not> P e) es)"
  by (induction es) auto

lemma credits_partition: "credits es = credits (filter P es) + credits (filter (\<lambda>e. \<not> P e) es)"
  by (induction es) auto

text \<open>Balanced transactions make a balanced ledger.\<close>

lemma balanced_total:
  assumes "\<And>txid. debits (of_transaction txid es) = credits (of_transaction txid es)"
  shows "debits es = credits es"
  using assms
proof (induction es rule: length_induct)
  case (1 es)
  show ?case
  proof (cases es)
    case Nil
    then show ?thesis by simp
  next
    case (Cons e rest)
    let ?t = "e_TransactionID e"
    let ?others = "filter (\<lambda>x. e_TransactionID x \<noteq> ?t) es"
    have "length ?others < length es"
      using Cons by (simp add: le_imp_less_Suc)
    moreover have "debits (of_transaction txid ?others) = credits (of_transaction txid ?others)" for txid
      using "1.prems" [of txid] by (cases "txid = ?t") (auto simp: of_transaction_def conj_commute cong: conj_cong)
    ultimately have "debits ?others = credits ?others"
      using "1.IH" by blast
    with "1.prems" [of ?t] show ?thesis
      using debits_partition [of es "\<lambda>x. e_TransactionID x = ?t"]
        credits_partition [of es "\<lambda>x. e_TransactionID x = ?t"]
      by (simp add: of_transaction_def)
  qed
qed

lemma ledger_balanced_total: "ledger_balanced d \<Longrightarrow> debits (ledger_entries d) = credits (ledger_entries d)"
  by (rule balanced_total) (simp add: ledger_balanced_def)

lemma of_transaction_append [simp]:
  "of_transaction t (es @ es') = of_transaction t es @ of_transaction t es'"
  by (simp add: of_transaction_def)

lemma ledger_appended_balanced:
  assumes app: "ledger_appended E txn row rows d d'" and acc: "acceptable txn"
    and bal: "debits (lx_Entries txn) = credits (lx_Entries txn)" and inv: "ledger_balanced d"
  shows "ledger_balanced d'"
proof -
  have rows: "list_all2 (stored_entry E (lt_ID row)) (lx_Entries txn) rows"
    using app by (simp add: ledger_appended_def)
  from acc have "list_all entry_ok (lx_Entries txn)"
    by (auto simp: acceptable_def list_all_iff)
  with rows have "list_all entry_ok rows" by (rule stored_entries_ok)
  moreover have "debits (of_transaction t rows) = credits (of_transaction t rows)" for t
    using stored_entries_sums [OF rows] bal
    by (simp add: stored_entries_one_transaction [OF rows])
  ultimately show ?thesis
    using app inv by (auto simp: ledger_balanced_def ledger_appended_def list_all_iff)
qed

text \<open>Two opposite entries of one amount, as transfers and payments write them, cannot overflow.\<close>

lemma two_entries_balanced:
  assumes "lx_Entries txn = [new_entry a1 amt DirectionDebit cur, new_entry a2 amt DirectionCredit cur]"
  shows "debits (lx_Entries txn) = credits (lx_Entries txn)"
  by (simp add: assms new_entry_def)

lemma two_entries_acceptable:
  assumes "lx_Entries txn = [new_entry a1 amt DirectionDebit cur, new_entry a2 amt DirectionCredit cur]"
  shows "acceptable txn \<longleftrightarrow> 0 < sint amt"
  by (auto simp: acceptable_def assms new_entry_def entry_ok_def)

section \<open>The interface other services rely on\<close>

text \<open>
  \<open>ledger.Repository\<close>: a successful call has stored an acceptable transaction and changed nothing
  else. What transfers and payments need of it is proved from that contract alone.
\<close>

locale ledger_repository =
  fixes E :: env
    and create :: "LedgerTransaction \<Rightarrow> LedgerTransaction M"
  assumes create_Inr: "create txn w = (Inr txn', w') \<Longrightarrow>
    acceptable txn \<and> (\<exists>row rows. ledger_appended E txn row rows (db w) (db w')) \<and>
    metrics w' = metrics w \<and> tx_start w' = tx_start w"
begin

lemma create_two_entries:
  assumes run: "create txn w = (Inr txn', w')"
    and es: "lx_Entries txn = [new_entry a1 amt DirectionDebit cur, new_entry a2 amt DirectionCredit cur]"
  obtains row r1 r2 where
    "db w' = (db w)\<lparr>ledger_transactions := ledger_transactions (db w) @ [row],
       ledger_entries := ledger_entries (db w) @ [r1, r2]\<rparr>"
    "stored_entry E (lt_ID row) (new_entry a1 amt DirectionDebit cur) r1"
    "stored_entry E (lt_ID row) (new_entry a2 amt DirectionCredit cur) r2"
    "ledger_appended E txn row [r1, r2] (db w) (db w')"
    "0 < sint amt" "metrics w' = metrics w"
  using create_Inr [OF run] two_entries_acceptable [OF es]
  by (auto simp: ledger_appended_def es list_all2_Cons1 intro: that)

lemma create_two_entries_balanced:
  assumes run: "create txn w = (Inr txn', w')"
    and es: "lx_Entries txn = [new_entry a1 amt DirectionDebit cur, new_entry a2 amt DirectionCredit cur]"
    and inv: "ledger_balanced (db w)"
  shows "ledger_balanced (db w')"
  using create_Inr [OF run] two_entries_balanced [OF es] inv ledger_appended_balanced by blast

lemma create_balanced:
  assumes run: "create txn w = (Inr txn', w')"
    and small: "debits (lx_Entries txn) < 2 ^ 64" "credits (lx_Entries txn) < 2 ^ 64"
    and inv: "ledger_balanced (db w)"
  shows "ledger_balanced (db w')"
  using create_Inr [OF run] acceptable_exact [OF _ small] inv ledger_appended_balanced by blast

end

interpretation ledgerRepo: ledger_repository E "CreateTransaction E" for E
  by unfold_locales (rule CreateTransaction_Inr)


section \<open>The balance check against exact arithmetic\<close>

text \<open>
  C36: the check is the specification while the sums are below \<open>2^64\<close>. A transaction passes the checks before the
  first statement exactly when it has at least two entries, all of one currency with positive amounts
  and known directions, and its debits equal its credits.
\<close>

theorem ledger_verify_exact:
  assumes "debits (lx_Entries txn) < 2 ^ 64" and "credits (lx_Entries txn) < 2 ^ 64"
  shows "verify_transaction txn = Inr () \<longleftrightarrow>
    2 \<le> length (lx_Entries txn) \<and>
    (\<forall>e \<in> set (lx_Entries txn). 0 < sint (e_Amount e) \<and> e_Direction e \<in> {''DEBIT'', ''CREDIT''} \<and>
       e_Currency e = e_Currency (hd (lx_Entries txn))) \<and>
    debits (lx_Entries txn) = credits (lx_Entries txn)"
  unfolding verify_transaction_iff
  using acceptable_exact [OF _ assms]
  by (auto simp: acceptable_def list_all_iff entry_ok_def DirectionDebit_def DirectionCredit_def)

definition two_legs :: "int64 \<Rightarrow> int64 \<Rightarrow> LedgerTransaction" where
  "two_legs a b = \<lparr>lx_ID = '''', lx_ReferenceID = ''r'', lx_ReferenceType = TxTypeTransfer, lx_Status = ledger_StatusCompleted,
     lx_CreatedAt = 0, lx_Entries = [new_entry ''x'' a DirectionDebit ''USD'', new_entry ''y'' b DirectionCredit ''USD'']\<rparr>"

theorem ledger_verify_exact_witness:
  "verify_transaction (two_legs 30 30) = Inr () \<and> verify_transaction (two_legs 30 20) \<noteq> Inr ()"
proof
  have "debits (lx_Entries (two_legs 30 30)) < 2 ^ 64" "credits (lx_Entries (two_legs 30 30)) < 2 ^ 64"
    "debits (lx_Entries (two_legs 30 20)) < 2 ^ 64" "credits (lx_Entries (two_legs 30 20)) < 2 ^ 64" by code_simp+
  note exact = ledger_verify_exact [OF this(1,2)] ledger_verify_exact [OF this(3,4)]
  show "verify_transaction (two_legs 30 30) = Inr ()" unfolding exact(1) by code_simp
  show "verify_transaction (two_legs 30 20) \<noteq> Inr ()" unfolding exact(2) by code_simp
qed

text \<open>
  Above that bound it is not. The totals of the loop wrap, so that a transaction whose debits
  exceed its credits by exactly \<open>2^64\<close> passes the check.
\<close>

definition wrapping_txn :: LedgerTransaction where
  "wrapping_txn = \<lparr>lx_ID = '''', lx_ReferenceID = ''r'', lx_ReferenceType = TxTypeTransfer, lx_Status = ledger_StatusCompleted,
     lx_CreatedAt = 0, lx_Entries =
       [new_entry ''x'' 9223372036854775807 DirectionDebit ''USD'', new_entry ''x'' 9223372036854775807 DirectionDebit ''USD'',
        new_entry ''x'' 3 DirectionDebit ''USD'', new_entry ''y'' 1 DirectionCredit ''USD'']\<rparr>"

lemma ledger_check_wraps:
  "verify_transaction wrapping_txn = Inr () \<and>
   debits (lx_Entries wrapping_txn) = credits (lx_Entries wrapping_txn) + 2 ^ 64"
  by code_simp

end
