(* ===== verification/Wallets.thy ===== *)
theory Wallets
  imports Auth Ledger
begin

text \<open>
  Wallets: \<open>internal/wallets\<close> (models, repository, service; the HTTP handlers are in the theory
  \<open>Wallet_Handlers\<close>). The lemmas give the result of every repository call, the access rule of the
  service, and that a new wallet starts empty on an account of its own.
\<close>

section \<open>Model\<close>

definition wallets_StatusActive :: string where [const_defs]: "wallets_StatusActive = ''ACTIVE''"
definition wallets_StatusFrozen :: string where [const_defs]: "wallets_StatusFrozen = ''FROZEN''"
definition wallets_StatusClosed :: string where [const_defs]: "wallets_StatusClosed = ''CLOSED''"

record CreateWalletRequest =
  cw_Currency :: string

record BalanceResponse =
  br_WalletID :: string
  br_Currency :: string
  br_AvailableBalance :: int64
  br_LockedBalance :: int64
  br_LedgerBalance :: int64

text \<open>\<open>wallets.Transaction\<close>: one ledger entry joined with its transaction.\<close>

record WalletTransaction =
  wt_ID :: string
  wt_ReferenceID :: string
  wt_ReferenceType :: string
  wt_Amount :: int64
  wt_Direction :: string
  wt_Currency :: string
  wt_Status :: string
  wt_CreatedAt :: time

subsection \<open>Repository\<close>

definition sql_insert_account :: "env \<Rightarrow> string \<Rightarrow> string \<Rightarrow> string stmt" where
  "sql_insert_account E accountType currency u t d =
     rbind (varchar E 50 accountType) (\<lambda>ty.
     rbind (varchar E 3 currency) (\<lambda>cur.
       returning u (insert_accounts
         \<lparr>a_ID = u, a_Type = ty, a_Currency = cur, a_CreatedAt = t\<rparr>) d))"

definition sql_insert_wallet :: "env \<Rightarrow> string \<Rightarrow> string \<Rightarrow> string \<Rightarrow> Wallet stmt" where
  "sql_insert_wallet E ownerID accountID currency u t d =
     rbind (uuid_param E ownerID) (\<lambda>owner.
     rbind (uuid_param E accountID) (\<lambda>account.
     rbind (varchar E 3 currency) (\<lambda>cur.
       let row = \<lparr>w_ID = u, w_OwnerID = owner, w_AccountID = account, w_Currency = cur,
                  w_AvailableBalance = 0, w_LockedBalance = 0, w_Status = wallets_StatusActive,
                  w_Version = 1, w_CreatedAt = t, w_UpdatedAt = t\<rparr>
       in returning row (insert_wallets row) d)))"

definition CreateWalletAndAccount :: "env \<Rightarrow> string \<Rightarrow> string \<Rightarrow> string \<Rightarrow> Wallet M" where
  "CreateWalletAndAccount E ownerID accountType currency =
     withTx E
       (mbind (sql E (sql_insert_account E accountType currency)) (\<lambda>accountID.
          sql E (sql_insert_wallet E ownerID accountID currency)))"

definition sql_select_wallet :: "env \<Rightarrow> string \<Rightarrow> Wallet stmt" where
  "sql_select_wallet E i u t d =
     rbind (uuid_param E i) (\<lambda>k.
       case row_with w_ID k (wallets d) of None \<Rightarrow> Inl ErrNoRows | Some r \<Rightarrow> Inr (r, d))"

definition GetWalletByID :: "env \<Rightarrow> string \<Rightarrow> Wallet M" where
  "GetWalletByID E i =
     mwrap (\<lambda>e. if errors_Is e ErrNoRows then ErrWalletNotFound else e) (sql E (sql_select_wallet E i))"

text \<open>The statement reports the number of rows it changed. \<open>status\<close> is one of the constants above.\<close>

definition sql_update_wallet_status :: "env \<Rightarrow> string \<Rightarrow> string \<Rightarrow> nat stmt" where
  "sql_update_wallet_status E status i u t d =
     rbind (uuid_param E i) (\<lambda>k.
       Inr (length (filter (\<lambda>r. w_ID r = k) (wallets d)),
            d\<lparr>wallets := update_where w_ID k (\<lambda>r. r\<lparr>w_Status := status, w_UpdatedAt := t\<rparr>) (wallets d)\<rparr>))"

definition UpdateWalletStatus :: "env \<Rightarrow> string \<Rightarrow> string \<Rightarrow> unit M" where
  "UpdateWalletStatus E i status =
     mbind (sql E (sql_update_wallet_status E status i)) (\<lambda>n.
       if n = 0 then mfail ErrWalletNotFound else mret ())"

text \<open>The join, newest first, at most 100 rows.\<close>

definition wallet_transaction :: "Entry \<Rightarrow> LedgerTransactionRow \<Rightarrow> WalletTransaction" where
  "wallet_transaction e t =
     \<lparr>wt_ID = e_ID e, wt_ReferenceID = lt_ReferenceID t, wt_ReferenceType = lt_ReferenceType t,
      wt_Amount = e_Amount e, wt_Direction = e_Direction e, wt_Currency = e_Currency e,
      wt_Status = lt_Status t, wt_CreatedAt = e_CreatedAt e\<rparr>"

definition account_history :: "string \<Rightarrow> db \<Rightarrow> WalletTransaction list" where
  "account_history account d =
     take 100 (sort_key (\<lambda>x. - wt_CreatedAt x)
       [wallet_transaction e t. e \<leftarrow> ledger_entries d, e_AccountID e = account,
          t \<leftarrow> ledger_transactions d, lt_ID t = e_TransactionID e])"

definition walletRepo_GetTransactions :: "env \<Rightarrow> string \<Rightarrow> WalletTransaction list M" where
  "walletRepo_GetTransactions E accountID =
     sql E (\<lambda>u t d. rbind (uuid_param E accountID) (\<lambda>k. Inr (account_history k d, d)))"

definition GetWalletsByOwner :: "env \<Rightarrow> string \<Rightarrow> Wallet list M" where
  "GetWalletsByOwner E ownerID =
     sql E (\<lambda>u t d. rbind (uuid_param E ownerID) (\<lambda>k.
       Inr (sort_key w_CreatedAt (filter (\<lambda>r. w_OwnerID r = k) (wallets d)), d)))"

subsection \<open>Service\<close>

definition walletService_CreateWallet ::
  "env \<Rightarrow> CreateWalletRequest \<Rightarrow> string \<Rightarrow> string \<Rightarrow> Wallet M" where
  "walletService_CreateWallet E req ownerID role =
     (if cw_Currency req = '''' then mfail (ErrorsNew ''currency is required'')
      else CreateWalletAndAccount E ownerID role (cw_Currency req))"

definition walletService_GetWallet :: "env \<Rightarrow> string \<Rightarrow> string \<Rightarrow> string \<Rightarrow> Wallet M" where
  "walletService_GetWallet E i callerID role =
     mbind (GetWalletByID E i) (\<lambda>wallet.
       if w_OwnerID wallet \<noteq> callerID \<and> role \<noteq> RoleSystem \<and> role \<noteq> RoleAdmin
       then mfail ErrUnauthorizedWalletAccess
       else mret wallet)"

definition balance_of :: "Wallet \<Rightarrow> BalanceResponse" where
  "balance_of w =
     \<lparr>br_WalletID = w_ID w, br_Currency = w_Currency w, br_AvailableBalance = w_AvailableBalance w,
      br_LockedBalance = w_LockedBalance w,
      br_LedgerBalance = w_AvailableBalance w + w_LockedBalance w\<rparr>"

definition walletService_GetBalance :: "env \<Rightarrow> string \<Rightarrow> string \<Rightarrow> string \<Rightarrow> BalanceResponse M" where
  "walletService_GetBalance E i callerID role =
     mbind (walletService_GetWallet E i callerID role) (\<lambda>w. mret (balance_of w))"

definition walletService_FreezeWallet :: "env \<Rightarrow> string \<Rightarrow> unit M" where
  "walletService_FreezeWallet E i = UpdateWalletStatus E i wallets_StatusFrozen"

definition walletService_UnfreezeWallet :: "env \<Rightarrow> string \<Rightarrow> unit M" where
  "walletService_UnfreezeWallet E i = UpdateWalletStatus E i wallets_StatusActive"

definition walletService_GetTransactions ::
  "env \<Rightarrow> string \<Rightarrow> string \<Rightarrow> string \<Rightarrow> WalletTransaction list M" where
  "walletService_GetTransactions E i callerID role =
     mbind (walletService_GetWallet E i callerID role) (\<lambda>w.
       walletRepo_GetTransactions E (w_AccountID w))"

definition walletService_GetWallets :: "env \<Rightarrow> string \<Rightarrow> Wallet list M" where
  "walletService_GetWallets E callerID = GetWalletsByOwner E callerID"

section \<open>Lemmas\<close>

lemma sql_select_wallet_Inr [run_simps]:
  "sql_select_wallet E i u t d = Inr (r, d') \<longleftrightarrow>
     d' = d \<and> (\<exists>k. uuid_in E i = Some k \<and> row_with w_ID k (wallets d) = Some r)"
  by (auto simp: sql_select_wallet_def run_simps split: option.splits)

lemma GetWalletByID_Inr:
  "GetWalletByID E i w = (Inr r, w') \<longleftrightarrow>
     stmt_fault E (tick w) = None \<and> w' = w\<lparr>tick := Suc (tick w)\<rparr> \<and>
     (\<exists>k. uuid_in E i = Some k \<and> row_with w_ID k (wallets (db w)) = Some r)"
  by (auto simp: GetWalletByID_def run_simps)

lemma GetWalletByID_reads: "GetWalletByID E i w = (r, w') \<Longrightarrow> w' = w\<lparr>tick := Suc (tick w)\<rparr>"
  by (auto simp: GetWalletByID_def mwrap_def run_simps split: sum.splits prod.splits
      dest!: sql_query [of E "sql_select_wallet E i"])

text \<open>What a successful creation adds: one account and one empty, active wallet on it.\<close>

definition wallet_created ::
  "env \<Rightarrow> string \<Rightarrow> string \<Rightarrow> string \<Rightarrow> Account \<Rightarrow> Wallet \<Rightarrow> db \<Rightarrow> db \<Rightarrow> bool" where
  "wallet_created E ownerID ty cur a r d d' \<longleftrightarrow>
     d' = d\<lparr>accounts := accounts d @ [a], wallets := wallets d @ [r]\<rparr> \<and>
     a_ID a \<notin> a_ID ` set (accounts d) \<and> w_ID r \<notin> w_ID ` set (wallets d) \<and>
     uuid_in E ownerID = Some (w_OwnerID r) \<and> w_OwnerID r \<in> u_ID ` set (users d) \<and>
     uuid_in E (a_ID a) = Some (w_AccountID r) \<and>
     w_AccountID r \<in> a_ID ` set (accounts d') \<and>
     varchar_in E 3 cur = Some (w_Currency r) \<and> a_Currency a = w_Currency r \<and>
     varchar_in E 50 ty = Some (a_Type a) \<and>
     w_AvailableBalance r = 0 \<and> w_LockedBalance r = 0 \<and> w_Status r = wallets_StatusActive \<and>
     w_Version r = 1 \<and> a_ID a \<in> range (gen_random_uuid E)"

lemma create_wallet_body_Inr:
  assumes "mbind (sql E (sql_insert_account E ty cur)) (\<lambda>accountID.
      sql E (sql_insert_wallet E ownerID accountID cur)) w = (Inr r, w')"
  shows "\<exists>a. wallet_created E ownerID ty cur a r (db w) (db w') \<and> metrics w' = metrics w"
proof -
  let ?a = "\<lambda>ty' cur'. \<lparr>a_ID = gen_random_uuid E (tick w), a_Type = ty', a_Currency = cur',
    a_CreatedAt = NOW E w\<rparr>"
  from assms obtain ty' cur' where "varchar_in E 50 ty = Some ty'" "varchar_in E 3 cur = Some cur'"
    "wallet_created E ownerID ty cur (?a ty' cur') r (db w) (db w')" "metrics w' = metrics w"
    by (auto simp: run_simps row_simps sql_insert_account_def sql_insert_wallet_def Let_def
        wallet_created_def)
  then show ?thesis by (intro exI [of _ "?a ty' cur'"]) simp
qed

lemma CreateWalletAndAccount_Inr:
  assumes "CreateWalletAndAccount E ownerID ty cur w = (Inr r, w')"
  shows "\<exists>a. wallet_created E ownerID ty cur a r (db w) (db w') \<and> metrics w' = metrics w"
proof (rule withTx_post [OF assms [unfolded CreateWalletAndAccount_def]])
  fix w1
  assume "mbind (sql E (sql_insert_account E ty cur)) (\<lambda>accountID.
      sql E (sql_insert_wallet E ownerID accountID cur)) (tx_begin E w) = (Inr r, w1)"
  from create_wallet_body_Inr [OF this]
  show "\<exists>a. wallet_created E ownerID ty cur a r (db w) (db w1) \<and> metrics w1 = metrics w" by simp
qed

text \<open>
  On every path the database is unchanged or holds one new wallet and its account: never an
  account without its wallet.
\<close>

lemma CreateWalletAndAccount_atomic:
  assumes "CreateWalletAndAccount E ownerID ty cur w = (r, w')"
  shows "db w' = db w \<or> (\<exists>x a. wallet_created E ownerID ty cur a x (db w) (db w'))"
proof (rule withTx_atomic [OF assms [unfolded CreateWalletAndAccount_def]])
  fix x w1
  assume "mbind (sql E (sql_insert_account E ty cur)) (\<lambda>accountID.
      sql E (sql_insert_wallet E ownerID accountID cur)) (tx_begin E w) = (Inr x, w1)"
  from create_wallet_body_Inr [OF this]
  show "\<exists>a. wallet_created E ownerID ty cur a x (db w) (db w1)" by auto
qed

end
