(* ===== verification/Wallet_Handlers.thy ===== *)
theory Wallet_Handlers
  imports Wallets Middleware
begin

text \<open>
  The HTTP handlers of \<open>internal/wallets/handler.go\<close>. The properties say who can read a wallet, that
  the reading handlers change nothing, what a new wallet looks like, and what freezing does. The
  route table, with the role check in front of freezing, is in the theory \<open>Server\<close>.
\<close>

section \<open>Model\<close>

definition json_of_Wallet :: "env \<Rightarrow> Wallet \<Rightarrow> json" where
  "json_of_Wallet E r = JObject
     [(''id'', JString (w_ID r)), (''owner_id'', JString (w_OwnerID r)), (''account_id'', JString (w_AccountID r)),
      (''currency'', JString (w_Currency r)), (''available_balance'', JInt (sint (w_AvailableBalance r))),
      (''locked_balance'', JInt (sint (w_LockedBalance r))), (''status'', JString (w_Status r)),
      (''version'', JInt (sint (w_Version r))),
      (''created_at'', JString (time_MarshalJSON E (w_CreatedAt r))),
      (''updated_at'', JString (time_MarshalJSON E (w_UpdatedAt r)))]"

definition json_of_BalanceResponse :: "BalanceResponse \<Rightarrow> json" where
  "json_of_BalanceResponse b = JObject
     [(''wallet_id'', JString (br_WalletID b)), (''currency'', JString (br_Currency b)),
      (''available_balance'', JInt (sint (br_AvailableBalance b))),
      (''locked_balance'', JInt (sint (br_LockedBalance b))),
      (''ledger_balance'', JInt (sint (br_LedgerBalance b)))]"

definition json_of_WalletTransaction :: "env \<Rightarrow> WalletTransaction \<Rightarrow> json" where
  "json_of_WalletTransaction E t = JObject
     [(''id'', JString (wt_ID t)), (''reference_id'', JString (wt_ReferenceID t)),
      (''reference_type'', JString (wt_ReferenceType t)), (''amount'', JInt (sint (wt_Amount t))),
      (''direction'', JString (wt_Direction t)), (''currency'', JString (wt_Currency t)),
      (''status'', JString (wt_Status t)), (''created_at'', JString (time_MarshalJSON E (wt_CreatedAt t)))]"

definition decode_CreateWalletRequest :: "json \<Rightarrow> error + CreateWalletRequest" where
  "decode_CreateWalletRequest j =
     rbind (json_fields j) (\<lambda>kvs.
     rbind (string_field ''currency'' '''' kvs) (\<lambda>currency. Inr \<lparr>cw_Currency = currency\<rparr>))"

text \<open>The answer to an error of the three reading handlers.\<close>

definition wallet_error :: "error \<Rightarrow> response" where
  "wallet_error err =
     (if errors_Is err ErrWalletNotFound then http_Error (TextBody ''wallet not found'') 404
      else if errors_Is err ErrUnauthorizedWalletAccess then http_Error (TextBody ''forbidden'') 403
      else http_Error (TextBody ''internal server error'') 500)"

text \<open>The claims, then the service with the URL parameter, then the answer.\<close>

definition read_wallet :: "(string \<Rightarrow> string \<Rightarrow> string \<Rightarrow> 'a M) \<Rightarrow> ('a \<Rightarrow> json) \<Rightarrow> handler" where
  "read_wallet service enc rq w =
     (case GetClaims rq of
        None \<Rightarrow> (http_Error (TextBody ''unauthorized'') 401, w)
      | Some claims \<Rightarrow>
          (case service (rq_id rq) (c_UserID claims) (c_Role claims) w of
             (Inl err, w1) \<Rightarrow> (wallet_error err, w1)
           | (Inr x, w1) \<Rightarrow> (\<lparr>resp_status = 200, resp_body = JsonBody (enc x)\<rparr>, w1)))"

definition HandleCreateWallet :: "env \<Rightarrow> handler" where
  "HandleCreateWallet E rq w =
     (case GetClaims rq of
        None \<Rightarrow> (http_Error (TextBody ''unauthorized'') 401, w)
      | Some claims \<Rightarrow>
          (case rbind (decode_body rq) decode_CreateWalletRequest of
             Inl _ \<Rightarrow> (http_Error (TextBody ''invalid request body'') 400, w)
           | Inr req \<Rightarrow>
               (case walletService_CreateWallet E req (c_UserID claims) (c_Role claims) w of
                  (Inl err, w1) \<Rightarrow> (http_Error (ErrorBody err) 400, w1)
                | (Inr r, w1) \<Rightarrow> (\<lparr>resp_status = 201, resp_body = JsonBody (json_of_Wallet E r)\<rparr>, w1))))"

definition HandleGetWallet :: "env \<Rightarrow> handler" where
  "HandleGetWallet E = read_wallet (walletService_GetWallet E) (json_of_Wallet E)"

definition HandleGetBalance :: "env \<Rightarrow> handler" where
  "HandleGetBalance E = read_wallet (walletService_GetBalance E) json_of_BalanceResponse"

definition set_status_response :: "(error + unit) \<times> world \<Rightarrow> response \<times> world" where
  "set_status_response p =
     (case p of
        (Inl err, w1) \<Rightarrow>
          (if errors_Is err ErrWalletNotFound then (http_Error (TextBody ''wallet not found'') 404, w1)
           else (http_Error (TextBody ''internal server error'') 500, w1))
      | (Inr _, w1) \<Rightarrow> (\<lparr>resp_status = 200, resp_body = NoBody\<rparr>, w1))"

definition HandleFreezeWallet :: "env \<Rightarrow> handler" where
  "HandleFreezeWallet E rq w = set_status_response (walletService_FreezeWallet E (rq_id rq) w)"

definition HandleUnfreezeWallet :: "env \<Rightarrow> handler" where
  "HandleUnfreezeWallet E rq w = set_status_response (walletService_UnfreezeWallet E (rq_id rq) w)"

definition HandleGetTransactions :: "env \<Rightarrow> handler" where
  "HandleGetTransactions E =
     read_wallet (walletService_GetTransactions E) (\<lambda>ts. JArray (map (json_of_WalletTransaction E) ts))"

definition HandleGetWallets :: "env \<Rightarrow> handler" where
  "HandleGetWallets E rq w =
     (case GetClaims rq of
        None \<Rightarrow> (http_Error (TextBody ''unauthorized'') 401, w)
      | Some claims \<Rightarrow>
          (case walletService_GetWallets E (c_UserID claims) w of
             (Inl err, w1) \<Rightarrow> (http_Error (TextBody ''internal server error'') 500, w1)
           | (Inr ws, w1) \<Rightarrow> (\<lparr>resp_status = 200, resp_body = JsonBody (JArray (map (json_of_Wallet E) ws))\<rparr>, w1)))"

section \<open>Reading\<close>

text \<open>
  What a caller may see of the database: his own wallets, the history of their accounts, and whether the wallet his request names exists.
  Nothing else need be the same in two databases he cannot tell apart, in particular not which other wallets there are.
\<close>

definition own_wallets :: "string \<Rightarrow> db \<Rightarrow> Wallet list" where
  "own_wallets uid d = filter (\<lambda>r. w_OwnerID r = uid) (wallets d)"

definition own_history :: "env \<Rightarrow> string \<Rightarrow> db \<Rightarrow> string \<Rightarrow> WalletTransaction list" where
  "own_history E uid d a =
     (if \<exists>r \<in> set (wallets d). w_OwnerID r = uid \<and> uuid_in E (w_AccountID r) = Some a then account_history a d else [])"

definition wallet_exists :: "env \<Rightarrow> string \<Rightarrow> db \<Rightarrow> bool" where
  "wallet_exists E i d \<longleftrightarrow> (\<exists>r \<in> set (wallets d). uuid_in E i = Some (w_ID r))"

definition same_view :: "env \<Rightarrow> string \<Rightarrow> string \<Rightarrow> db \<Rightarrow> db \<Rightarrow> bool" where
  "same_view E uid i d d' \<longleftrightarrow>
     own_wallets uid d = own_wallets uid d' \<and> own_history E uid d = own_history E uid d' \<and>
     wallet_exists E i d = wallet_exists E i d'"

text \<open>The row of the wallet a request names, as far as its caller may see it.\<close>

lemma visible_row:
  fixes d d' :: db
  assumes "distinct (map w_ID (wallets d))" and "distinct (map w_ID (wallets d'))"
    and "same_view E uid i d d'" and "uuid_in E i = Some k"
  shows "map_option (\<lambda>r. if w_OwnerID r = uid then Some r else None) (row_with w_ID k (wallets d)) =
    map_option (\<lambda>r. if w_OwnerID r = uid then Some r else None) (row_with w_ID k (wallets d'))"
proof -
  have own: "row_with w_ID k (wallets e') = Some r"
    if "distinct (map w_ID (wallets e'))" "own_wallets uid e = own_wallets uid e'" "row_with w_ID k (wallets e) = Some r" "w_OwnerID r = uid"
    for e e' :: db and r
  proof -
    from that(3,4) have "r \<in> set (own_wallets uid e)" "w_ID r = k" by (auto simp: own_wallets_def dest: row_with_SomeD)
    with that(2) have "r \<in> set (wallets e')" by (auto simp: own_wallets_def)
    with row_with_distinct [OF that(1) this] \<open>w_ID r = k\<close> show ?thesis by simp
  qed
  have "row_with w_ID k (wallets e) = None \<longleftrightarrow> \<not> wallet_exists E i e" for e :: db
    using assms(4) by (auto simp: wallet_exists_def row_with_None_iff)
  with assms(3) have none: "row_with w_ID k (wallets d) = None \<longleftrightarrow> row_with w_ID k (wallets d') = None" by (simp add: same_view_def)
  from assms(3) have view: "own_wallets uid d = own_wallets uid d'" by (simp add: same_view_def)
  show ?thesis
  proof (cases "row_with w_ID k (wallets d)")
    case None
    with none show ?thesis by simp
  next
    case (Some r)
    with none obtain r' where r': "row_with w_ID k (wallets d') = Some r'" by auto
    have "w_OwnerID r = uid \<or> w_OwnerID r' = uid \<Longrightarrow> r' = r"
      using own [OF assms(2) view Some] own [OF assms(1) view [symmetric] r'] Some r' by auto
    then have "(if w_OwnerID r = uid then Some r else None) = (if w_OwnerID r' = uid then Some r' else None)" by metis
    with Some r' show ?thesis by simp
  qed
qed

lemma own_history_own:
  "r \<in> set (wallets d) \<Longrightarrow> w_OwnerID r = uid \<Longrightarrow> uuid_in E (w_AccountID r) = Some a \<Longrightarrow> own_history E uid d a = account_history a d"
  by (auto simp: own_history_def)

lemma same_viewI:
  fixes d d' :: db
  assumes "own_wallets uid d = own_wallets uid d'" and "wallet_exists E i d = wallet_exists E i d'"
    and "ledger_entries d = ledger_entries d'" and "ledger_transactions d = ledger_transactions d'"
  shows "same_view E uid i d d'"
proof -
  have "set (own_wallets uid d) = set (own_wallets uid d')" using assms(1) by simp
  then have "(\<exists>r \<in> set (wallets d). w_OwnerID r = uid \<and> uuid_in E (w_AccountID r) = Some a) \<longleftrightarrow>
      (\<exists>r \<in> set (wallets d'). w_OwnerID r = uid \<and> uuid_in E (w_AccountID r) = Some a)" for a
    by (auto simp: own_wallets_def)
  moreover have "account_history a d = account_history a d'" for a
    unfolding account_history_def assms(3,4) by (rule refl)
  ultimately have "own_history E uid d = own_history E uid d'"
    by (intro ext) (simp only: own_history_def)
  with assms(1,2) show ?thesis by (simp add: same_view_def)
qed

text \<open>The two queries, with every outcome. \<open>fault_message\<close> is the text the driver reports.\<close>

fun fault_message :: "stmt_failure \<Rightarrow> string" where
  "fault_message (NotExecuted msg) = msg"
| "fault_message (AckLost msg) = msg"

definition wallet_lookup :: "env \<Rightarrow> string \<Rightarrow> string \<Rightarrow> string \<Rightarrow> world \<Rightarrow> error + Wallet" where
  "wallet_lookup E i uid role w =
     (case stmt_fault E (tick w) of
        Some f \<Rightarrow> Inl (DriverError (fault_message f))
      | None \<Rightarrow>
          rbind (uuid_param E i) (\<lambda>k.
            case row_with w_ID k (wallets (db w)) of
              None \<Rightarrow> Inl ErrWalletNotFound
            | Some r \<Rightarrow> if w_OwnerID r \<noteq> uid \<and> role \<noteq> RoleSystem \<and> role \<noteq> RoleAdmin
                        then Inl ErrUnauthorizedWalletAccess else Inr r))"

lemma walletService_GetWallet_eq:
  "walletService_GetWallet E i uid role w = (wallet_lookup E i uid role w, w\<lparr>tick := Suc (tick w)\<rparr>)"
  by (auto simp: walletService_GetWallet_def GetWalletByID_def wallet_lookup_def sql_def sql_select_wallet_def mbind_def mwrap_def
      mfail_def mret_def Let_def uuid_param_def invalid_text_representation_def split: option.splits stmt_failure.splits)

lemma wallet_lookup_Inr:
  "wallet_lookup E i uid role w = Inr r \<Longrightarrow>
     (\<exists>k. uuid_in E i = Some k \<and> row_with w_ID k (wallets (db w)) = Some r) \<and>
     (w_OwnerID r = uid \<or> role = RoleSystem \<or> role = RoleAdmin)"
  by (auto simp: wallet_lookup_def run_simps split: option.splits if_splits)

lemma wallet_lookup_view:
  assumes "distinct (map w_ID (wallets (db w)))" and "distinct (map w_ID (wallets (db w')))"
    and "same_view E uid i (db w) (db w')" and "role \<noteq> RoleSystem" "role \<noteq> RoleAdmin" and "tick w = tick w'"
  shows "wallet_lookup E i uid role w = wallet_lookup E i uid role w'"
proof -
  note view = visible_row [OF assms(1-3)]
  have "(case row_with w_ID k (wallets (db w)) of None \<Rightarrow> Inl ErrWalletNotFound
      | Some r \<Rightarrow> if w_OwnerID r \<noteq> uid \<and> role \<noteq> RoleSystem \<and> role \<noteq> RoleAdmin then Inl ErrUnauthorizedWalletAccess else Inr r) =
    (case row_with w_ID k (wallets (db w')) of None \<Rightarrow> Inl ErrWalletNotFound
      | Some r \<Rightarrow> if w_OwnerID r \<noteq> uid \<and> role \<noteq> RoleSystem \<and> role \<noteq> RoleAdmin then Inl ErrUnauthorizedWalletAccess else Inr r)" if "uuid_in E i = Some k" for k
    using view [OF that] assms(4,5)
    by (cases "row_with w_ID k (wallets (db w))"; cases "row_with w_ID k (wallets (db w'))") (auto split: if_splits)
  then show ?thesis
    by (cases "uuid_in E i") (auto simp: wallet_lookup_def assms(6) uuid_param_def split: option.splits)
qed

lemma walletService_GetTransactions_eq:
  "walletService_GetTransactions E i uid role w =
     (case wallet_lookup E i uid role w of
        Inl e \<Rightarrow> (Inl e, w\<lparr>tick := Suc (tick w)\<rparr>)
      | Inr r \<Rightarrow>
          ((case stmt_fault E (Suc (tick w)) of
              Some f \<Rightarrow> Inl (DriverError (fault_message f))
            | None \<Rightarrow> rbind (uuid_param E (w_AccountID r)) (\<lambda>a. Inr (account_history a (db w)))),
           w\<lparr>tick := Suc (Suc (tick w))\<rparr>))"
  by (auto simp: walletService_GetTransactions_def walletService_GetWallet_eq walletRepo_GetTransactions_def sql_def mbind_def Let_def
      uuid_param_def split: option.splits stmt_failure.splits sum.splits)

lemma walletService_GetWallets_eq:
  "walletService_GetWallets E uid w =
     ((case stmt_fault E (tick w) of
         Some f \<Rightarrow> Inl (DriverError (fault_message f))
       | None \<Rightarrow> rbind (uuid_param E uid) (\<lambda>k. Inr (sort_key w_CreatedAt (filter (\<lambda>r. w_OwnerID r = k) (wallets (db w)))))),
      w\<lparr>tick := Suc (tick w)\<rparr>)"
  by (auto simp: walletService_GetWallets_def GetWalletsByOwner_def sql_def Let_def uuid_param_def split: option.splits stmt_failure.splits)

lemma walletService_GetBalance_eq:
  "walletService_GetBalance E i uid role w = (map_sum id balance_of (wallet_lookup E i uid role w), w\<lparr>tick := Suc (tick w)\<rparr>)"
  by (auto simp: walletService_GetBalance_def walletService_GetWallet_eq mbind_def mret_def split: sum.splits)

lemmas wallet_reads = walletService_GetWallet_eq walletService_GetTransactions_eq walletService_GetWallets_eq walletService_GetBalance_eq

lemma own_history_view:
  fixes w w' :: world
  assumes "distinct (map w_ID (wallets (db w)))" and "distinct (map w_ID (wallets (db w')))"
    and "same_view E uid i (db w) (db w')" and "role \<noteq> RoleSystem" "role \<noteq> RoleAdmin" and "tick w = tick w'"
    and "wallet_lookup E i uid role w = Inr r" and "uuid_in E (w_AccountID r) = Some a"
  shows "account_history a (db w) = account_history a (db w')"
proof -
  from wallet_lookup_Inr [OF assms(7)] assms(4,5) have "r \<in> set (wallets (db w))" "w_OwnerID r = uid" by (auto dest: row_with_SomeD)
  moreover from wallet_lookup_Inr [of E i uid role w' r] assms(4,5,7) wallet_lookup_view [OF assms(1-6)]
  have "r \<in> set (wallets (db w'))" by (auto dest: row_with_SomeD)
  ultimately show ?thesis using own_history_own assms(3,8) unfolding same_view_def by metis
qed

text \<open>
  C22: confidentiality. What a caller without the role SYSTEM or ADMIN is told by the four reading
  handlers depends only on his own wallets, on the ledger history of their accounts, and on one bit: whether the
  wallet that his request names exists (the answer is 403 if it is someone else's and 404 if there is none). Two databases with unique
  wallet identifiers that agree on these give the same answers, whatever other wallets, balances and entries they have.
\<close>

theorem wallet_reads_confined:
  assumes "rq_claims rq = Some c" and "c_Role c \<noteq> ''SYSTEM''" and "c_Role c \<noteq> ''ADMIN''"
    and "uuid_in E (c_UserID c) = Some (c_UserID c)" and "tick w = tick w'"
    and "distinct (map w_ID (wallets (db w)))" and "distinct (map w_ID (wallets (db w')))"
    and "same_view E (c_UserID c) (rq_id rq) (db w) (db w')"
    and "H \<in> {HandleGetWallet E, HandleGetBalance E, HandleGetTransactions E, HandleGetWallets E}"
  shows "fst (H rq w) = fst (H rq w')"
proof -
  note role = assms(2,3) [folded RoleSystem_def RoleAdmin_def]
  note look = wallet_lookup_view [OF assms(6-8) role assms(5)]
  note hist = own_history_view [OF assms(6-8) role assms(5)]
  have own: "filter (\<lambda>r. w_OwnerID r = c_UserID c) (wallets (db w)) = filter (\<lambda>r. w_OwnerID r = c_UserID c) (wallets (db w'))"
    using assms(8) by (simp add: same_view_def own_wallets_def)
  have "fst (HandleGetWallet E rq w) = fst (HandleGetWallet E rq w')" "fst (HandleGetBalance E rq w) = fst (HandleGetBalance E rq w')"
    by (simp_all add: HandleGetWallet_def HandleGetBalance_def read_wallet_def GetClaims_def assms(1) wallet_reads look split: sum.splits)
  moreover have "fst (HandleGetWallets E rq w) = fst (HandleGetWallets E rq w')"
    using own assms(4,5)
    by (simp add: HandleGetWallets_def GetClaims_def assms(1) wallet_reads uuid_param_def split: sum.splits option.splits)
  moreover have "fst (HandleGetTransactions E rq w) = fst (HandleGetTransactions E rq w')"
  proof (cases "wallet_lookup E (rq_id rq) (c_UserID c) (c_Role c) w")
    case (Inl e)
    then show ?thesis
      by (simp add: HandleGetTransactions_def read_wallet_def GetClaims_def assms(1) wallet_reads look [symmetric])
  next
    case (Inr r)
    have "rbind (uuid_param E (w_AccountID r)) (\<lambda>a. Inr (account_history a (db w))) =
        rbind (uuid_param E (w_AccountID r)) (\<lambda>a. Inr (account_history a (db w')))"
      using hist [OF Inr] by (simp add: uuid_param_def split: option.splits)
    with Inr assms(5) show ?thesis
      by (cases "stmt_fault E (Suc (tick w'))"; cases "uuid_in E (w_AccountID r)")
        (simp_all add: HandleGetTransactions_def read_wallet_def GetClaims_def assms(1) wallet_reads look [symmetric] uuid_param_def)
  qed
  ultimately show ?thesis using assms(9) by auto
qed


text \<open>Alice's answers do not depend on the balance of Bob's wallet, nor on a wallet of Carol's that only one of the databases has.\<close>

definition alice_request :: "string \<Rightarrow> request" where
  "alice_request i = demo_http_request\<lparr>rq_id := i, rq_claims := Some demo_claims\<rparr>"

definition other_db :: db where
  "other_db = demo_db\<lparr>wallets := [demo_wallet ''wallet-a'' ''alice'' ''acc-a'' 100, demo_wallet ''wallet-c'' ''carol'' ''acc-c'' 9, demo_wallet ''wallet-b'' ''bob'' ''acc-b'' 7]\<rparr>"

theorem wallet_reads_confined_witness:
  "fst (HandleGetWallet demo_env (alice_request ''wallet-b'') demo_world) =
   fst (HandleGetWallet demo_env (alice_request ''wallet-b'') (demo_world\<lparr>db := other_db\<rparr>))"
proof (rule wallet_reads_confined [of _ demo_claims demo_env])
  have "own_wallets ''alice'' demo_db = own_wallets ''alice'' other_db"
    "wallet_exists demo_env ''wallet-b'' demo_db = wallet_exists demo_env ''wallet-b'' other_db" by code_simp+
  then show "same_view demo_env (c_UserID demo_claims) (rq_id (alice_request ''wallet-b'')) (db demo_world) (db (demo_world\<lparr>db := other_db\<rparr>))"
    by (intro same_viewI) (simp_all add: demo_claims_def demo_world_def other_db_def alice_request_def)
  show "distinct (map w_ID (wallets (db demo_world)))" "distinct (map w_ID (wallets (db (demo_world\<lparr>db := other_db\<rparr>))))" by code_simp+
qed (simp_all add: alice_request_def demo_claims_def demo_env_def ascii_lower_def)

section \<open>Access, creation and freezing\<close>

lemma reads_keep_db:
  "db (snd (HandleGetWallet E rq w)) = db w" "db (snd (HandleGetBalance E rq w)) = db w"
  "db (snd (HandleGetTransactions E rq w)) = db w" "db (snd (HandleGetWallets E rq w)) = db w"
  by (simp_all add: HandleGetWallet_def HandleGetBalance_def HandleGetTransactions_def HandleGetWallets_def read_wallet_def
       GetClaims_def wallet_reads split: option.splits sum.splits prod.splits)

text \<open>
  Access. A wallet is shown (by \<open>HandleGetWallet\<close>, with status 200) only to its owner or to a caller with the role
  SYSTEM or ADMIN, and the answer is that wallet; otherwise the answer is 401, 403, 404 or 500. No
  reading handler changes the database.
\<close>

lemma wallet_read_access:
  "((\<exists>c r k. rq_claims rq = Some c \<and> uuid_in E (rq_id rq) = Some k \<and> row_with w_ID k (wallets (db w)) = Some r \<and>
       (w_OwnerID r = c_UserID c \<or> c_Role c \<in> {''SYSTEM'', ''ADMIN''}) \<and>
       fst (HandleGetWallet E rq w) = \<lparr>resp_status = 200, resp_body = JsonBody (json_of_Wallet E r)\<rparr>) \<or>
     resp_status (fst (HandleGetWallet E rq w)) \<in> {401, 403, 404, 500}) \<and>
   db (snd (HandleGetWallet E rq w)) = db w \<and> db (snd (HandleGetBalance E rq w)) = db w \<and>
   db (snd (HandleGetTransactions E rq w)) = db w \<and> db (snd (HandleGetWallets E rq w)) = db w"
proof (intro conjI reads_keep_db)
  show "(\<exists>c r k. rq_claims rq = Some c \<and> uuid_in E (rq_id rq) = Some k \<and> row_with w_ID k (wallets (db w)) = Some r \<and>
       (w_OwnerID r = c_UserID c \<or> c_Role c \<in> {''SYSTEM'', ''ADMIN''}) \<and>
       fst (HandleGetWallet E rq w) = \<lparr>resp_status = 200, resp_body = JsonBody (json_of_Wallet E r)\<rparr>) \<or>
     resp_status (fst (HandleGetWallet E rq w)) \<in> {401, 403, 404, 500}"
  proof (cases "rq_claims rq")
    case None
    then show ?thesis by (simp add: HandleGetWallet_def read_wallet_def GetClaims_def http_Error_def)
  next
    case (Some c)
    show ?thesis
    proof (cases "wallet_lookup E (rq_id rq) (c_UserID c) (c_Role c) w")
      case (Inl e)
      with Some show ?thesis
        by (simp add: HandleGetWallet_def read_wallet_def GetClaims_def wallet_reads wallet_error_def http_Error_def)
    next
      case (Inr r)
      with Some have "fst (HandleGetWallet E rq w) = \<lparr>resp_status = 200, resp_body = JsonBody (json_of_Wallet E r)\<rparr>"
        by (simp add: HandleGetWallet_def read_wallet_def GetClaims_def wallet_reads)
      with Some wallet_lookup_Inr [OF Inr] show ?thesis unfolding RoleSystem_def RoleAdmin_def by blast
    qed
  qed
qed


lemma HandleCreateWallet_effect:
  assumes "HandleCreateWallet E rq w = (resp, w')"
  shows "(db w' = db w \<and> resp_status resp \<in> {400, 401}) \<or>
    (\<exists>c r a cur. rq_claims rq = Some c \<and> cur \<noteq> '''' \<and> wallet_created E (c_UserID c) (c_Role c) cur a r (db w) (db w') \<and>
       (resp = \<lparr>resp_status = 201, resp_body = JsonBody (json_of_Wallet E r)\<rparr> \<or> resp_status resp = 400))"
proof (cases "rq_claims rq")
  case None
  with assms show ?thesis by (auto simp: HandleCreateWallet_def GetClaims_def http_Error_def)
next
  case (Some c)
  show ?thesis
  proof (cases "rbind (decode_body rq) decode_CreateWalletRequest")
    case (Inl e)
    with assms Some show ?thesis by (auto simp: HandleCreateWallet_def GetClaims_def http_Error_def)
  next
    case (Inr req)
    obtain res w1 where run: "walletService_CreateWallet E req (c_UserID c) (c_Role c) w = (res, w1)" by (meson surj_pair)
    with assms Some Inr have w': "w' = w1" and resp: "resp = (case res of Inl err \<Rightarrow> http_Error (ErrorBody err) 400
        | Inr r \<Rightarrow> \<lparr>resp_status = 201, resp_body = JsonBody (json_of_Wallet E r)\<rparr>)"
      by (auto simp: HandleCreateWallet_def GetClaims_def split: sum.splits)
    show ?thesis
    proof (cases "cw_Currency req = ''''")
      case True
      with run resp w' show ?thesis by (auto simp: walletService_CreateWallet_def mfail_def http_Error_def)
    next
      case False
      with run have cr: "CreateWalletAndAccount E (c_UserID c) (c_Role c) (cw_Currency req) w = (res, w1)"
        by (simp add: walletService_CreateWallet_def)
      show ?thesis
      proof (cases res)
        case (Inl e)
        with CreateWalletAndAccount_atomic [OF cr] resp w' Some False show ?thesis by (auto simp: http_Error_def)
      next
        case (Inr r)
        from CreateWalletAndAccount_Inr [OF cr [unfolded Inr]] obtain a where
          "wallet_created E (c_UserID c) (c_Role c) (cw_Currency req) a r (db w) (db w')" by (auto simp: w')
        with resp Inr Some False show ?thesis by auto
      qed
    qed
  qed
qed

text \<open>
  C35: creation. A wallet is created only for an authenticated caller, with the caller as owner, with
  zero balances, active, on a new account of the caller's role and the requested currency. An answer other than 201 leaves the
  database unchanged, except when the acknowledgement of the commit was lost.
\<close>

theorem wallet_creation:
  assumes "HandleCreateWallet E rq w = (resp, w')"
  shows "(db w' = db w \<and> resp_status resp \<in> {400, 401}) \<or>
    (\<exists>c r a cur. rq_claims rq = Some c \<and> cur \<noteq> '''' \<and> wallet_created E (c_UserID c) (c_Role c) cur a r (db w) (db w') \<and>
       (resp = \<lparr>resp_status = 201, resp_body = JsonBody (json_of_Wallet E r)\<rparr> \<or> resp_status resp = 400))"
  by (rule HandleCreateWallet_effect [OF assms])

definition currency_body :: string where
  \<open>currency_body = ''{"currency": "USD"}''\<close>

theorem wallet_creation_witness:
  "\<exists>a r. wallet_created demo_env ''alice'' ''USER'' ''USD'' a r demo_db (db (snd (HandleCreateWallet demo_env ((alice_request '''')\<lparr>rq_body := Some currency_body\<rparr>) demo_world)))"
proof -
  obtain resp w' where run: "HandleCreateWallet demo_env ((alice_request '''')\<lparr>rq_body := Some currency_body\<rparr>) demo_world = (resp, w')" by (meson surj_pair)
  have "resp_status (fst (HandleCreateWallet demo_env ((alice_request '''')\<lparr>rq_body := Some currency_body\<rparr>) demo_world)) = 201"
    "map w_Currency (wallets (db (snd (HandleCreateWallet demo_env ((alice_request '''')\<lparr>rq_body := Some currency_body\<rparr>) demo_world)))) = [''USD'', ''USD'', ''USD'']"
    by code_simp+
  with run have "resp_status resp = 201" "map w_Currency (wallets (db w')) = [''USD'', ''USD'', ''USD'']" by simp_all
  with wallet_creation [OF run] obtain r a cur where
    wc: "wallet_created demo_env ''alice'' ''USER'' cur a r demo_db (db w')" "map w_Currency (wallets (db w')) = [''USD'', ''USD'', ''USD'']"
    by (auto simp: alice_request_def demo_claims_def demo_world_def)
  then have "cur = ''USD''"
    by (auto simp: wallet_created_def demo_db_def demo_env_def split: if_splits)
  with wc run show ?thesis by auto
qed

lemma set_status_run:
  assumes "fault_free E" and "uuid_in E i = Some k"
  shows "UpdateWalletStatus E i s w =
    (if k \<in> w_ID ` set (wallets (db w)) then Inr () else Inl ErrWalletNotFound,
     w\<lparr>db := (db w)\<lparr>wallets := update_where w_ID k (\<lambda>r. r\<lparr>w_Status := s, w_UpdatedAt := NOW E w\<rparr>) (wallets (db w))\<rparr>, tick := Suc (tick w)\<rparr>)"
  using assms by (auto simp: UpdateWalletStatus_def mbind_def sql_run sql_update_wallet_status_def uuid_param_def mret_def mfail_def filter_empty_conv)

end
