(* ===== verification/Idempotency.thy ===== *)
theory Idempotency
  imports Effects
begin

text \<open>
  Idempotency keys: \<open>internal/idempotency/repository.go\<close>. A key is a row of \<open>idempotency_keys\<close>; the
  insert is the lock. The lemmas characterise every outcome of the two operations, and the locale
  states the contract the transfer handler relies on.
\<close>

section \<open>Model\<close>

definition idem_StatusInProgress :: string where
  [const_defs]: "idem_StatusInProgress = ''IN_PROGRESS''"
definition idem_StatusCompleted :: string where [const_defs]: "idem_StatusCompleted = ''COMPLETED''"

text \<open>\<open>idempotency.KeyRecord\<close>; a \<open>NULL\<close> payload stays \<open>nil\<close> and a \<open>NULL\<close> status stays 0.\<close>

record KeyRecord =
  kr_Key :: string
  kr_Status :: string
  kr_RequestPayload :: json
  kr_ResponsePayload :: "json option"
  kr_ResponseStatus :: int

definition sql_insert_key :: "env \<Rightarrow> string \<Rightarrow> json \<Rightarrow> unit stmt" where
  "sql_insert_key E key payload u t d =
     rbind (varchar E 255 key) (\<lambda>k.
     rbind (jsonb E payload) (\<lambda>pl.
       exec_stmt (insert_idempotency_keys
         \<lparr>ik_Key = k, ik_Status = idem_StatusInProgress, ik_RequestPayload = pl,
          ik_ResponsePayload = None, ik_ResponseStatus = None, ik_LockedAt = Some t,
          ik_CreatedAt = t\<rparr>) d))"

definition sql_select_key :: "string \<Rightarrow> KeyRow stmt" where
  "sql_select_key key u t d =
     (case row_with ik_Key key (idempotency_keys d) of None \<Rightarrow> Inl ErrNoRows | Some r \<Rightarrow> Inr (r, d))"

definition key_record :: "KeyRow \<Rightarrow> KeyRecord" where
  "key_record r =
     \<lparr>kr_Key = ik_Key r, kr_Status = ik_Status r, kr_RequestPayload = ik_RequestPayload r,
      kr_ResponsePayload = ik_ResponsePayload r,
      kr_ResponseStatus = (case ik_ResponseStatus r of None \<Rightarrow> 0 | Some s \<Rightarrow> s)\<rparr>"

definition TryAcquire :: "env \<Rightarrow> string \<Rightarrow> json \<Rightarrow> KeyRecord option M" where
  "TryAcquire E key requestPayload =
     mbind (mtry (sql E (sql_insert_key E key requestPayload))) (\<lambda>r.
       case r of
         Inr _ \<Rightarrow> mret None
       | Inl _ \<Rightarrow>
           mbind (sql E (sql_select_key key)) (\<lambda>row.
             if kr_Status (key_record row) = idem_StatusInProgress then mfail ErrKeyInProgress
             else mret (Some (key_record row))))"

definition complete_key :: "json \<Rightarrow> int \<Rightarrow> KeyRow \<Rightarrow> KeyRow" where
  "complete_key responsePayload statusCode r =
     r\<lparr>ik_Status := idem_StatusCompleted, ik_ResponsePayload := Some responsePayload,
       ik_ResponseStatus := Some statusCode\<rparr>"

definition sql_complete_key :: "env \<Rightarrow> string \<Rightarrow> json \<Rightarrow> int \<Rightarrow> unit stmt" where
  "sql_complete_key E key responsePayload statusCode u t d =
     rbind (jsonb E responsePayload) (\<lambda>pl.
       Inr ((), d\<lparr>idempotency_keys :=
         update_where ik_Key key (complete_key pl statusCode) (idempotency_keys d)\<rparr>))"

definition Complete :: "env \<Rightarrow> string \<Rightarrow> json \<Rightarrow> int \<Rightarrow> unit M" where
  "Complete E key responsePayload statusCode = sql E (sql_complete_key E key responsePayload statusCode)"

section \<open>Outcomes\<close>

text \<open>The state of the store once the key has been taken.\<close>

definition key_taken :: "env \<Rightarrow> string \<Rightarrow> json \<Rightarrow> db \<Rightarrow> db \<Rightarrow> bool" where
  "key_taken E key payload d d' \<longleftrightarrow>
     (\<exists>row. varchar_in E 255 key = Some (ik_Key row) \<and> ik_Key row \<notin> ik_Key ` set (idempotency_keys d) \<and>
        ik_Status row = idem_StatusInProgress \<and> jsonb_in E payload = Some (ik_RequestPayload row) \<and>
        d' = d\<lparr>idempotency_keys := idempotency_keys d @ [row]\<rparr>)"

lemma sql_insert_key_Inr:
  assumes "sql_insert_key E key payload u t d = Inr (x, d')"
  shows "key_taken E key payload d d'"
proof -
  let ?row = "\<lambda>k pl. \<lparr>ik_Key = k, ik_Status = idem_StatusInProgress, ik_RequestPayload = pl,
    ik_ResponsePayload = None, ik_ResponseStatus = None, ik_LockedAt = Some t, ik_CreatedAt = t\<rparr>"
  from assms obtain k pl where "varchar_in E 255 key = Some k" "jsonb_in E payload = Some pl" "k \<notin> ik_Key ` set (idempotency_keys d)"
    "d' = d\<lparr>idempotency_keys := idempotency_keys d @ [?row k pl]\<rparr>"
    by (auto simp: sql_insert_key_def run_simps row_simps)
  then show ?thesis unfolding key_taken_def by (intro exI [of _ "?row k pl"]) simp
qed

lemma sql_select_key_Inr [run_simps]:
  "sql_select_key key u t d = Inr (r, d') \<longleftrightarrow> d' = d \<and> row_with ik_Key key (idempotency_keys d) = Some r"
  by (auto simp: sql_select_key_def split: option.splits)

text \<open>Every run of \<open>TryAcquire\<close>: the insert, then at most one query.\<close>

lemma TryAcquire_cases:
  assumes "TryAcquire E key p w = (r, w')"
  obtains
    (acquired) "r = Inr None" "key_taken E key p (db w) (db w')" "metrics w' = metrics w"
  | (found) rec where "r = Inr (Some rec)" "db w' = db w \<or> key_taken E key p (db w) (db w')"
      "\<exists>row. row_with ik_Key key (idempotency_keys (db w')) = Some row \<and> rec = key_record row \<and>
         ik_Status row \<noteq> idem_StatusInProgress" "metrics w' = metrics w"
  | (failed) e where "r = Inl e" "db w' = db w \<or> key_taken E key p (db w) (db w')"
      "metrics w' = metrics w"
proof (cases "sql E (sql_insert_key E key p) w")
  case (Pair r1 w1)
  show thesis
  proof (cases r1)
    case (Inr x)
    with Pair assms have "r = Inr None" "w' = w1"
      by (simp_all add: TryAcquire_def mbind_def mtry_def mret_def)
    moreover from Pair Inr have "key_taken E key p (db w) (db w1)" "metrics w1 = metrics w"
      by (auto simp: sql_Inr_iff dest: sql_insert_key_Inr)
    ultimately show thesis using acquired by simp
  next
    case (Inl e1)
    with Pair have w1: "db w1 = db w \<or> key_taken E key p (db w) (db w1)" "metrics w1 = metrics w"
      using sql_InlD [of E "sql_insert_key E key p" w e1 w1] sql_frame [OF Pair]
      by (auto dest: sql_insert_key_Inr)
    obtain r2 w2 where q: "sql E (sql_select_key key) w1 = (r2, w2)" by fastforce
    then have w2: "w2 = w1\<lparr>tick := Suc (tick w1)\<rparr>"
      by (rule sql_query) (simp add: run_simps)
    from assms Pair Inl q have run: "(r, w') = (case r2 of Inl e \<Rightarrow> (Inl e, w2) | Inr row \<Rightarrow>
        (if kr_Status (key_record row) = idem_StatusInProgress then (Inl ErrKeyInProgress, w2)
         else (Inr (Some (key_record row)), w2)))"
      by (auto simp: TryAcquire_def mbind_def mtry_def mret_def mfail_def split: sum.splits if_splits)
    show thesis
    proof (cases r2)
      case (Inl e)
      with run w1 w2 failed show thesis by simp
    next
      case (Inr row)
      with q have "row_with ik_Key key (idempotency_keys (db w1)) = Some row"
        by (auto simp: run_simps)
      with run Inr w1 w2 found failed show thesis
        by (auto simp: key_record_def split: if_splits)
    qed
  qed
qed

end
