(* ===== verification/Transfers.thy ===== *)
theory Transfers
  imports Wallets Outbox Idempotency
begin

text \<open>
  The transfer engine: \<open>internal/transfers\<close> (models and service). \<open>ExecuteTransfer\<close> is one database
  transaction: lock both wallets in the order of their identifiers, validate, move the funds, and
  record the transfer, the two ledger entries and the outbox event. The central lemma gives the
  whole database a successful run leaves; atomicity, conservation and the refusals follow from it.
\<close>

section \<open>Model\<close>

definition transfers_StatusPending :: string where [const_defs]: "transfers_StatusPending = ''PENDING''"
definition transfers_StatusCompleted :: string where
  [const_defs]: "transfers_StatusCompleted = ''COMPLETED''"
definition transfers_StatusFailed :: string where [const_defs]: "transfers_StatusFailed = ''FAILED''"

record CreateTransferRequest =
  tr_SourceWalletID :: string
  tr_DestinationWalletID :: string
  tr_Amount :: int64
  tr_Currency :: string

text \<open>Lock order: Go compares strings byte by byte.\<close>

definition lock_order :: "CreateTransferRequest \<Rightarrow> string \<times> string" where
  "lock_order req =
     (if tr_SourceWalletID req > tr_DestinationWalletID req
      then (tr_DestinationWalletID req, tr_SourceWalletID req)
      else (tr_SourceWalletID req, tr_DestinationWalletID req))"

text \<open>\<open>SELECT ... FOR UPDATE\<close>: six columns are scanned, the other fields keep their zero values.\<close>

definition scan_locked :: "Wallet \<Rightarrow> Wallet" where
  "scan_locked r = r\<lparr>w_LockedBalance := 0, w_Version := 0, w_CreatedAt := 0, w_UpdatedAt := 0\<rparr>"

definition sql_lock_wallet :: "env \<Rightarrow> string \<Rightarrow> Wallet stmt" where
  "sql_lock_wallet E i u t d =
     rbind (uuid_param E i) (\<lambda>k.
       case row_with w_ID k (wallets d) of None \<Rightarrow> Inl ErrNoRows | Some r \<Rightarrow> Inr (scan_locked r, d))"

definition lock_wallets :: "env \<Rightarrow> CreateTransferRequest \<Rightarrow> (Wallet \<times> Wallet) M" where
  "lock_wallets E req =
     (let (firstLock, secondLock) = lock_order req in
      mbind (mwrap (ErrorfW (''failed to lock wallet '' @ firstLock)) (sql E (sql_lock_wallet E firstLock)))
        (\<lambda>firstWallet.
      mbind (mwrap (ErrorfW (''failed to lock wallet '' @ secondLock)) (sql E (sql_lock_wallet E secondLock)))
        (\<lambda>secondWallet. mret (firstWallet, secondWallet))))"

text \<open>Map the locked rows back to source and destination.\<close>

definition map_back :: "CreateTransferRequest \<Rightarrow> Wallet \<times> Wallet \<Rightarrow> Wallet \<times> Wallet" where
  "map_back req ws =
     (case ws of (firstWallet, secondWallet) \<Rightarrow>
        (if w_ID firstWallet = tr_SourceWalletID req then (firstWallet, secondWallet)
         else (secondWallet, firstWallet)))"

definition validate_transfer :: "CreateTransferRequest \<Rightarrow> Wallet \<Rightarrow> Wallet \<Rightarrow> error + unit" where
  "validate_transfer req sourceWallet destWallet =
     (if w_Status sourceWallet \<noteq> wallets_StatusActive \<or> w_Status destWallet \<noteq> wallets_StatusActive
      then Inl (ErrorsNew ''one or both wallets are not active'')
      else if w_Currency sourceWallet \<noteq> tr_Currency req \<or> w_Currency destWallet \<noteq> tr_Currency req
      then Inl ErrCurrencyMismatch
      else if sint (w_AvailableBalance sourceWallet) < sint (tr_Amount req) then Inl ErrInsufficientFunds
      else Inr ())"

definition sql_add_balance :: "env \<Rightarrow> int \<Rightarrow> string \<Rightarrow> unit stmt" where
  "sql_add_balance E delta i u t d =
     rbind (uuid_param E i) (\<lambda>k. exec_stmt (add_available_balance delta k) d)"

definition update_balances :: "env \<Rightarrow> int64 \<Rightarrow> Wallet \<Rightarrow> Wallet \<Rightarrow> unit M" where
  "update_balances E amount sourceWallet destWallet =
     mbind (sql E (sql_add_balance E (- sint amount) (w_ID sourceWallet))) (\<lambda>_.
       sql E (sql_add_balance E (sint amount) (w_ID destWallet)))"

definition new_transfer :: "CreateTransferRequest \<Rightarrow> string \<Rightarrow> Transfer" where
  "new_transfer req key =
     \<lparr>t_ID = '''', t_SourceWalletID = tr_SourceWalletID req,
      t_DestinationWalletID = tr_DestinationWalletID req, t_Amount = tr_Amount req,
      t_Currency = tr_Currency req, t_Status = transfers_StatusCompleted,
      t_IdempotencyKey = key, t_CreatedAt = 0\<rparr>"

definition sql_insert_transfer :: "env \<Rightarrow> Transfer \<Rightarrow> (string \<times> time) stmt" where
  "sql_insert_transfer E transfer u t d =
     rbind (uuid_param E (t_SourceWalletID transfer)) (\<lambda>src.
     rbind (uuid_param E (t_DestinationWalletID transfer)) (\<lambda>dst.
     rbind (varchar E 3 (t_Currency transfer)) (\<lambda>cur.
     rbind (varchar E 255 (t_IdempotencyKey transfer)) (\<lambda>key.
       returning (u, t) (insert_transfers
         \<lparr>t_ID = u, t_SourceWalletID = src, t_DestinationWalletID = dst,
          t_Amount = t_Amount transfer, t_Currency = cur, t_Status = t_Status transfer,
          t_IdempotencyKey = key, t_CreatedAt = t\<rparr>) d))))"

definition transfer_ledger_txn :: "CreateTransferRequest \<Rightarrow> string \<Rightarrow> Wallet \<Rightarrow> Wallet \<Rightarrow> LedgerTransaction" where
  "transfer_ledger_txn req transferID sourceWallet destWallet =
     \<lparr>lx_ID = '''', lx_ReferenceID = transferID, lx_ReferenceType = TxTypeTransfer,
      lx_Status = ledger_StatusCompleted, lx_CreatedAt = 0,
      lx_Entries =
        [new_entry (w_AccountID sourceWallet) (tr_Amount req) DirectionDebit (tr_Currency req),
         new_entry (w_AccountID destWallet) (tr_Amount req) DirectionCredit (tr_Currency req)]\<rparr>"

text \<open>\<open>json.Marshal\<close> of a map writes the keys in sorted order.\<close>

definition transfer_event :: "Transfer \<Rightarrow> string \<Rightarrow> json" where
  "transfer_event transfer timestamp = JObject
     [(''amount'', JInt (sint (t_Amount transfer))), (''currency'', JString (t_Currency transfer)),
      (''status'', JString (t_Status transfer)), (''timestamp'', JString timestamp),
      (''transfer_id'', JString (t_ID transfer))]"

text \<open>Steps 5 to 7: the transfer row, the ledger transaction, the outbox event.\<close>

definition record_transfer :: "env \<Rightarrow> CreateTransferRequest \<Rightarrow> string \<Rightarrow> Wallet \<Rightarrow> Wallet \<Rightarrow> Transfer M" where
  "record_transfer E req key sourceWallet destWallet =
     mbind (sql E (sql_insert_transfer E (new_transfer req key))) (\<lambda>(i, t).
     let transfer = (new_transfer req key)\<lparr>t_ID := i, t_CreatedAt := t\<rparr> in
     mbind (mwrap (ErrorfW ''failed to create ledger transaction'')
              (CreateTransaction E (transfer_ledger_txn req i sourceWallet destWallet))) (\<lambda>_.
     mbind (mclock E) (\<lambda>now.
     mbind (mwrap (ErrorfW ''failed to insert outbox event'')
              (InsertEvent E ''transfer.events'' (transfer_event transfer (format_RFC3339 E now)))) (\<lambda>_.
       mret transfer))))"

text \<open>Everything after the two locks.\<close>

definition transfer_locked :: "env \<Rightarrow> CreateTransferRequest \<Rightarrow> string \<Rightarrow> Wallet \<times> Wallet \<Rightarrow> Transfer M" where
  "transfer_locked E req key locked =
     (let (sourceWallet, destWallet) = map_back req locked in
      case validate_transfer req sourceWallet destWallet of
        Inl e \<Rightarrow> mfail e
      | Inr _ \<Rightarrow>
          mbind (update_balances E (tr_Amount req) sourceWallet destWallet) (\<lambda>_.
            record_transfer E req key sourceWallet destWallet))"

definition transfer_body :: "env \<Rightarrow> CreateTransferRequest \<Rightarrow> string \<Rightarrow> Transfer M" where
  "transfer_body E req key = mbind (lock_wallets E req) (transfer_locked E req key)"

definition transfer_run :: "env \<Rightarrow> CreateTransferRequest \<Rightarrow> string \<Rightarrow> Transfer M" where
  "transfer_run E req key =
     (if tr_SourceWalletID req = tr_DestinationWalletID req then mfail ErrSameWallet
      else if sint (tr_Amount req) \<le> 0 then mfail (ErrorsNew ''amount must be positive'')
      else withTx E (transfer_body E req key))"

text \<open>The deferred metric: failure unless the commit has succeeded.\<close>

definition ExecuteTransfer :: "env \<Rightarrow> CreateTransferRequest \<Rightarrow> string \<Rightarrow> Transfer M" where
  "ExecuteTransfer E req key w =
     (case transfer_run E req key w of
        (Inl e, w') \<Rightarrow> (Inl e, w'\<lparr>metrics := RecordTransfer False (metrics w')\<rparr>)
      | (Inr transfer, w') \<Rightarrow> (Inr transfer, w'\<lparr>metrics := RecordTransfer True (metrics w')\<rparr>))"

section \<open>The effect of a successful transfer\<close>

definition move_funds :: "Wallet \<Rightarrow> Wallet \<Rightarrow> int64 \<Rightarrow> Wallet list \<Rightarrow> Wallet list" where
  "move_funds s r amount ws =
     update_where w_ID (w_ID r) (\<lambda>x. x\<lparr>w_AvailableBalance := w_AvailableBalance r + amount\<rparr>)
       (update_where w_ID (w_ID s) (\<lambda>x. x\<lparr>w_AvailableBalance := w_AvailableBalance s - amount\<rparr>) ws)"

text \<open>
  \<open>s\<close> is the row that is debited and \<open>r\<close> the row that is credited. They are the two wallets the
  request names; that \<open>s\<close> is the one it names as its source is a separate fact below.
\<close>

definition transfer_guard :: "env \<Rightarrow> CreateTransferRequest \<Rightarrow> Wallet \<Rightarrow> Wallet \<Rightarrow> db \<Rightarrow> bool" where
  "transfer_guard E req s r d \<longleftrightarrow>
     row_with w_ID (w_ID s) (wallets d) = Some s \<and> row_with w_ID (w_ID r) (wallets d) = Some r \<and>
     w_ID s \<noteq> w_ID r \<and>
     {Some (w_ID s), Some (w_ID r)} = {uuid_in E (tr_SourceWalletID req), uuid_in E (tr_DestinationWalletID req)} \<and>
     w_Status s = wallets_StatusActive \<and> w_Status r = wallets_StatusActive \<and>
     w_Currency s = tr_Currency req \<and> w_Currency r = tr_Currency req \<and>
     0 < sint (tr_Amount req) \<and> sint (tr_Amount req) \<le> sint (w_AvailableBalance s) \<and>
     int64_range (sint (w_AvailableBalance r) + sint (tr_Amount req))"

definition transfer_rows ::
  "env \<Rightarrow> CreateTransferRequest \<Rightarrow> string \<Rightarrow> Wallet \<Rightarrow> Wallet \<Rightarrow> Transfer \<Rightarrow> Entry \<Rightarrow> Entry \<Rightarrow> Event \<Rightarrow> db \<Rightarrow> bool"
  where
  "transfer_rows E req key s r row e1 e2 ev d \<longleftrightarrow>
     uuid_in E (tr_SourceWalletID req) = Some (t_SourceWalletID row) \<and>
     uuid_in E (tr_DestinationWalletID req) = Some (t_DestinationWalletID row) \<and>
     t_Amount row = tr_Amount req \<and> t_Status row = transfers_StatusCompleted \<and>
     varchar_in E 3 (tr_Currency req) = Some (t_Currency row) \<and>
     varchar_in E 255 key = Some (t_IdempotencyKey row) \<and>
     t_IdempotencyKey row \<in> ik_Key ` set (idempotency_keys d) \<and>
     t_ID row \<notin> t_ID ` set (transfers d) \<and>
     uuid_in E (w_AccountID s) = Some (e_AccountID e1) \<and> e_Direction e1 = DirectionDebit \<and>
     uuid_in E (w_AccountID r) = Some (e_AccountID e2) \<and> e_Direction e2 = DirectionCredit \<and>
     e_Amount e1 = tr_Amount req \<and> e_Amount e2 = tr_Amount req \<and>
     e_TransactionID e1 = e_TransactionID e2 \<and>
     ev_Status ev = outbox_StatusPending \<and> varchar_in E 255 ''transfer.events'' = Some (ev_Topic ev) \<and>
     (\<exists>ts. jsonb_in E (JObject [(''amount'', JInt (sint (tr_Amount req))), (''currency'', JString (tr_Currency req)),
        (''status'', JString transfers_StatusCompleted), (''timestamp'', JString ts),
        (''transfer_id'', JString (t_ID row))]) = Some (ev_Payload ev))"

definition transfer_applied ::
  "env \<Rightarrow> CreateTransferRequest \<Rightarrow> string \<Rightarrow> Wallet \<Rightarrow> Wallet \<Rightarrow> db \<Rightarrow> db \<Rightarrow> bool" where
  "transfer_applied E req key s r d d' \<longleftrightarrow>
     transfer_guard E req s r d \<and>
     (\<exists>row lrow e1 e2 ev.
        transfer_rows E req key s r row e1 e2 ev d \<and>
        lt_ID lrow \<notin> lt_ID ` set (ledger_transactions d) \<and>
        lt_ReferenceType lrow = TxTypeTransfer \<and> lt_Status lrow = ledger_StatusCompleted \<and>
        varchar_in E 255 (t_ID row) = Some (lt_ReferenceID lrow) \<and>
        d' = d\<lparr>wallets := move_funds s r (tr_Amount req) (wallets d),
               transfers := transfers d @ [row],
               ledger_transactions := ledger_transactions d @ [lrow],
               ledger_entries := ledger_entries d @ [e1, e2],
               outbox_events := outbox_events d @ [ev]\<rparr> \<and>
        e_AccountID e1 \<in> a_ID ` set (accounts d) \<and> e_AccountID e2 \<in> a_ID ` set (accounts d) \<and>
        e_TransactionID e1 \<in> lt_ID ` set (ledger_transactions d') \<and>
        e_ID e1 \<noteq> e_ID e2 \<and> e_ID e1 \<notin> e_ID ` set (ledger_entries d) \<and>
        e_ID e2 \<notin> e_ID ` set (ledger_entries d) \<and> ev_ID ev \<notin> ev_ID ` set (outbox_events d))"

lemma scan_locked_sel [simp]:
  "w_ID (scan_locked r) = w_ID r" "w_AccountID (scan_locked r) = w_AccountID r"
  "w_Currency (scan_locked r) = w_Currency r" "w_Status (scan_locked r) = w_Status r"
  "w_AvailableBalance (scan_locked r) = w_AvailableBalance r" "w_OwnerID (scan_locked r) = w_OwnerID r"
  by (simp_all add: scan_locked_def)

lemma sql_lock_wallet_Inr [run_simps]:
  "sql_lock_wallet E i u t d = Inr (x, d') \<longleftrightarrow>
     d' = d \<and> (\<exists>k r. uuid_in E i = Some k \<and> row_with w_ID k (wallets d) = Some r \<and> x = scan_locked r)"
  by (auto simp: sql_lock_wallet_def run_simps split: option.splits)

lemma lock_wallets_Inr:
  assumes "lock_wallets E req w = (Inr (x, y), w')"
  shows "\<exists>r1 r2. x = scan_locked r1 \<and> y = scan_locked r2 \<and>
    uuid_in E (fst (lock_order req)) = Some (w_ID r1) \<and> uuid_in E (snd (lock_order req)) = Some (w_ID r2) \<and>
    row_with w_ID (w_ID r1) (wallets (db w)) = Some r1 \<and> row_with w_ID (w_ID r2) (wallets (db w)) = Some r2 \<and>
    w' = w\<lparr>tick := Suc (Suc (tick w))\<rparr>"
  using assms
  by (auto simp: lock_wallets_def run_simps split: prod.splits dest: row_with_SomeD)

lemma update_balances_Inr:
  assumes run: "update_balances E amount s r w = (Inr x, w')"
    and ids: "uuid_in E (w_ID s) = Some (w_ID s)" "uuid_in E (w_ID r) = Some (w_ID r)" "w_ID s \<noteq> w_ID r"
    and rows: "row_with w_ID (w_ID s) (wallets (db w)) = Some s'" "w_AvailableBalance s = w_AvailableBalance s'"
      "row_with w_ID (w_ID r) (wallets (db w)) = Some r'" "w_AvailableBalance r = w_AvailableBalance r'"
  shows "w' = w\<lparr>db := (db w)\<lparr>wallets := move_funds s r amount (wallets (db w))\<rparr>, tick := Suc (Suc (tick w))\<rparr> \<and>
    int64_range (sint (w_AvailableBalance r) + sint amount)"
  using assms
  by (auto simp: update_balances_def sql_add_balance_def run_simps row_simps move_funds_def
      row_with_update_where)

lemma sql_insert_transfer_Inr:
  assumes "sql E (sql_insert_transfer E (new_transfer req key)) w = (Inr (i, t), w')"
  shows "\<exists>row. t_ID row = i \<and> uuid_in E (tr_SourceWalletID req) = Some (t_SourceWalletID row) \<and>
    uuid_in E (tr_DestinationWalletID req) = Some (t_DestinationWalletID row) \<and>
    t_SourceWalletID row \<noteq> t_DestinationWalletID row \<and>
    t_Amount row = tr_Amount req \<and> t_Status row = transfers_StatusCompleted \<and>
    varchar_in E 3 (tr_Currency req) = Some (t_Currency row) \<and>
    varchar_in E 255 key = Some (t_IdempotencyKey row) \<and>
    t_IdempotencyKey row \<in> ik_Key ` set (idempotency_keys (db w)) \<and>
    i \<notin> t_ID ` set (transfers (db w)) \<and>
    w' = w\<lparr>db := (db w)\<lparr>transfers := transfers (db w) @ [row]\<rparr>, tick := Suc (tick w)\<rparr>"
proof -
  let ?row = "\<lambda>src dst cur k. \<lparr>t_ID = i, t_SourceWalletID = src, t_DestinationWalletID = dst,
    t_Amount = tr_Amount req, t_Currency = cur, t_Status = transfers_StatusCompleted,
    t_IdempotencyKey = k, t_CreatedAt = t\<rparr>"
  from assms obtain src dst cur k where
    "uuid_in E (tr_SourceWalletID req) = Some src" "uuid_in E (tr_DestinationWalletID req) = Some dst"
    "src \<noteq> dst" "varchar_in E 3 (tr_Currency req) = Some cur" "varchar_in E 255 key = Some k"
    "k \<in> ik_Key ` set (idempotency_keys (db w))" "i \<notin> t_ID ` set (transfers (db w))"
    "w' = w\<lparr>db := (db w)\<lparr>transfers := transfers (db w) @ [?row src dst cur k]\<rparr>, tick := Suc (tick w)\<rparr>"
    by (auto simp: sql_insert_transfer_def new_transfer_def run_simps row_simps)
  then show ?thesis by (intro exI [of _ "?row src dst cur k"]) simp
qed

lemma record_transfer_Inr:
  assumes "record_transfer E req key s r w = (Inr x, w')"
  shows "\<exists>row lrow e1 e2 ev. transfer_rows E req key s r row e1 e2 ev (db w) \<and>
    t_SourceWalletID row \<noteq> t_DestinationWalletID row \<and>
    db w' = (db w)\<lparr>transfers := transfers (db w) @ [row],
      ledger_transactions := ledger_transactions (db w) @ [lrow],
      ledger_entries := ledger_entries (db w) @ [e1, e2],
      outbox_events := outbox_events (db w) @ [ev]\<rparr> \<and>
    lt_ID lrow \<notin> lt_ID ` set (ledger_transactions (db w)) \<and>
    lt_ReferenceType lrow = TxTypeTransfer \<and> lt_Status lrow = ledger_StatusCompleted \<and>
    varchar_in E 255 (t_ID row) = Some (lt_ReferenceID lrow) \<and>
    e_AccountID e1 \<in> a_ID ` set (accounts (db w)) \<and> e_AccountID e2 \<in> a_ID ` set (accounts (db w)) \<and>
    e_TransactionID e1 \<in> lt_ID ` set (ledger_transactions (db w')) \<and>
    e_ID e1 \<noteq> e_ID e2 \<and> e_ID e1 \<notin> e_ID ` set (ledger_entries (db w)) \<and>
    e_ID e2 \<notin> e_ID ` set (ledger_entries (db w)) \<and> ev_ID ev \<notin> ev_ID ` set (outbox_events (db w)) \<and>
    t_ID x = t_ID row \<and> metrics w' = metrics w"
proof -
  from assms obtain i t w1 txn w2 w3 now where
    ins: "sql E (sql_insert_transfer E (new_transfer req key)) w = (Inr (i, t), w1)" and
    led: "CreateTransaction E (transfer_ledger_txn req i s r) w1 = (Inr txn, w2)" and
    w3: "w3 = w2\<lparr>tick := Suc (tick w2)\<rparr>" and
    out: "InsertEvent E ''transfer.events'' (transfer_event ((new_transfer req key)\<lparr>t_ID := i, t_CreatedAt := t\<rparr>)
        (format_RFC3339 E now)) w3 = (Inr (), w')" and
    x: "x = (new_transfer req key)\<lparr>t_ID := i, t_CreatedAt := t\<rparr>"
    by (auto simp: record_transfer_def run_simps Let_def)
  from sql_insert_transfer_Inr [OF ins] obtain row where row: "t_ID row = i"
    "uuid_in E (tr_SourceWalletID req) = Some (t_SourceWalletID row)"
    "uuid_in E (tr_DestinationWalletID req) = Some (t_DestinationWalletID row)"
    "t_SourceWalletID row \<noteq> t_DestinationWalletID row"
    "t_Amount row = tr_Amount req" "t_Status row = transfers_StatusCompleted"
    "varchar_in E 3 (tr_Currency req) = Some (t_Currency row)"
    "varchar_in E 255 key = Some (t_IdempotencyKey row)"
    "t_IdempotencyKey row \<in> ik_Key ` set (idempotency_keys (db w))"
    "i \<notin> t_ID ` set (transfers (db w))"
    and w1: "w1 = w\<lparr>db := (db w)\<lparr>transfers := transfers (db w) @ [row]\<rparr>, tick := Suc (tick w)\<rparr>"
    by blast
  obtain lrow e1 e2 where
    w2: "db w2 = (db w1)\<lparr>ledger_transactions := ledger_transactions (db w1) @ [lrow],
       ledger_entries := ledger_entries (db w1) @ [e1, e2]\<rparr>"
    and e: "stored_entry E (lt_ID lrow) (new_entry (w_AccountID s) (tr_Amount req) DirectionDebit (tr_Currency req)) e1"
      "stored_entry E (lt_ID lrow) (new_entry (w_AccountID r) (tr_Amount req) DirectionCredit (tr_Currency req)) e2"
    and app: "ledger_appended E (transfer_ledger_txn req i s r) lrow [e1, e2] (db w1) (db w2)"
    and m: "metrics w2 = metrics w1"
    by (rule ledgerRepo.create_two_entries [OF led]) (simp add: transfer_ledger_txn_def, blast)
  from InsertEvent_Inr [OF out] obtain ev where
    ev: "jsonb_in E (transfer_event ((new_transfer req key)\<lparr>t_ID := i, t_CreatedAt := t\<rparr>) (format_RFC3339 E now)) = Some (ev_Payload ev)"
      "ev_Status ev = outbox_StatusPending" "varchar_in E 255 ''transfer.events'' = Some (ev_Topic ev)"
      "ev_ID ev \<notin> ev_ID ` set (outbox_events (db w3))"
    and w': "w' = w3\<lparr>db := (db w3)\<lparr>outbox_events := outbox_events (db w3) @ [ev]\<rparr>, tick := Suc (tick w3)\<rparr>"
    by blast
  have "transfer_rows E req key s r row e1 e2 ev (db w)"
    using row e ev by (auto simp: transfer_rows_def stored_entry_def new_entry_def transfer_event_def new_transfer_def)
  with row app ev x m show ?thesis
    by (intro exI [of _ row] exI [of _ lrow] exI [of _ e1] exI [of _ e2] exI [of _ ev])
      (auto simp: w' w3 w2 w1 ledger_appended_def transfer_ledger_txn_def)
qed

text \<open>The identifier of the wallet that \<open>map_back\<close> takes for the source.\<close>

definition debited_id :: "env \<Rightarrow> CreateTransferRequest \<Rightarrow> string option" where
  "debited_id E req =
     (if uuid_in E (fst (lock_order req)) = Some (tr_SourceWalletID req) then Some (tr_SourceWalletID req)
      else uuid_in E (snd (lock_order req)))"

text \<open>The rows that were scanned under the locks are still the rows of the table.\<close>

definition locked_rows :: "env \<Rightarrow> CreateTransferRequest \<Rightarrow> Wallet \<Rightarrow> Wallet \<Rightarrow> db \<Rightarrow> bool" where
  "locked_rows E req r1 r2 d \<longleftrightarrow>
     uuid_in E (fst (lock_order req)) = Some (w_ID r1) \<and> uuid_in E (snd (lock_order req)) = Some (w_ID r2) \<and>
     row_with w_ID (w_ID r1) (wallets d) = Some r1 \<and> row_with w_ID (w_ID r2) (wallets d) = Some r2"

lemma transfer_locked_Inr:
  assumes canon: "uuid_canonical E" and pos: "0 < sint (tr_Amount req)" and locked: "locked_rows E req r1 r2 (db w)"
    and run: "transfer_locked E req key (scan_locked r1, scan_locked r2) w = (Inr x, w')"
  shows "\<exists>s r. transfer_applied E req key s r (db w) (db w') \<and> debited_id E req = Some (w_ID s) \<and>
    metrics w' = metrics w"
proof -
  from locked have id: "uuid_in E (fst (lock_order req)) = Some (w_ID r1)" "uuid_in E (snd (lock_order req)) = Some (w_ID r2)"
    and rows: "row_with w_ID (w_ID r1) (wallets (db w)) = Some r1" "row_with w_ID (w_ID r2) (wallets (db w)) = Some r2"
    by (simp_all add: locked_rows_def)
  note rest = run [unfolded transfer_locked_def]
  define s r where "s = (if w_ID r1 = tr_SourceWalletID req then r1 else r2)"
    and "r = (if w_ID r1 = tr_SourceWalletID req then r2 else r1)"
  have mb: "map_back req (scan_locked r1, scan_locked r2) = (scan_locked s, scan_locked r)"
    by (simp add: map_back_def s_def r_def)
  from rest mb have val: "validate_transfer req (scan_locked s) (scan_locked r) = Inr ()"
    by (auto simp: run_simps Let_def split: sum.splits)
  from rest mb val obtain w2 where upd: "update_balances E (tr_Amount req) (scan_locked s) (scan_locked r) w = (Inr (), w2)"
    and rec: "record_transfer E req key (scan_locked s) (scan_locked r) w2 = (Inr x, w')"
    by (auto simp: run_simps)
  from record_transfer_Inr [OF rec] obtain row lrow e1 e2 ev where
    rows': "transfer_rows E req key (scan_locked s) (scan_locked r) row e1 e2 ev (db w2)"
    and neq: "t_SourceWalletID row \<noteq> t_DestinationWalletID row" and
    out: "db w' = (db w2)\<lparr>transfers := transfers (db w2) @ [row],
      ledger_transactions := ledger_transactions (db w2) @ [lrow],
      ledger_entries := ledger_entries (db w2) @ [e1, e2],
      outbox_events := outbox_events (db w2) @ [ev]\<rparr>"
      "lt_ID lrow \<notin> lt_ID ` set (ledger_transactions (db w2))"
      "lt_ReferenceType lrow = TxTypeTransfer" "lt_Status lrow = ledger_StatusCompleted"
      "varchar_in E 255 (t_ID row) = Some (lt_ReferenceID lrow)"
      "e_AccountID e1 \<in> a_ID ` set (accounts (db w2))" "e_AccountID e2 \<in> a_ID ` set (accounts (db w2))"
      "e_TransactionID e1 \<in> lt_ID ` set (ledger_transactions (db w'))"
      "e_ID e1 \<noteq> e_ID e2" "e_ID e1 \<notin> e_ID ` set (ledger_entries (db w2))"
      "e_ID e2 \<notin> e_ID ` set (ledger_entries (db w2))" "ev_ID ev \<notin> ev_ID ` set (outbox_events (db w2))"
      "metrics w' = metrics w2"
    by blast
  have named: "{uuid_in E (tr_SourceWalletID req), uuid_in E (tr_DestinationWalletID req)} = {Some (w_ID s), Some (w_ID r)}"
    using id by (auto simp: lock_order_def s_def r_def split: if_splits)
  with neq rows' have "w_ID s \<noteq> w_ID r"
    by (auto simp: transfer_rows_def doubleton_eq_iff)
  moreover have "uuid_in E (w_ID s) = Some (w_ID s)" "uuid_in E (w_ID r) = Some (w_ID r)"
    using id canon by (auto simp: s_def r_def dest: uuid_canonicalD)
  moreover have sr: "row_with w_ID (w_ID s) (wallets (db w)) = Some s" "row_with w_ID (w_ID r) (wallets (db w)) = Some r"
    using rows by (auto simp: s_def r_def)
  ultimately have w2: "w2 = w\<lparr>db := (db w)\<lparr>wallets := move_funds s r (tr_Amount req) (wallets (db w))\<rparr>,
      tick := Suc (Suc (tick w))\<rparr>" "int64_range (sint (w_AvailableBalance r) + sint (tr_Amount req))"
    using update_balances_Inr [OF upd, of s r] by (auto simp: move_funds_def)
  have "transfer_guard E req s r (db w)"
    using val sr named \<open>w_ID s \<noteq> w_ID r\<close> pos w2(2)
    by (auto simp: transfer_guard_def validate_transfer_def split: if_splits)
  moreover have "transfer_rows E req key s r row e1 e2 ev (db w)"
    using rows' by (auto simp: transfer_rows_def w2)
  ultimately have "transfer_applied E req key s r (db w) (db w')"
    unfolding transfer_applied_def using out
    by (intro conjI exI [of _ row] exI [of _ lrow] exI [of _ e1] exI [of _ e2] exI [of _ ev]) (auto simp: w2)
  moreover have "debited_id E req = Some (w_ID s)"
    using id by (auto simp: debited_id_def s_def)
  ultimately show ?thesis using out w2 by auto
qed

lemma transfer_body_Inr:
  assumes "uuid_canonical E" and "0 < sint (tr_Amount req)" and "transfer_body E req key w = (Inr x, w')"
  shows "\<exists>s r. transfer_applied E req key s r (db w) (db w') \<and> debited_id E req = Some (w_ID s) \<and>
    metrics w' = metrics w"
proof -
  from assms(3) obtain f g w1 where lock: "lock_wallets E req w = (Inr (f, g), w1)"
    and rest: "transfer_locked E req key (f, g) w1 = (Inr x, w')"
    by (auto simp: transfer_body_def run_simps)
  from lock_wallets_Inr [OF lock] obtain r1 r2 where "f = scan_locked r1" "g = scan_locked r2"
    "locked_rows E req r1 r2 (db w)" and w1: "w1 = w\<lparr>tick := Suc (Suc (tick w))\<rparr>"
    by (auto simp: locked_rows_def)
  with transfer_locked_Inr [OF assms(1,2), of r1 r2 w1 key x w'] rest show ?thesis by simp
qed

section \<open>Outcomes of ExecuteTransfer\<close>

lemma ExecuteTransfer_run:
  "ExecuteTransfer E req key w = (r, w') \<longleftrightarrow>
     (\<exists>w1. transfer_run E req key w = (r, w1) \<and>
        w' = w1\<lparr>metrics := RecordTransfer (\<not> isl r) (metrics w1)\<rparr>)"
  by (auto simp: ExecuteTransfer_def split: prod.splits sum.splits)

lemma ExecuteTransfer_Inr:
  assumes "uuid_canonical E" and "ExecuteTransfer E req key w = (Inr x, w')"
  shows "\<exists>s r. transfer_applied E req key s r (db w) (db w') \<and> debited_id E req = Some (w_ID s) \<and>
    metrics w' = RecordTransfer True (metrics w)"
proof -
  from assms(2) obtain w1 where run: "withTx E (transfer_body E req key) w = (Inr x, w1)"
    and pos: "0 < sint (tr_Amount req)" and w': "w' = w1\<lparr>metrics := RecordTransfer True (metrics w1)\<rparr>"
    by (auto simp: ExecuteTransfer_run transfer_run_def run_simps split: if_splits)
  have "\<exists>s r. transfer_applied E req key s r (db w) (db w1) \<and> debited_id E req = Some (w_ID s) \<and>
      metrics w1 = metrics w"
  proof (rule withTx_post [OF run])
    fix w2
    assume "transfer_body E req key (tx_begin E w) = (Inr x, w2)"
    from transfer_body_Inr [OF assms(1) pos this]
    show "\<exists>s r. transfer_applied E req key s r (db w) (db w2) \<and> debited_id E req = Some (w_ID s) \<and>
        metrics w2 = metrics w" by simp
  qed
  then show ?thesis by (auto simp: w')
qed

lemma transfer_run_no_metrics: "no_metrics (transfer_run E req key)"
  unfolding transfer_run_def transfer_body_def transfer_locked_def lock_wallets_def update_balances_def record_transfer_def InsertEvent_def Let_def
  by (intro no_metrics_intros CreateTransaction_no_metrics)

lemma ExecuteTransfer_metrics:
  "ExecuteTransfer E req key w = (r, w') \<Longrightarrow> metrics w' = RecordTransfer (\<not> isl r) (metrics w)"
  by (auto simp: ExecuteTransfer_run dest!: no_metricsD [OF transfer_run_no_metrics])

lemma ExecuteTransfer_atomic:
  assumes "uuid_canonical E" and "ExecuteTransfer E req key w = (res, w')"
  shows "db w' = db w \<or>
    (\<exists>s r. transfer_applied E req key s r (db w) (db w') \<and> debited_id E req = Some (w_ID s))"
proof -
  from assms(2) obtain w1 where run: "transfer_run E req key w = (res, w1)" and w': "db w' = db w1"
    by (auto simp: ExecuteTransfer_run)
  show ?thesis
  proof (cases "tr_SourceWalletID req = tr_DestinationWalletID req \<or> sint (tr_Amount req) \<le> 0")
    case True
    with run w' show ?thesis by (auto simp: transfer_run_def mfail_def split: if_splits)
  next
    case False
    with run have tx: "withTx E (transfer_body E req key) w = (res, w1)" and pos: "0 < sint (tr_Amount req)"
      by (simp_all add: transfer_run_def)
    have "db w1 = db w \<or> (\<exists>x :: Transfer. \<exists>s r. transfer_applied E req key s r (db w) (db w1) \<and>
        debited_id E req = Some (w_ID s))"
    proof (rule withTx_atomic [OF tx, where Q = "\<lambda>_ d. \<exists>s r. transfer_applied E req key s r (db w) d \<and>
        debited_id E req = Some (w_ID s)"])
      fix x w2
      assume "transfer_body E req key (tx_begin E w) = (Inr x, w2)"
      from transfer_body_Inr [OF assms(1) pos this]
      show "\<exists>s r. transfer_applied E req key s r (db w) (db w2) \<and> debited_id E req = Some (w_ID s)" by auto
    qed
    with w' show ?thesis by auto
  qed
qed

text \<open>
  An error other than a lost acknowledgement of the commit leaves the database as it was; the
  failure is counted, nothing else.
\<close>

lemma ExecuteTransfer_Inl:
  assumes "ExecuteTransfer E req key w = (Inl e, w')"
    and "\<And>n msg. commit_result E n = CommitUnknown msg \<Longrightarrow> e \<noteq> DriverError msg"
  shows "db w' = db w"
  using assms
  by (auto simp: ExecuteTransfer_run transfer_run_def mfail_def split: if_splits
      dest!: withTx_InlD)

end
