(* ===== verification/Transfer_Correctness.thy ===== *)
theory Transfer_Correctness
  imports Transfers Demo
begin

text \<open>
  What a transfer guarantees: it refines the abstract movement of an amount between two balances,
  conserves the total, never overdraws, keeps the ledger balanced, names its refusal, and goes
  through when nothing stands against it. The section on direction says which of the two wallets
  is debited, and shows the request for which it is the wrong one.
\<close>

section \<open>Balances as an abstract map\<close>

definition abs_balances :: "db \<Rightarrow> string \<Rightarrow> int option" where
  "abs_balances d i = map_option (\<lambda>r. sint (w_AvailableBalance r)) (row_with w_ID i (wallets d))"

text \<open>The specification: move \<open>amt\<close> between two accounts that exist, if the first one has it.\<close>

definition abs_transfer ::
  "string \<Rightarrow> string \<Rightarrow> int \<Rightarrow> (string \<Rightarrow> int option) \<Rightarrow> (string \<Rightarrow> int option) option" where
  "abs_transfer src dst amt m =
     (case (m src, m dst) of
        (Some a, Some b) \<Rightarrow>
          (if src \<noteq> dst \<and> 0 < amt \<and> amt \<le> a then Some (m(src \<mapsto> a - amt, dst \<mapsto> b + amt)) else None)
      | _ \<Rightarrow> None)"

definition total_available :: "db \<Rightarrow> int" where
  "total_available d = sum_list (map (\<lambda>r. sint (w_AvailableBalance r)) (wallets d))"

definition wallet_ids_distinct :: "db \<Rightarrow> bool" where
  "wallet_ids_distinct d \<longleftrightarrow> distinct (map w_ID (wallets d))"

definition balances_nonneg :: "db \<Rightarrow> bool" where
  "balances_nonneg d \<longleftrightarrow>
     (\<forall>r \<in> set (wallets d). 0 \<le> sint (w_AvailableBalance r) \<and> 0 \<le> sint (w_LockedBalance r))"

lemma debit_exact:
  assumes "0 < sint amount" and "sint amount \<le> sint (b :: int64)"
  shows "sint (b - amount) = sint b - sint amount"
proof -
  have "int64_range (sint b + - sint amount)"
    using assms sint_int64_range [of b] by (simp add: int64_range_def)
  from sint_add_word64 [OF this] show ?thesis by simp
qed

lemma credit_exact:
  assumes "int64_range (sint (b :: int64) + sint amount)"
  shows "sint (b + amount) = sint b + sint amount"
  using sint_add_word64 [OF assms] by simp

lemma row_with_move_funds:
  assumes "w_ID s \<noteq> w_ID r"
  shows "row_with w_ID i (move_funds s r amount ws) =
    (if i = w_ID s then map_option (\<lambda>x. x\<lparr>w_AvailableBalance := w_AvailableBalance s - amount\<rparr>) (row_with w_ID i ws)
     else if i = w_ID r then map_option (\<lambda>x. x\<lparr>w_AvailableBalance := w_AvailableBalance r + amount\<rparr>) (row_with w_ID i ws)
     else row_with w_ID i ws)"
  using assms by (auto simp: move_funds_def row_with_update_where)

lemma set_move_funds:
  assumes "w_ID s \<noteq> w_ID r"
  shows "set (move_funds s r amount ws) =
    (\<lambda>x. if w_ID x = w_ID s then x\<lparr>w_AvailableBalance := w_AvailableBalance s - amount\<rparr>
         else if w_ID x = w_ID r then x\<lparr>w_AvailableBalance := w_AvailableBalance r + amount\<rparr> else x) ` set ws"
  unfolding move_funds_def set_update_where image_image
  using assms by (intro image_cong) auto

lemma map_move_funds:
  assumes "\<And>x b. g (x\<lparr>w_AvailableBalance := b\<rparr>) = g x"
  shows "map g (move_funds s r amount ws) = map g ws"
  using assms by (simp add: move_funds_def map_update_where)

lemma ids_move_funds [simp]: "w_ID ` set (move_funds s r amount ws) = w_ID ` set ws"
  using arg_cong [OF map_move_funds [of w_ID s r amount ws], of set] by simp

lemma transfer_applied_abs:
  assumes "transfer_applied E req key s r d d'"
  shows "abs_transfer (w_ID s) (w_ID r) (sint (tr_Amount req)) (abs_balances d) = Some (abs_balances d')"
proof -
  from assms have g: "transfer_guard E req s r d"
    and w: "wallets d' = move_funds s r (tr_Amount req) (wallets d)"
    by (auto simp: transfer_applied_def)
  then have sr: "row_with w_ID (w_ID s) (wallets d) = Some s" "row_with w_ID (w_ID r) (wallets d) = Some r"
    "w_ID s \<noteq> w_ID r" "0 < sint (tr_Amount req)" "sint (tr_Amount req) \<le> sint (w_AvailableBalance s)"
    "int64_range (sint (w_AvailableBalance r) + sint (tr_Amount req))"
    by (simp_all add: transfer_guard_def)
  have "abs_balances d' = (abs_balances d)(w_ID s \<mapsto> sint (w_AvailableBalance s) - sint (tr_Amount req),
      w_ID r \<mapsto> sint (w_AvailableBalance r) + sint (tr_Amount req))"
    using sr by (auto simp: abs_balances_def w row_with_move_funds debit_exact credit_exact fun_eq_iff)
  with sr show ?thesis by (simp add: abs_transfer_def abs_balances_def)
qed

lemma transfer_applied_total:
  assumes app: "transfer_applied E req key s r d d'" and ids: "wallet_ids_distinct d"
  shows "total_available d' = total_available d"
proof -
  from app have g: "transfer_guard E req s r d"
    and w: "wallets d' = move_funds s r (tr_Amount req) (wallets d)"
    by (auto simp: transfer_applied_def)
  then have sr: "row_with w_ID (w_ID s) (wallets d) = Some s" "row_with w_ID (w_ID r) (wallets d) = Some r"
    "w_ID s \<noteq> w_ID r" "0 < sint (tr_Amount req)" "sint (tr_Amount req) \<le> sint (w_AvailableBalance s)"
    "int64_range (sint (w_AvailableBalance r) + sint (tr_Amount req))"
    by (simp_all add: transfer_guard_def)
  let ?ws = "update_where w_ID (w_ID s) (\<lambda>x. x\<lparr>w_AvailableBalance := w_AvailableBalance s - tr_Amount req\<rparr>) (wallets d)"
  have "distinct (map w_ID ?ws)" "row_with w_ID (w_ID r) ?ws = Some r"
    using sr ids by (simp_all add: map_update_where wallet_ids_distinct_def row_with_update_where)
  then show ?thesis
    using sr ids by (simp add: total_available_def w move_funds_def sum_update_where
        wallet_ids_distinct_def debit_exact credit_exact)
qed

lemma transfer_applied_ids: "transfer_applied E req key s r d d' \<Longrightarrow> map w_ID (wallets d') = map w_ID (wallets d)"
  by (auto simp: transfer_applied_def map_move_funds)

lemma transfer_applied_nonneg:
  assumes "transfer_applied E req key s r d d'" and "balances_nonneg d"
  shows "balances_nonneg d'"
proof -
  from assms(1) have g: "transfer_guard E req s r d"
    and w: "wallets d' = move_funds s r (tr_Amount req) (wallets d)"
    by (auto simp: transfer_applied_def)
  have "sint (w_AvailableBalance s - tr_Amount req) = sint (w_AvailableBalance s) - sint (tr_Amount req)"
    "sint (w_AvailableBalance r + tr_Amount req) = sint (w_AvailableBalance r) + sint (tr_Amount req)"
    using g by (simp_all add: transfer_guard_def debit_exact credit_exact)
  moreover have "r \<in> set (wallets d)"
    using g by (auto simp: transfer_guard_def dest: row_with_SomeD)
  ultimately show ?thesis
    using assms(2) g by (auto simp: balances_nonneg_def w move_funds_def set_update_where transfer_guard_def)
qed

lemma transfer_applied_balanced:
  assumes app: "transfer_applied E req key s r d d'" and bal: "ledger_balanced d"
  shows "ledger_balanced d'"
proof -
  from app obtain e1 e2 lrow where e: "e_Direction e1 = DirectionDebit" "e_Direction e2 = DirectionCredit"
    "e_Amount e1 = tr_Amount req" "e_Amount e2 = tr_Amount req" "e_TransactionID e1 = e_TransactionID e2"
    "0 < sint (tr_Amount req)" "e_TransactionID e1 \<in> lt_ID ` set (ledger_transactions d')"
    "ledger_entries d' = ledger_entries d @ [e1, e2]"
    "ledger_transactions d' = ledger_transactions d @ [lrow]"
    unfolding transfer_applied_def transfer_rows_def transfer_guard_def
    by (elim conjE exE) (rule that, assumption+, simp_all)
  then have "debits (of_transaction t [e1, e2]) = credits (of_transaction t [e1, e2])" for t
    by (simp add: of_transaction_def)
  with bal e show ?thesis
    by (auto simp: ledger_balanced_def entry_ok_def)
qed


section \<open>Wallets and the ledger\<close>

text \<open>
  Every wallet has an account of its own, and its balance is what the ledger says of that account.
\<close>

definition wallet_ledger_inv :: "env \<Rightarrow> db \<Rightarrow> bool" where
  "wallet_ledger_inv E d \<longleftrightarrow>
     distinct (map w_ID (wallets d)) \<and> distinct (map w_AccountID (wallets d)) \<and>
     (\<forall>r \<in> set (wallets d). uuid_in E (w_AccountID r) = Some (w_AccountID r) \<and>
        sint (w_AvailableBalance r) + sint (w_LockedBalance r) =
        net_account (w_AccountID r) (ledger_entries d))"

lemma wallet_ledger_invD:
  assumes "wallet_ledger_inv E d" and "r \<in> set (wallets d)"
  shows "uuid_in E (w_AccountID r) = Some (w_AccountID r)"
    "sint (w_AvailableBalance r) + sint (w_LockedBalance r) = net_account (w_AccountID r) (ledger_entries d)"
  using assms by (auto simp: wallet_ledger_inv_def)

lemma transfer_applied_wallet_ledger:
  assumes app: "transfer_applied E req key s r d d'" and inv: "wallet_ledger_inv E d"
  shows "wallet_ledger_inv E d'"
proof -
  let ?a = "tr_Amount req"
  from app obtain e1 e2 where e: "e_Direction e1 = DirectionDebit" "e_Direction e2 = DirectionCredit"
    "e_Amount e1 = ?a" "e_Amount e2 = ?a" "uuid_in E (w_AccountID s) = Some (e_AccountID e1)"
    "uuid_in E (w_AccountID r) = Some (e_AccountID e2)"
    "ledger_entries d' = ledger_entries d @ [e1, e2]"
    unfolding transfer_applied_def transfer_rows_def
    by (elim conjE exE) (rule that, assumption+, simp_all)
  from app have g: "transfer_guard E req s r d" and w: "wallets d' = move_funds s r ?a (wallets d)"
    by (auto simp: transfer_applied_def)
  from g have sr: "s \<in> set (wallets d)" "r \<in> set (wallets d)" "w_ID s \<noteq> w_ID r"
    "0 < sint ?a" "sint ?a \<le> sint (w_AvailableBalance s)" "int64_range (sint (w_AvailableBalance r) + sint ?a)"
    by (auto simp: transfer_guard_def dest: row_with_SomeD)
  have acc: "e_AccountID e1 = w_AccountID s" "e_AccountID e2 = w_AccountID r"
    using e sr wallet_ledger_invD(1) [OF inv] by auto
  have dist: "x = y" if "x \<in> set (wallets d)" "y \<in> set (wallets d)" "w_ID x = w_ID y \<or> w_AccountID x = w_AccountID y" for x y
    using inv that by (auto simp: wallet_ledger_inv_def distinct_map dest: inj_onD)
  have net: "net_account (w_AccountID x) (ledger_entries d') = net_account (w_AccountID x) (ledger_entries d) +
      (if x = r then sint ?a else 0) - (if x = s then sint ?a else 0)" if x: "x \<in> set (wallets d)" for x
  proof -
    have "w_AccountID s = w_AccountID x \<longleftrightarrow> x = s" "w_AccountID r = w_AccountID x \<longleftrightarrow> x = r"
      using dist x sr by blast+
    moreover have "s \<noteq> r" using sr(3) by blast
    ultimately show ?thesis by (simp add: e(1-4,7) acc net_account_Cons)
  qed
  have inv': "uuid_in E (w_AccountID y) = Some (w_AccountID y) \<and>
      sint (w_AvailableBalance y) + sint (w_LockedBalance y) = net_account (w_AccountID y) (ledger_entries d')"
    if y: "y \<in> set (wallets d')" for y
  proof -
    from y obtain x where x: "x \<in> set (wallets d)" and
      yx: "y = (if w_ID x = w_ID s then x\<lparr>w_AvailableBalance := w_AvailableBalance s - ?a\<rparr>
         else if w_ID x = w_ID r then x\<lparr>w_AvailableBalance := w_AvailableBalance r + ?a\<rparr> else x)"
      by (auto simp: w set_move_funds [OF sr(3)])
    have "w_ID x = w_ID s \<longleftrightarrow> x = s" "w_ID x = w_ID r \<longleftrightarrow> x = r"
      using dist x sr by blast+
    then have "sint (w_AvailableBalance y) = sint (w_AvailableBalance x) + (if x = r then sint ?a else 0) - (if x = s then sint ?a else 0)"
      "w_AccountID y = w_AccountID x" "w_LockedBalance y = w_LockedBalance x"
      using sr by (auto simp: yx debit_exact credit_exact)
    with net [OF x] wallet_ledger_invD [OF inv x] show ?thesis by auto
  qed
  then show ?thesis
    using inv by (simp add: wallet_ledger_inv_def w map_move_funds)
qed

section \<open>Direction\<close>

text \<open>
  The code recognises the source among the two locked rows by comparing the row's identifier with
  the text of the request. The comparison answers correctly for an identifier in canonical form,
  and for any other spelling exactly when the source happens to be locked second.
\<close>

lemma debited_id_eq:
  assumes "uuid_canonical E"
  shows "debited_id E req =
    (if uuid_in E (tr_SourceWalletID req) = Some (tr_SourceWalletID req) \<or>
        tr_DestinationWalletID req < tr_SourceWalletID req
     then uuid_in E (tr_SourceWalletID req) else uuid_in E (tr_DestinationWalletID req))"
  using assms uuid_canonicalD [OF assms, of "tr_DestinationWalletID req" "tr_SourceWalletID req"]
  by (auto simp: debited_id_def lock_order_def)

lemma transfer_applied_direction:
  assumes "transfer_applied E req key s r d d'" and "debited_id E req = Some (w_ID s)"
    and "debited_id E req = uuid_in E (tr_SourceWalletID req)"
  shows "uuid_in E (tr_SourceWalletID req) = Some (w_ID s) \<and> uuid_in E (tr_DestinationWalletID req) = Some (w_ID r)"
  using assms by (auto simp: transfer_applied_def transfer_guard_def doubleton_eq_iff)


section \<open>Refusals and success\<close>

text \<open>The rows the request names, given in canonical form.\<close>

definition names_wallets :: "env \<Rightarrow> CreateTransferRequest \<Rightarrow> Wallet \<Rightarrow> Wallet \<Rightarrow> db \<Rightarrow> bool" where
  "names_wallets E req s r d \<longleftrightarrow>
     uuid_in E (tr_SourceWalletID req) = Some (tr_SourceWalletID req) \<and>
     uuid_in E (tr_DestinationWalletID req) = Some (tr_DestinationWalletID req) \<and>
     row_with w_ID (tr_SourceWalletID req) (wallets d) = Some s \<and>
     row_with w_ID (tr_DestinationWalletID req) (wallets d) = Some r \<and>
     tr_SourceWalletID req \<noteq> tr_DestinationWalletID req"

lemma names_wallets_ids:
  "names_wallets E req s r d \<Longrightarrow> w_ID s = tr_SourceWalletID req \<and> w_ID r = tr_DestinationWalletID req"
  by (auto simp: names_wallets_def dest: row_with_SomeD)

lemma lock_wallets_run:
  assumes "fault_free E" and "names_wallets E req s r (db w)"
  shows "\<exists>p. lock_wallets E req w = (Inr p, w\<lparr>tick := Suc (Suc (tick w))\<rparr>) \<and>
    map_back req p = (scan_locked s, scan_locked r)"
  using assms names_wallets_ids [OF assms(2)]
  by (auto simp: lock_wallets_def lock_order_def mbind_def mwrap_def mret_def sql_run sql_lock_wallet_def
      uuid_param_def names_wallets_def map_back_def)

lemma validate_transfer_scan [simp]:
  "validate_transfer req (scan_locked s) (scan_locked r) = validate_transfer req s r"
  unfolding validate_transfer_def scan_locked_sel ..

lemma transfer_body_refused:
  assumes "fault_free E" and "names_wallets E req s r (db w)" and "validate_transfer req s r = Inl e"
  shows "transfer_body E req key w = (Inl e, w\<lparr>tick := Suc (Suc (tick w))\<rparr>)"
proof -
  from lock_wallets_run [OF assms(1,2)] obtain p where
    p: "lock_wallets E req w = (Inr p, w\<lparr>tick := Suc (Suc (tick w))\<rparr>)"
    "map_back req p = (scan_locked s, scan_locked r)" by blast
  with assms(3) show ?thesis
    by (simp add: transfer_body_def transfer_locked_def mbind_runI mfail_def)
qed

lemma ExecuteTransfer_refused:
  assumes "fault_free E" and "names_wallets E req s r (db w)" and "0 < sint (tr_Amount req)"
    and "validate_transfer req s r = Inl e" and "tx_start w = None"
  shows "ExecuteTransfer E req key w =
    (Inl e, w\<lparr>tick := tick w + 3, metrics := RecordTransfer False (metrics w)\<rparr>)"
proof -
  have "withTx E (transfer_body E req key) w = (Inl e, w\<lparr>tick := tick w + 3\<rparr>)"
    using assms transfer_body_refused [of E req s r "tx_begin E w" e key]
    by (simp add: withTx_run_err tx_begin_def)
  with assms show ?thesis
    by (simp add: ExecuteTransfer_def transfer_run_def names_wallets_def)
qed

lemma ExecuteTransfer_missing:
  assumes "fault_free E" and "tr_SourceWalletID req \<noteq> tr_DestinationWalletID req" and "0 < sint (tr_Amount req)"
    and "tx_start w = None" and "uuid_in E (fst (lock_order req)) = Some k" and "k \<notin> w_ID ` set (wallets (db w))"
  shows "ExecuteTransfer E req key w =
    (Inl (ErrorfW (''failed to lock wallet '' @ fst (lock_order req)) ErrNoRows),
     w\<lparr>tick := tick w + 2, metrics := RecordTransfer False (metrics w)\<rparr>)"
proof -
  have "sql_lock_wallet E (fst (lock_order req)) u t (db w) = Inl ErrNoRows" for u t
    using assms by (simp add: sql_lock_wallet_def uuid_param_def row_with_None_iff [symmetric])
  then have "transfer_body E req key (tx_begin E w) =
      (Inl (ErrorfW (''failed to lock wallet '' @ fst (lock_order req)) ErrNoRows), (tx_begin E w)\<lparr>tick := Suc (Suc (tick w))\<rparr>)"
    using assms by (cases "lock_order req") (simp add: transfer_body_def transfer_locked_def lock_wallets_def mbind_def mwrap_def sql_run_err)
  from withTx_run_err [of E "transfer_body E req key" w, OF assms(1) this] assms show ?thesis
    by (simp add: ExecuteTransfer_def transfer_run_def tx_begin_def)
qed


text \<open>
  A transfer draws its identifiers within eleven interactions. They are valid UUIDs, distinct, and not
  yet in use (PostgreSQL draws 122 random bits for each).
\<close>

definition ids_fresh :: "env \<Rightarrow> world \<Rightarrow> bool" where
  "ids_fresh E w \<longleftrightarrow>
     inj_on (gen_random_uuid E) {tick w..<tick w + 11} \<and>
     (\<forall>m \<in> {tick w..<tick w + 11}. let u = gen_random_uuid E m in
        uuid_in E u = Some u \<and> varchar_in E 255 u = Some u \<and>
        u \<notin> t_ID ` set (transfers (db w)) \<and> u \<notin> lt_ID ` set (ledger_transactions (db w)) \<and>
        u \<notin> e_ID ` set (ledger_entries (db w)) \<and> u \<notin> ev_ID ` set (outbox_events (db w)))"

lemma ids_freshD:
  assumes "ids_fresh E w" and "tick w \<le> m" and "m < tick w + 11"
  shows "uuid_in E (gen_random_uuid E m) = Some (gen_random_uuid E m)"
    "varchar_in E 255 (gen_random_uuid E m) = Some (gen_random_uuid E m)"
    "gen_random_uuid E m \<notin> t_ID ` set (transfers (db w))"
    "gen_random_uuid E m \<notin> lt_ID ` set (ledger_transactions (db w))"
    "gen_random_uuid E m \<notin> e_ID ` set (ledger_entries (db w))"
    "gen_random_uuid E m \<notin> ev_ID ` set (outbox_events (db w))"
  using assms by (auto simp: ids_fresh_def Let_def)

text \<open>Everything a request needs to go through.\<close>

definition transfer_ready :: "env \<Rightarrow> CreateTransferRequest \<Rightarrow> string \<Rightarrow> Wallet \<Rightarrow> Wallet \<Rightarrow> world \<Rightarrow> bool" where
  "transfer_ready E req key s r w \<longleftrightarrow>
     fault_free E \<and> ids_fresh E w \<and> names_wallets E req s r (db w) \<and>
     validate_transfer req s r = Inr () \<and> 0 < sint (tr_Amount req) \<and>
     0 \<le> sint (w_LockedBalance s) \<and> 0 \<le> sint (w_LockedBalance r) \<and> 0 \<le> sint (w_AvailableBalance r) \<and>
     int64_range (sint (w_AvailableBalance r) + sint (tr_Amount req)) \<and>
     varchar_in E 3 (tr_Currency req) = Some (tr_Currency req) \<and>
     varchar_in E 255 key = Some key \<and> key \<in> ik_Key ` set (idempotency_keys (db w)) \<and>
     varchar_in E 255 ''transfer.events'' = Some ''transfer.events'' \<and>
     (\<forall>ts i. jsonb_in E (transfer_event ((new_transfer req key)\<lparr>t_ID := i\<rparr>) ts) \<noteq> None) \<and>
     uuid_in E (w_AccountID s) = Some (w_AccountID s) \<and> w_AccountID s \<in> a_ID ` set (accounts (db w)) \<and>
     uuid_in E (w_AccountID r) = Some (w_AccountID r) \<and> w_AccountID r \<in> a_ID ` set (accounts (db w))"

lemma update_balances_run:
  assumes "transfer_ready E req key s r w" and "db w1 = db w"
  shows "update_balances E (tr_Amount req) (scan_locked s) (scan_locked r) w1 =
    (Inr (), w1\<lparr>db := (db w)\<lparr>wallets := move_funds s r (tr_Amount req) (wallets (db w))\<rparr>, tick := Suc (Suc (tick w1))\<rparr>)"
proof -
  from assms have f: "fault_free E" and n: "names_wallets E req s r (db w)"
    and v: "sint (tr_Amount req) \<le> sint (w_AvailableBalance s)"
    by (auto simp: transfer_ready_def validate_transfer_def split: if_splits)
  note id = names_wallets_ids [OF n]
  have "int64_range (sint (w_AvailableBalance s) - sint (tr_Amount req))"
    using v sint_int64_range [of "w_AvailableBalance s"] assms(1) by (auto simp: transfer_ready_def int64_range_def)
  then have 1: "add_available_balance (- sint (tr_Amount req)) (w_ID s) (db w) =
      Inr ((db w)\<lparr>wallets := update_where w_ID (w_ID s) (\<lambda>x. x\<lparr>w_AvailableBalance := w_AvailableBalance s - tr_Amount req\<rparr>) (wallets (db w))\<rparr>)"
    using assms(1) n id v by (simp add: add_available_balance_iff names_wallets_def transfer_ready_def)
  have 2: "add_available_balance (sint (tr_Amount req)) (w_ID r)
      ((db w)\<lparr>wallets := update_where w_ID (w_ID s) (\<lambda>x. x\<lparr>w_AvailableBalance := w_AvailableBalance s - tr_Amount req\<rparr>) (wallets (db w))\<rparr>) =
      Inr ((db w)\<lparr>wallets := move_funds s r (tr_Amount req) (wallets (db w))\<rparr>)"
    using assms(1) n id
    by (auto simp: add_available_balance_iff names_wallets_def transfer_ready_def row_with_update_where move_funds_def)
  have u: "uuid_in E (w_ID s) = Some (w_ID s)" "uuid_in E (w_ID r) = Some (w_ID r)"
    using n id by (simp_all add: names_wallets_def)
  from f assms(2) show ?thesis
    by (simp add: update_balances_def mbind_def sql_run sql_add_balance_def uuid_param_def u exec_stmt_def 1 2)
qed

lemma sql_insert_transfer_run:
  assumes rdy: "transfer_ready E req key s r w" and w1: "tick w1 = tick w + 5"
    "db w1 = (db w)\<lparr>wallets := move_funds s r (tr_Amount req) (wallets (db w))\<rparr>"
  shows "\<exists>t row. sql E (sql_insert_transfer E (new_transfer req key)) w1 =
    (Inr (gen_random_uuid E (tick w1), t), w1\<lparr>db := (db w1)\<lparr>transfers := transfers (db w1) @ [row]\<rparr>, tick := Suc (tick w1)\<rparr>)"
proof -
  from rdy have f: "fault_free E" and n: "names_wallets E req s r (db w)" and fr: "ids_fresh E w"
    by (auto simp: transfer_ready_def)
  have mem: "tr_SourceWalletID req \<in> w_ID ` set (wallets (db w))" "tr_DestinationWalletID req \<in> w_ID ` set (wallets (db w))"
    using n by (auto simp: names_wallets_def dest!: row_with_SomeD intro: rev_image_eqI)
  let ?u = "gen_random_uuid E (tick w1)"
  let ?row = "(new_transfer req key)\<lparr>t_ID := ?u, t_CreatedAt := NOW E w1\<rparr>"
  from ids_freshD(3) [OF fr, of "tick w1"] w1(1) n rdy mem
  have "sql_insert_transfer E (new_transfer req key) ?u (NOW E w1) (db w1) =
      Inr ((?u, NOW E w1), (db w1)\<lparr>transfers := transfers (db w1) @ [?row]\<rparr>)"
    by (simp add: sql_insert_transfer_def new_transfer_def transfer_ready_def names_wallets_def
        uuid_param_def varchar_def returning_def insert_defs checked.simps w1)
  from sql_run [where st = "sql_insert_transfer E (new_transfer req key)", OF f this] show ?thesis by blast
qed

lemma record_transfer_run:
  assumes rdy: "transfer_ready E req key s r w" and w1: "tick w1 = tick w + 5"
    "db w1 = (db w)\<lparr>wallets := move_funds s r (tr_Amount req) (wallets (db w))\<rparr>"
  shows "\<exists>t w2. record_transfer E req key (scan_locked s) (scan_locked r) w1 = (Inr t, w2)"
proof -
  from rdy have f: "fault_free E" and fr: "ids_fresh E w" by (auto simp: transfer_ready_def)
  from sql_insert_transfer_run [OF assms] obtain t row where
    ins: "sql E (sql_insert_transfer E (new_transfer req key)) w1 = (Inr (gen_random_uuid E (tick w1), t),
      w1\<lparr>db := (db w1)\<lparr>transfers := transfers (db w1) @ [row]\<rparr>, tick := Suc (tick w1)\<rparr>)" (is "_ = (Inr (?i, t), ?w2)")
    by blast
  let ?txn = "transfer_ledger_txn req ?i (scan_locked s) (scan_locked r)"
  have "acceptable ?txn"
    using rdy two_entries_acceptable [of ?txn "w_AccountID s" "tr_Amount req" "tr_Currency req" "w_AccountID r"]
    by (simp add: transfer_ledger_txn_def transfer_ready_def)
  then have "\<exists>txn' row rows w3. CreateTransaction E ?txn ?w2 = (Inr txn', w3) \<and>
      db w3 = (db ?w2)\<lparr>ledger_transactions := ledger_transactions (db ?w2) @ [row], ledger_entries := ledger_entries (db ?w2) @ rows\<rparr> \<and>
      tick w3 = Suc (tick ?w2 + length (lx_Entries ?txn))"
  proof (rule CreateTransaction_run [OF f])
    show "inj_on (gen_random_uuid E) {tick ?w2..tick ?w2 + length (lx_Entries ?txn)}"
      using fr unfolding ids_fresh_def
      by (elim conjE inj_on_subset) (auto simp: w1 transfer_ledger_txn_def)
    fix m
    assume "m \<in> {tick ?w2..tick ?w2 + length (lx_Entries ?txn)}"
    then show "uuid_in E (gen_random_uuid E m) = Some (gen_random_uuid E m) \<and>
        gen_random_uuid E m \<notin> lt_ID ` set (ledger_transactions (db ?w2)) \<and>
        gen_random_uuid E m \<notin> e_ID ` set (ledger_entries (db ?w2))"
      using ids_freshD [OF fr, of m] by (simp add: w1 transfer_ledger_txn_def)
  qed (use rdy w1 ids_freshD(2) [OF fr, of "tick w1"] in \<open>auto simp: transfer_ready_def transfer_ledger_txn_def new_entry_def\<close>)
  then obtain txn' lrow rows w3 where led: "CreateTransaction E ?txn ?w2 = (Inr txn', w3)"
    and w3: "outbox_events (db w3) = outbox_events (db w)" "tick w3 = tick w + 9"
    using w1 by (fastforce simp: transfer_ledger_txn_def)
  have "\<exists>w4. InsertEvent E ''transfer.events'' p (w3\<lparr>tick := Suc (tick w3)\<rparr>) = (Inr (), w4)"
    if "jsonb_in E p \<noteq> None" for p
  proof -
    have "varchar_in E 255 ''transfer.events'' = Some ''transfer.events''" using rdy by (simp add: transfer_ready_def)
    moreover from that obtain pl where "jsonb_in E p = Some pl" by blast
    ultimately show ?thesis
      using InsertEvent_run [OF f, of _ _ _ _ "w3\<lparr>tick := Suc (tick w3)\<rparr>"] ids_freshD(6) [OF fr, of "Suc (tick w3)"] w3
      by fastforce
  qed
  moreover have js: "jsonb_in E (transfer_event ((new_transfer req key)\<lparr>t_ID := i, t_CreatedAt := t\<rparr>) ts) \<noteq> None" for i ts
    using rdy by (simp add: transfer_ready_def transfer_event_def)
  ultimately obtain w4 where "InsertEvent E ''transfer.events'' (transfer_event ((new_transfer req key)\<lparr>t_ID := ?i, t_CreatedAt := t\<rparr>)
      (format_RFC3339 E (time_Now E (tick w3)))) (w3\<lparr>tick := Suc (tick w3)\<rparr>) = (Inr (), w4)"
    using js by blast
  then show ?thesis
    by (simp add: record_transfer_def mbind_def mwrap_def mret_def mclock_def ins led Let_def)
qed

lemma ExecuteTransfer_run_ok:
  assumes rdy: "transfer_ready E req key s r w"
  shows "\<exists>t w'. ExecuteTransfer E req key w = (Inr t, w')"
proof -
  from rdy have f: "fault_free E" and n: "names_wallets E req s r (db (tx_begin E w))"
    and v: "validate_transfer req s r = Inr ()" and pos: "0 < sint (tr_Amount req)"
    by (auto simp: transfer_ready_def)
  from lock_wallets_run [OF f n] obtain p where
    p: "lock_wallets E req (tx_begin E w) = (Inr p, (tx_begin E w)\<lparr>tick := Suc (Suc (tick (tx_begin E w)))\<rparr>)"
      "map_back req p = (scan_locked s, scan_locked r)" by blast
  let ?w1 = "(tx_begin E w)\<lparr>tick := Suc (Suc (tick (tx_begin E w)))\<rparr>"
  from update_balances_run [OF rdy, of ?w1] obtain w2 where
    u: "update_balances E (tr_Amount req) (scan_locked s) (scan_locked r) ?w1 = (Inr (), w2)"
    and w2: "tick w2 = tick w + 5" "db w2 = (db w)\<lparr>wallets := move_funds s r (tr_Amount req) (wallets (db w))\<rparr>" by simp
  from record_transfer_run [OF rdy w2] obtain t w3 where
    "record_transfer E req key (scan_locked s) (scan_locked r) w2 = (Inr t, w3)" by blast
  with p u v have "transfer_body E req key (tx_begin E w) = (Inr t, w3)"
    by (simp add: transfer_body_def transfer_locked_def mbind_def)
  from withTx_run [of E "transfer_body E req key" w, OF f this] n pos show ?thesis
    by (simp add: ExecuteTransfer_def transfer_run_def names_wallets_def)
qed


section \<open>Properties\<close>

text \<open>A transfer of 30 from the first wallet of the concrete state to the second.\<close>

definition demo_transfer :: CreateTransferRequest where
  "demo_transfer = \<lparr>tr_SourceWalletID = ''wallet-a'', tr_DestinationWalletID = ''wallet-b'', tr_Amount = 30, tr_Currency = ''USD''\<rparr>"

definition demo_result :: "(error + Transfer) \<times> world" where
  "demo_result = ExecuteTransfer demo_env demo_transfer ''key-1'' demo_world"

lemma demo_result_run:
  "ExecuteTransfer demo_env demo_transfer ''key-1'' demo_world = (Inr (projr (fst demo_result)), snd demo_result)"
proof -
  have "\<not> isl (fst demo_result)" by code_simp
  then show ?thesis by (cases "fst demo_result") (auto simp: demo_result_def prod_eq_iff)
qed

lemma demo_invariants [simp]:
  "wallet_ids_distinct (db demo_world)" "balances_nonneg (db demo_world)" "wallet_ledger_inv demo_env (db demo_world)"
  by code_simp+

lemma demo_ledger_balanced [simp]: "ledger_balanced (db demo_world)"
  by (simp add: demo_world_def demo_db_def demo_entry_def ledger_balanced_def entry_ok_def of_transaction_def const_defs)

text \<open>
  C2: refinement. A transfer that succeeds, whose source identifier is given in canonical form,
  does to the balances exactly what the specification says: the amount leaves the source and
  arrives at the destination, all other balances stay, and the guard of the specification (two
  different wallets that exist, a positive amount the source has) held before.
\<close>

theorem transfer_refines:
  assumes "uuid_canonical E" and "uuid_in E (tr_SourceWalletID req) = Some (tr_SourceWalletID req)"
    and "ExecuteTransfer E req key w = (Inr t, w')"
  shows "\<exists>dst. uuid_in E (tr_DestinationWalletID req) = Some dst \<and>
    abs_transfer (tr_SourceWalletID req) dst (sint (tr_Amount req)) (abs_balances (db w)) = Some (abs_balances (db w'))"
proof -
  from ExecuteTransfer_Inr [OF assms(1,3)] obtain s r where
    app: "transfer_applied E req key s r (db w) (db w')" and deb: "debited_id E req = Some (w_ID s)" by blast
  have "debited_id E req = uuid_in E (tr_SourceWalletID req)"
    using assms(2) by (simp add: debited_id_eq [OF assms(1)])
  from transfer_applied_direction [OF app deb this] transfer_applied_abs [OF app] assms(2) show ?thesis by auto
qed

theorem transfer_refines_witness:
  "\<exists>dst. uuid_in demo_env ''wallet-b'' = Some dst \<and>
    abs_transfer ''wallet-a'' dst 30 (abs_balances demo_db) = Some (abs_balances (db (snd demo_result)))"
proof -
  have "uuid_in demo_env (tr_SourceWalletID demo_transfer) = Some (tr_SourceWalletID demo_transfer)" by code_simp
  from transfer_refines [OF demo_env_canonical this demo_result_run]
  show ?thesis by (simp add: demo_transfer_def demo_world_def)
qed

text \<open>
  C8: atomicity. Whatever the outcome of \<open>ExecuteTransfer\<close> (success, refusal, a failed statement, a
  lost connection, a commit whose acknowledgement is lost), the database is either the old one or
  the old one with the whole transfer applied: both balances, the transfer row, the ledger
  transaction with its two entries and the outbox event, under the guards of the code.
\<close>

theorem transfer_atomic:
  assumes "uuid_canonical E" and "ExecuteTransfer E req key w = (res, w')"
  shows "db w' = db w \<or> (\<exists>s r. transfer_applied E req key s r (db w) (db w'))"
  using ExecuteTransfer_atomic [OF assms] by blast

theorem transfer_atomic_witness:
  "db (snd demo_result) = demo_db \<or>
   (\<exists>s r. transfer_applied demo_env demo_transfer ''key-1'' s r demo_db (db (snd demo_result)))"
  using transfer_atomic [OF demo_env_canonical demo_result_run] by (simp add: demo_world_def)

text \<open>
  Conservation. No run of \<open>ExecuteTransfer\<close>, whatever its outcome, changes the sum of the
  available balances.
\<close>

lemma transfer_conserves_total:
  assumes "uuid_canonical E" and "wallet_ids_distinct (db w)" and "ExecuteTransfer E req key w = (res, w')"
  shows "total_available (db w') = total_available (db w)"
  using ExecuteTransfer_atomic [OF assms(1,3)] transfer_applied_total assms(2) by metis

lemma transfer_conserves_total_witness: "total_available (db (snd demo_result)) = 150"
proof -
  have "total_available (db demo_world) = 150" by code_simp
  with transfer_conserves_total [OF demo_env_canonical _ demo_result_run] show ?thesis by simp
qed

text \<open>
  No overdraft. No run of \<open>ExecuteTransfer\<close> makes a balance negative.
\<close>

lemma transfer_no_overdraft:
  assumes "uuid_canonical E" and "balances_nonneg (db w)" and "ExecuteTransfer E req key w = (res, w')"
  shows "balances_nonneg (db w')"
  using ExecuteTransfer_atomic [OF assms(1,3)] transfer_applied_nonneg assms(2) by metis

lemma transfer_no_overdraft_witness: "balances_nonneg (db (snd demo_result))"
  by (rule transfer_no_overdraft [OF demo_env_canonical _ demo_result_run]) simp

text \<open>
  The books. Every run of \<open>ExecuteTransfer\<close> keeps the ledger balanced (per transaction, hence in
  total) and keeps each wallet's balance equal to the net of the ledger entries of its account.
\<close>

lemma transfer_keeps_books:
  assumes "uuid_canonical E" and "ledger_balanced (db w)" and "wallet_ledger_inv E (db w)"
    and "ExecuteTransfer E req key w = (res, w')"
  shows "ledger_balanced (db w') \<and> debits (ledger_entries (db w')) = credits (ledger_entries (db w')) \<and>
    wallet_ledger_inv E (db w')"
proof -
  from ExecuteTransfer_atomic [OF assms(1,4)] have "ledger_balanced (db w') \<and> wallet_ledger_inv E (db w')"
    using transfer_applied_balanced transfer_applied_wallet_ledger assms(2,3) by metis
  then show ?thesis using ledger_balanced_total by blast
qed

lemma transfer_keeps_books_witness:
  "ledger_balanced (db (snd demo_result)) \<and> wallet_ledger_inv demo_env (db (snd demo_result))"
  using transfer_keeps_books [OF demo_env_canonical _ _ demo_result_run] by simp

text \<open>
  C14: the refusals. Without faults a request that names two existing wallets and a positive amount
  is refused with the error of the first validation it fails, in the order status, currency,
  funds; the database is unchanged and one failure is counted.
\<close>

theorem transfer_refusals:
  assumes "fault_free E" and "names_wallets E req s r (db w)" and "0 < sint (tr_Amount req)" and "tx_start w = None"
    and "e = (if w_Status s \<noteq> ''ACTIVE'' \<or> w_Status r \<noteq> ''ACTIVE'' then ErrorsNew ''one or both wallets are not active''
              else if w_Currency s \<noteq> tr_Currency req \<or> w_Currency r \<noteq> tr_Currency req then ErrCurrencyMismatch
              else ErrInsufficientFunds)"
    and "w_Status s = ''ACTIVE'' \<and> w_Status r = ''ACTIVE'' \<and> w_Currency s = tr_Currency req \<and> w_Currency r = tr_Currency req \<Longrightarrow>
      sint (w_AvailableBalance s) < sint (tr_Amount req)"
  shows "ExecuteTransfer E req key w = (Inl e, w\<lparr>tick := tick w + 3, metrics := RecordTransfer False (metrics w)\<rparr>)"
proof (rule ExecuteTransfer_refused [OF assms(1-3) _ assms(4)])
  show "validate_transfer req s r = Inl e"
    using assms(5,6) by (auto simp: validate_transfer_def wallets_StatusActive_def)
qed

theorem transfer_refusals_witness:
  "fst (ExecuteTransfer demo_env (demo_transfer\<lparr>tr_Amount := 101\<rparr>) ''key-1'' demo_world) = Inl ErrInsufficientFunds"
proof -
  let ?req = "demo_transfer\<lparr>tr_Amount := 101\<rparr>"
  let ?s = "demo_wallet ''wallet-a'' ''alice'' ''acc-a'' 100" and ?r = "demo_wallet ''wallet-b'' ''bob'' ''acc-b'' 50"
  have "names_wallets demo_env ?req ?s ?r (db demo_world)" "0 < sint (tr_Amount ?req)" by code_simp+
  from transfer_refusals [OF _ this, of ErrInsufficientFunds "''key-1''"] show ?thesis
    by (simp add: demo_wallet_def demo_transfer_def fault_free_def demo_env_def demo_world_def)
qed

text \<open>
  C13: progress. A request for which the code's conditions hold (two active wallets of the currency,
  enough funds, room for the credit, a taken key, no faults, fresh identifiers) is executed.
\<close>

theorem transfer_goes_through:
  assumes "transfer_ready E req key s r w"
  shows "\<exists>t w'. ExecuteTransfer E req key w = (Inr t, w')"
  using ExecuteTransfer_run_ok [OF assms] .

theorem transfer_goes_through_witness:
  "\<exists>t w'. ExecuteTransfer demo_env demo_transfer ''key-1'' demo_world = (Inr t, w')"
proof (rule transfer_goes_through)
  have f: "fault_free demo_env" by (simp add: fault_free_def demo_env_def)
  have i: "ids_fresh demo_env demo_world"
    by (auto simp: ids_fresh_def inj_on_def demo_env_def demo_world_def demo_db_def empty_db_def demo_entry_def
        ascii_lower_def Let_def)
  have j: "\<forall>ts i. jsonb_in demo_env (transfer_event ((new_transfer demo_transfer ''key-1'')\<lparr>t_ID := i\<rparr>) ts) \<noteq> None"
    by (simp add: demo_env_def)
  show "transfer_ready demo_env demo_transfer ''key-1'' (demo_wallet ''wallet-a'' ''alice'' ''acc-a'' 100)
      (demo_wallet ''wallet-b'' ''bob'' ''acc-b'' 50) demo_world"
    unfolding transfer_ready_def by (intro conjI f i j) code_simp+
qed

text \<open>
  Direction. The wallet that is debited is the one the request names as its source if and only if
  the source's identifier is in canonical form or the source is locked second; otherwise it is
  the destination.
\<close>

lemma transfer_direction:
  assumes "uuid_canonical E" and "ExecuteTransfer E req key w = (Inr t, w')"
  shows "\<exists>s r. transfer_applied E req key s r (db w) (db w') \<and>
    (if uuid_in E (tr_SourceWalletID req) = Some (tr_SourceWalletID req) \<or> tr_DestinationWalletID req < tr_SourceWalletID req
     then uuid_in E (tr_SourceWalletID req) = Some (w_ID s) \<and> uuid_in E (tr_DestinationWalletID req) = Some (w_ID r)
     else uuid_in E (tr_DestinationWalletID req) = Some (w_ID s) \<and> uuid_in E (tr_SourceWalletID req) = Some (w_ID r))"
proof -
  from ExecuteTransfer_Inr [OF assms] obtain s r where
    app: "transfer_applied E req key s r (db w) (db w')" and deb: "debited_id E req = Some (w_ID s)" by blast
  moreover from app have "{Some (w_ID s), Some (w_ID r)} = {uuid_in E (tr_SourceWalletID req), uuid_in E (tr_DestinationWalletID req)}"
    by (simp add: transfer_applied_def transfer_guard_def)
  ultimately show ?thesis
    by (intro exI [of _ s] exI [of _ r]) (auto simp: debited_id_eq [OF assms(1)] doubleton_eq_iff split: if_splits)
qed

lemma transfer_direction_witness:
  "\<exists>s r. transfer_applied demo_env demo_transfer ''key-1'' s r demo_db (db (snd demo_result)) \<and>
     w_ID s = ''wallet-a'' \<and> w_ID r = ''wallet-b''"
proof -
  have "uuid_in demo_env (tr_SourceWalletID demo_transfer) = Some ''wallet-a''" "tr_SourceWalletID demo_transfer = ''wallet-a''"
    "uuid_in demo_env (tr_DestinationWalletID demo_transfer) = Some ''wallet-b''" by code_simp+
  with transfer_direction [OF demo_env_canonical demo_result_run] show ?thesis
    by (simp add: demo_world_def) metis
qed

text \<open>
  The wrong wallet. The same transfer, with the source's identifier written in upper case, is
  accepted and debits the destination: the first wallet gains the 30 that the second one loses.
\<close>

lemma transfer_wrong_wallet:
  "case ExecuteTransfer demo_env (demo_transfer\<lparr>tr_SourceWalletID := ''WALLET-A''\<rparr>) ''key-1'' demo_world of (res, w') \<Rightarrow>
     \<not> isl res \<and> abs_balances demo_db ''wallet-a'' = Some 100 \<and> abs_balances (db w') ''wallet-a'' = Some 130 \<and>
     abs_balances demo_db ''wallet-b'' = Some 50 \<and> abs_balances (db w') ''wallet-b'' = Some 20"
  by code_simp

text \<open>
  One global lock order. A transfer and the transfer in the opposite direction lock their
  wallets in the same order, and that order is increasing in the identifiers of the requests.
\<close>

lemma transfer_lock_order:
  "lock_order \<lparr>tr_SourceWalletID = a, tr_DestinationWalletID = b, tr_Amount = x, tr_Currency = c\<rparr> =
   lock_order \<lparr>tr_SourceWalletID = b, tr_DestinationWalletID = a, tr_Amount = y, tr_Currency = c'\<rparr> \<and>
   fst (lock_order req) \<le> snd (lock_order req) \<and>
   {fst (lock_order req), snd (lock_order req)} = {tr_SourceWalletID req, tr_DestinationWalletID req}"
  by (auto simp: lock_order_def)

text \<open>
  Errors. When the caller sees an error, and it is not the one of a commit whose
  acknowledgement was lost, the database is unchanged and exactly one failure has been counted.
\<close>

lemma transfer_error_no_effect:
  assumes "ExecuteTransfer E req key w = (Inl e, w')"
    and "\<And>n msg. commit_result E n = CommitUnknown msg \<Longrightarrow> e \<noteq> DriverError msg"
  shows "db w' = db w \<and> TransfersTotal (metrics w') = (TransfersTotal (metrics w))(''failure'' := Suc (TransfersTotal (metrics w) ''failure''))"
  using ExecuteTransfer_Inl [OF assms] ExecuteTransfer_metrics [OF assms(1)] by (simp add: RecordTransfer_def)

lemma transfer_error_no_effect_witness:
  "db (snd (ExecuteTransfer demo_env (demo_transfer\<lparr>tr_Amount := 0\<rparr>) ''key-1'' demo_world)) = demo_db"
proof -
  let ?r = "ExecuteTransfer demo_env (demo_transfer\<lparr>tr_Amount := 0\<rparr>) ''key-1'' demo_world"
  have "isl (fst ?r)" by code_simp
  then have "?r = (Inl (projl (fst ?r)), snd ?r)" by (cases "fst ?r") (auto simp: prod_eq_iff)
  from transfer_error_no_effect [OF this] show ?thesis by (simp add: demo_env_def demo_world_def)
qed

end
