(* ===== verification/Transfer_Handler.thy ===== *)
theory Transfer_Handler
  imports Transfer_Correctness
begin

text \<open>
  \<open>POST /transfers\<close>: the handler of \<open>internal/transfers/handler.go\<close>, which puts the idempotency
  protocol and the ownership check around \<open>ExecuteTransfer\<close>. The locale states what it relies on of
  the idempotency repository; from it follows that a key pays for at most one transfer, over any
  sequence of requests and any faults.
\<close>

section \<open>Model\<close>

definition decode_CreateTransferRequest :: "json \<Rightarrow> error + CreateTransferRequest" where
  "decode_CreateTransferRequest j =
     rbind (json_fields j) (\<lambda>kvs.
     rbind (string_field ''source_wallet_id'' '''' kvs) (\<lambda>src.
     rbind (string_field ''destination_wallet_id'' '''' kvs) (\<lambda>dst.
     rbind (int64_field ''amount'' 0 kvs) (\<lambda>amount.
     rbind (string_field ''currency'' '''' kvs) (\<lambda>currency.
       Inr \<lparr>tr_SourceWalletID = src, tr_DestinationWalletID = dst, tr_Amount = amount, tr_Currency = currency\<rparr>)))))"

definition json_of_CreateTransferRequest :: "CreateTransferRequest \<Rightarrow> json" where
  "json_of_CreateTransferRequest req = JObject
     [(''source_wallet_id'', JString (tr_SourceWalletID req)),
      (''destination_wallet_id'', JString (tr_DestinationWalletID req)),
      (''amount'', JInt (sint (tr_Amount req))), (''currency'', JString (tr_Currency req))]"

definition json_of_Transfer :: "env \<Rightarrow> Transfer \<Rightarrow> json" where
  "json_of_Transfer E t = JObject
     [(''id'', JString (t_ID t)), (''source_wallet_id'', JString (t_SourceWalletID t)),
      (''destination_wallet_id'', JString (t_DestinationWalletID t)), (''amount'', JInt (sint (t_Amount t))),
      (''currency'', JString (t_Currency t)), (''status'', JString (t_Status t)),
      (''idempotency_key'', JString (t_IdempotencyKey t)),
      (''created_at'', JString (time_MarshalJSON E (t_CreatedAt t)))]"

definition forbidden_payload :: json where
  "forbidden_payload = JObject [(''error'', JString ''unauthorized access to source wallet'')]"

definition error_payload :: "env \<Rightarrow> error \<Rightarrow> json" where
  "error_payload E e = JObject [(''error'', JString (error_text (lib_error_text E) e))]"

text \<open>The reply from a completed record; no payload writes no bytes.\<close>

definition cached_response :: "KeyRecord \<Rightarrow> response" where
  "cached_response rec =
     \<lparr>resp_status = kr_ResponseStatus rec,
      resp_body = (case kr_ResponsePayload rec of None \<Rightarrow> NoBody | Some j \<Rightarrow> JsonBody j)\<rparr>"

text \<open>The call of \<open>Complete\<close> whose error is dropped.\<close>

definition complete_ignored :: "env \<Rightarrow> string \<Rightarrow> json \<Rightarrow> int \<Rightarrow> world \<Rightarrow> world" where
  "complete_ignored E key payload status w = snd (Complete E key payload status w)"

text \<open>\<open>sourceWallet.OwnerID != claims.UserID && claims.Role != RoleSystem\<close>, or the lookup failed.\<close>

definition may_spend :: "JWTClaims \<Rightarrow> error + Wallet \<Rightarrow> bool" where
  "may_spend claims r =
     (case r of Inl _ \<Rightarrow> False | Inr wallet \<Rightarrow> w_OwnerID wallet = c_UserID claims \<or> c_Role claims = RoleSystem)"

text \<open>The part of the handler that runs once the key is ours.\<close>

definition transfer_acquired :: "env \<Rightarrow> JWTClaims \<Rightarrow> CreateTransferRequest \<Rightarrow> string \<Rightarrow> world \<Rightarrow> response \<times> world" where
  "transfer_acquired E claims req idemKey w =
     (case GetWalletByID E (tr_SourceWalletID req) w of
        (r, w1) \<Rightarrow>
          (if \<not> may_spend claims r
           then (http_Error (TextBody ''forbidden'') 403, complete_ignored E idemKey forbidden_payload 403 w1)
           else case ExecuteTransfer E req idemKey w1 of
                  (Inl e, w2) \<Rightarrow>
                    (http_Error (ErrorBody e) 400, complete_ignored E idemKey (error_payload E e) 400 w2)
                | (Inr transfer, w2) \<Rightarrow>
                    (\<lparr>resp_status = 201, resp_body = JsonBody (json_of_Transfer E transfer)\<rparr>,
                     complete_ignored E idemKey (json_of_Transfer E transfer) 201 w2)))"

definition HandleTransfer :: "env \<Rightarrow> handler" where
  "HandleTransfer E rq w =
     (case rq_claims rq of
        None \<Rightarrow> (http_Error (TextBody ''unauthorized'') 401, w)
      | Some claims \<Rightarrow>
          (let idemKey = rq_header rq ''Idempotency-Key'' in
           if idemKey = '''' then (http_Error (TextBody ''Idempotency-Key header is required'') 400, w)
           else case rbind (decode_body rq) decode_CreateTransferRequest of
                  Inl _ \<Rightarrow> (http_Error (TextBody ''invalid request body'') 400, w)
                | Inr req \<Rightarrow>
                    (case TryAcquire E idemKey (json_of_CreateTransferRequest req) w of
                       (Inl e, w1) \<Rightarrow>
                         (if e = ErrKeyInProgress then (http_Error (ErrorBody e) 409, w1)
                          else (http_Error (TextBody ''internal server error'') 500, w1))
                     | (Inr (Some rec), w1) \<Rightarrow> (cached_response rec, w1)
                     | (Inr None, w1) \<Rightarrow> transfer_acquired E claims req idemKey w1)))"

section \<open>The contract of the idempotency repository\<close>

text \<open>Every transfer has a key that was taken, and no two share one.\<close>

definition transfer_keys_ok :: "db \<Rightarrow> bool" where
  "transfer_keys_ok d \<longleftrightarrow>
     distinct (map t_IdempotencyKey (transfers d)) \<and>
     t_IdempotencyKey ` set (transfers d) \<subseteq> ik_Key ` set (idempotency_keys d)"

text \<open>The state after completing a key, up to the payload stored.\<close>

definition key_completed :: "string \<Rightarrow> db \<Rightarrow> db \<Rightarrow> bool" where
  "key_completed key d d' \<longleftrightarrow>
     (\<exists>pl st. d' = d\<lparr>idempotency_keys := update_where ik_Key key (complete_key pl st) (idempotency_keys d)\<rparr>)"

locale idempotency_repository =
  fixes E :: env
    and acquire :: "string \<Rightarrow> json \<Rightarrow> KeyRecord option M"
    and complete :: "string \<Rightarrow> json \<Rightarrow> int \<Rightarrow> unit M"
  assumes acquire_new: "acquire key p w = (Inr None, w') \<Longrightarrow> key_taken E key p (db w) (db w')"
    and acquire_any: "acquire key p w = (r, w') \<Longrightarrow> db w' = db w \<or> key_taken E key p (db w) (db w')"
    and complete_any: "complete key p st w = (r', w') \<Longrightarrow> db w' = db w \<or> key_completed key (db w) (db w')"
begin

lemma key_taken_keys:
  "key_taken E key p d d' \<Longrightarrow> transfer_keys_ok d \<Longrightarrow> transfer_keys_ok d'"
  unfolding key_taken_def transfer_keys_ok_def by (elim exE conjE) (simp add: subset_insertI2)

lemma key_taken_frame:
  "key_taken E key p d d' \<Longrightarrow> transfers d' = transfers d \<and> wallets d' = wallets d"
  by (auto simp: key_taken_def)

lemma acquire_keeps:
  assumes "acquire key p w = (r, w')" and "transfer_keys_ok (db w)"
  shows "transfer_keys_ok (db w') \<and> transfers (db w') = transfers (db w) \<and> wallets (db w') = wallets (db w)"
  using acquire_any [OF assms(1)] key_taken_keys key_taken_frame assms(2) by metis

lemma acquire_unused:
  assumes "acquire key p w = (Inr None, w')" and "transfer_keys_ok (db w)"
  shows "\<exists>k. varchar_in E 255 key = Some k \<and> k \<notin> t_IdempotencyKey ` set (transfers (db w'))"
  using acquire_new [OF assms(1)] assms(2) by (auto simp: key_taken_def transfer_keys_ok_def)

lemma complete_keeps:
  assumes "complete key p st w = (r, w')" and "transfer_keys_ok (db w)"
  shows "transfer_keys_ok (db w') \<and> transfers (db w') = transfers (db w) \<and> wallets (db w') = wallets (db w)"
proof -
  have "ik_Key ` set (update_where ik_Key key (complete_key pl s) ks) = ik_Key ` set ks" for pl s ks
    by (rule image_update_where) (simp add: complete_key_def)
  with complete_any [OF assms(1)] assms(2) show ?thesis
    unfolding key_completed_def transfer_keys_ok_def by (elim disjE exE) simp_all
qed

text \<open>The key acquired is good for one transfer.\<close>

lemma acquired_once:
  assumes "acquire key p w = (Inr None, w')" and "transfer_keys_ok (db w)"
    and "transfers d' = transfers (db w') @ [row]" and "idempotency_keys d' = idempotency_keys (db w')"
    and "varchar_in E 255 key = Some (t_IdempotencyKey row)"
    and "t_IdempotencyKey row \<in> ik_Key ` set (idempotency_keys (db w'))"
  shows "transfer_keys_ok d'"
  using acquire_keeps [OF assms(1,2)] acquire_unused [OF assms(1,2)] assms(3-)
  by (auto simp: transfer_keys_ok_def)

end

lemma sql_complete_key_Inr:
  "sql_complete_key E key p st u t d = Inr (x, d') \<Longrightarrow> key_completed key d d'"
  by (auto simp: sql_complete_key_def run_simps key_completed_def)

lemma Complete_db:
  "Complete E key p st w = (r, w') \<Longrightarrow> db w' = db w \<or> key_completed key (db w) (db w')"
  unfolding Complete_def
  by (cases r) (auto simp: run_simps dest!: sql_InlD dest: sql_complete_key_Inr)

interpretation idemRepo: idempotency_repository E "TryAcquire E" "Complete E" for E
proof
  fix key p w w'
  assume "TryAcquire E key p w = (Inr None, w')"
  then show "key_taken E key p (db w) (db w')" by (rule TryAcquire_cases) auto
next
  fix key p w r w'
  assume "TryAcquire E key p w = (r, w')"
  then show "db w' = db w \<or> key_taken E key p (db w) (db w')" by (rule TryAcquire_cases) auto
qed (rule Complete_db)

section \<open>Runs of the handler\<close>

lemma complete_ignored_keeps:
  assumes "transfer_keys_ok (db w)"
  shows "transfer_keys_ok (db (complete_ignored E key p st w)) \<and>
    transfers (db (complete_ignored E key p st w)) = transfers (db w) \<and>
    wallets (db (complete_ignored E key p st w)) = wallets (db w)"
  unfolding complete_ignored_def
  by (rule idemRepo.complete_keeps [OF surjective_pairing assms])

lemma transfer_applied_transfers:
  assumes "transfer_applied E req key s r d d'"
  shows "\<exists>row. transfers d' = transfers d @ [row] \<and> idempotency_keys d' = idempotency_keys d \<and>
    varchar_in E 255 key = Some (t_IdempotencyKey row) \<and> t_IdempotencyKey row \<in> ik_Key ` set (idempotency_keys d)"
  using assms unfolding transfer_applied_def transfer_rows_def by (elim exE conjE) auto

text \<open>What the handler does after it has acquired the key: the owner check, then at most one transfer.\<close>

lemma transfer_acquired_cases:
  assumes canon: "uuid_canonical E" and run: "transfer_acquired E claims req key w = (resp, w')"
  obtains
    (unchanged) w1 pl st where "w' = complete_ignored E key pl st w1" "db w1 = db w"
  | (applied) w1 pl st s r x where "w' = complete_ignored E key pl st w1"
      "transfer_applied E req key s r (db w) (db w1)" "debited_id E req = Some (w_ID s)"
      "uuid_in E (tr_SourceWalletID req) = Some (w_ID x)" "row_with w_ID (w_ID x) (wallets (db w)) = Some x"
      "w_OwnerID x = c_UserID claims \<or> c_Role claims = RoleSystem"
proof (cases "GetWalletByID E (tr_SourceWalletID req) w")
  case (Pair r1 w1)
  then have w1: "db w1 = db w" by (auto dest: GetWalletByID_reads)
  show thesis
  proof (cases "may_spend claims r1")
    case False
    with Pair run have "w' = complete_ignored E key forbidden_payload 403 w1" by (simp add: transfer_acquired_def)
    with w1 unchanged show thesis by blast
  next
    case True
    then obtain x where x: "r1 = Inr x" "w_OwnerID x = c_UserID claims \<or> c_Role claims = RoleSystem"
      by (auto simp: may_spend_def split: sum.splits)
    with Pair have src: "uuid_in E (tr_SourceWalletID req) = Some (w_ID x)" "row_with w_ID (w_ID x) (wallets (db w)) = Some x"
      by (auto simp: GetWalletByID_Inr dest: row_with_SomeD)
    obtain res w2 where ex: "ExecuteTransfer E req key w1 = (res, w2)" by fastforce
    with True Pair run obtain pl st where w': "w' = complete_ignored E key pl st w2"
      by (auto simp: transfer_acquired_def split: sum.splits)
    from ExecuteTransfer_atomic [OF canon ex] w' x src w1 unchanged applied show thesis by metis
  qed
qed

lemma HandleTransfer_cases:
  assumes "HandleTransfer E rq w = (resp, w')"
  obtains
    (refused) "w' = w"
  | (not_acquired) req r where
      "TryAcquire E (rq_header rq ''Idempotency-Key'') (json_of_CreateTransferRequest req) w = (r, w')"
  | (acquired) claims req w1 where "rq_claims rq = Some claims"
      "rbind (decode_body rq) decode_CreateTransferRequest = Inr req"
      "TryAcquire E (rq_header rq ''Idempotency-Key'') (json_of_CreateTransferRequest req) w = (Inr None, w1)"
      "transfer_acquired E claims req (rq_header rq ''Idempotency-Key'') w1 = (resp, w')"
  using assms
  by (auto simp: HandleTransfer_def Let_def split: option.splits if_splits sum.splits prod.splits)

section \<open>Replay\<close>

lemma sql_insert_key_taken:
  assumes "varchar_in E 255 key = Some key" and "key \<in> ik_Key ` set (idempotency_keys d)"
  shows "\<exists>e. sql_insert_key E key p u t d = Inl e"
  using assms
  by (cases "jsonb_in E p") (auto simp: sql_insert_key_def varchar_def jsonb_def exec_stmt_def insert_defs checked.simps)

lemma TryAcquire_found:
  assumes "fault_free E" and "varchar_in E 255 key = Some key"
    and "row_with ik_Key key (idempotency_keys (db w)) = Some row"
  shows "TryAcquire E key p w =
    (if ik_Status row = idem_StatusInProgress then Inl ErrKeyInProgress else Inr (Some (key_record row)),
     w\<lparr>tick := Suc (Suc (tick w))\<rparr>)"
proof -
  from assms(3) have "key \<in> ik_Key ` set (idempotency_keys (db w))" by (auto dest: row_with_SomeD)
  from sql_insert_key_taken [OF assms(2) this] obtain e where
    "sql_insert_key E key p (gen_random_uuid E (tick w)) (NOW E w) (db w) = Inl e" by blast
  from sql_run_err [where st = "sql_insert_key E key p", OF assms(1) this] assms(1,3) show ?thesis
    by (simp add: TryAcquire_def mbind_def mtry_def mret_def mfail_def sql_run sql_select_key_def key_record_def)
qed

text \<open>A request whose key is known is answered from the record, whatever its body says.\<close>

definition well_formed_transfer_request :: "env \<Rightarrow> request \<Rightarrow> bool" where
  "well_formed_transfer_request E rq \<longleftrightarrow>
     rq_claims rq \<noteq> None \<and> rq_header rq ''Idempotency-Key'' \<noteq> '''' \<and>
     \<not> isl (rbind (decode_body rq) decode_CreateTransferRequest)"

lemma HandleTransfer_found:
  assumes "fault_free E" and "well_formed_transfer_request E rq" and "key = rq_header rq ''Idempotency-Key''"
    and "varchar_in E 255 key = Some key" and "row_with ik_Key key (idempotency_keys (db w)) = Some row"
  shows "HandleTransfer E rq w =
    (if ik_Status row = idem_StatusInProgress then http_Error (ErrorBody ErrKeyInProgress) 409
     else cached_response (key_record row), w\<lparr>tick := Suc (Suc (tick w))\<rparr>)"
  using assms TryAcquire_found [OF assms(1,4,5)]
  by (auto simp: HandleTransfer_def well_formed_transfer_request_def Let_def split: sum.splits)

text \<open>The record that a first, successful request leaves behind.\<close>

lemma Complete_run:
  assumes "fault_free E" and "jsonb_in E p = Some pl"
  shows "Complete E key p st w = (Inr (), w\<lparr>db := (db w)\<lparr>idempotency_keys :=
    update_where ik_Key key (complete_key pl st) (idempotency_keys (db w))\<rparr>, tick := Suc (tick w)\<rparr>)"
  unfolding Complete_def by (rule sql_run [OF assms(1)]) (simp add: sql_complete_key_def jsonb_def assms(2))

lemma key_taken_row:
  assumes "key_taken E key p d d'" and "varchar_in E 255 key = Some key"
  shows "\<exists>row. row_with ik_Key key (idempotency_keys d') = Some row \<and> ik_Status row = idem_StatusInProgress"
  using assms by (auto simp: key_taken_def row_with_append row_with_None_iff [symmetric])

text \<open>An unknown key is either acquired or an error; it is never answered from a record.\<close>

lemma TryAcquire_new:
  assumes "varchar_in E 255 key = Some key" and "key \<notin> ik_Key ` set (idempotency_keys (db w))"
  shows "TryAcquire E key p w \<noteq> (Inr (Some rec), w')"
proof
  assume "TryAcquire E key p w = (Inr (Some rec), w')"
  then show False
    using assms key_taken_row [of E key p "db w" "db w'"]
    by (cases rule: TryAcquire_cases) (auto simp: row_with_None_iff [symmetric])
qed

lemma HandleTransfer_201:
  assumes key: "key = rq_header rq ''Idempotency-Key''" "varchar_in E 255 key = Some key"
    and new: "key \<notin> ik_Key ` set (idempotency_keys (db w))"
    and run: "HandleTransfer E rq w = (resp, w')" and st: "resp_status resp = 201"
  obtains claims req w1 where "TryAcquire E key (json_of_CreateTransferRequest req) w = (Inr None, w1)"
    "transfer_acquired E claims req key w1 = (resp, w')"
  using assms TryAcquire_new [OF key(2) new]
  by (auto simp: HandleTransfer_def Let_def http_Error_def split: option.splits if_splits sum.splits prod.splits)

lemma HandleTransfer_created:
  assumes ff: "fault_free E" and canon: "uuid_canonical E" and js: "\<And>j. resp_body resp = JsonBody j \<Longrightarrow> jsonb_in E j \<noteq> None"
    and key: "key = rq_header rq ''Idempotency-Key''" "varchar_in E 255 key = Some key"
    and new: "key \<notin> ik_Key ` set (idempotency_keys (db w))"
    and run: "HandleTransfer E rq w = (resp, w')" and st: "resp_status resp = 201"
  shows "\<exists>j pl row. resp_body resp = JsonBody j \<and> jsonb_in E j = Some pl \<and>
    row_with ik_Key key (idempotency_keys (db w')) = Some row \<and> ik_Status row = idem_StatusCompleted \<and>
    ik_ResponsePayload row = Some pl \<and> ik_ResponseStatus row = Some 201"
proof -
  from HandleTransfer_201 [OF key new run st] obtain claims req w1 where
    acq: "TryAcquire E key (json_of_CreateTransferRequest req) w = (Inr None, w1)"
    and rest: "transfer_acquired E claims req key w1 = (resp, w')" .
  from idemRepo.acquire_new [OF acq] key_taken_row [OF _ key(2)] obtain row where
    row: "row_with ik_Key key (idempotency_keys (db w1)) = Some row" by blast
  obtain r1 w2 where get: "GetWalletByID E (tr_SourceWalletID req) w1 = (r1, w2)" by fastforce
  then have w2: "db w2 = db w1" by (auto dest: GetWalletByID_reads)
  from rest get st obtain t w3 where ex: "ExecuteTransfer E req key w2 = (Inr t, w3)"
    and out: "resp = \<lparr>resp_status = 201, resp_body = JsonBody (json_of_Transfer E t)\<rparr>"
      "w' = complete_ignored E key (json_of_Transfer E t) 201 w3"
    by (auto simp: transfer_acquired_def http_Error_def split: if_splits prod.splits sum.splits)
  from js [of "json_of_Transfer E t"] out(1) obtain pl where pl: "jsonb_in E (json_of_Transfer E t) = Some pl" by auto
  have "idempotency_keys (db w3) = idempotency_keys (db w1)"
    using ExecuteTransfer_Inr [OF canon ex] transfer_applied_transfers w2 by metis
  then have "idempotency_keys (db w') = update_where ik_Key key (complete_key pl 201) (idempotency_keys (db w1))"
    by (simp add: out complete_ignored_def Complete_run [OF ff pl])
  with row pl show ?thesis
    by (simp add: out row_with_update_where complete_key_def)
qed


section \<open>Properties\<close>

definition owner_claims :: JWTClaims where
  "owner_claims = \<lparr>c_UserID = ''alice'', c_Role = RoleUser, c_ExpiresAt = 100, c_IssuedAt = 0, c_NotBefore = 0,
     c_Issuer = ''wallet-ledger'', c_Subject = ''alice''\<rparr>"

definition demo_request :: "string \<Rightarrow> request" where
  "demo_request key = \<lparr>rq_method = ''POST'', rq_path = [''api'', ''v1'', ''transfers''],
     rq_header = (\<lambda>h. if h = ''Idempotency-Key'' then key else ''''), rq_body = Some transfer_body_text,
     rq_id = '''', rq_remote_addr = '''', rq_claims = Some owner_claims\<rparr>"

definition demo_served :: "response \<times> world" where
  "demo_served = HandleTransfer demo_env (demo_request ''key-2'') demo_world"

text \<open>
  C23: replay. A request that created a transfer under a new key, repeated with that key (and any body
  that decodes), is answered with status 201 and the recorded document, and the database does not
  change.
\<close>

theorem transfer_replay:
  assumes "fault_free E" and "uuid_canonical E" and "\<And>j. resp_body resp = JsonBody j \<Longrightarrow> jsonb_in E j \<noteq> None"
    and "key = rq_header rq ''Idempotency-Key''" and "varchar_in E 255 key = Some key"
    and "key \<notin> ik_Key ` set (idempotency_keys (db w))"
    and "HandleTransfer E rq w = (resp, w1)" and "resp_status resp = 201"
    and "well_formed_transfer_request E rq'" and "rq_header rq' ''Idempotency-Key'' = key"
  shows "\<exists>j pl. resp_body resp = JsonBody j \<and> jsonb_in E j = Some pl \<and>
    HandleTransfer E rq' w1 = (\<lparr>resp_status = 201, resp_body = JsonBody pl\<rparr>, w1\<lparr>tick := tick w1 + 2\<rparr>)"
proof -
  from HandleTransfer_created [OF assms(1-8)] obtain j pl row where
    "resp_body resp = JsonBody j" "jsonb_in E j = Some pl"
    "row_with ik_Key key (idempotency_keys (db w1)) = Some row" "ik_Status row = idem_StatusCompleted"
    "ik_ResponsePayload row = Some pl" "ik_ResponseStatus row = Some 201" by blast
  with HandleTransfer_found [OF assms(1,9) assms(10) [symmetric] assms(5)] show ?thesis
    by (simp add: cached_response_def key_record_def const_defs)
qed

theorem transfer_replay_witness:
  "resp_status (fst (HandleTransfer demo_env (demo_request ''key-2'') (snd demo_served))) = 201 \<and>
   db (snd (HandleTransfer demo_env (demo_request ''key-2'') (snd demo_served))) = db (snd demo_served)"
proof -
  have run: "HandleTransfer demo_env (demo_request ''key-2'') demo_world = (fst demo_served, snd demo_served)"
    by (simp add: demo_served_def)
  have facts: "resp_status (fst demo_served) = 201" "''key-2'' \<notin> ik_Key ` set (idempotency_keys (db demo_world))"
    "well_formed_transfer_request demo_env (demo_request ''key-2'')" by code_simp+
  have ff: "fault_free demo_env" by (simp add: fault_free_def demo_env_def)
  have "\<exists>j pl. resp_body (fst demo_served) = JsonBody j \<and> jsonb_in demo_env j = Some pl \<and>
      HandleTransfer demo_env (demo_request ''key-2'') (snd demo_served) =
        (\<lparr>resp_status = 201, resp_body = JsonBody pl\<rparr>, (snd demo_served)\<lparr>tick := tick (snd demo_served) + 2\<rparr>)"
    by (rule transfer_replay [OF ff demo_env_canonical _ _ _ facts(2) run facts(1) facts(3)])
      (simp_all add: demo_env_def demo_request_def)
  then show ?thesis by auto
qed

text \<open>
  In progress. While the first request with a key has not completed, every other request with it
  is answered with 409 and changes nothing.
\<close>

lemma transfer_in_progress:
  assumes "fault_free E" and "well_formed_transfer_request E rq" and "key = rq_header rq ''Idempotency-Key''"
    and "varchar_in E 255 key = Some key" and "row_with ik_Key key (idempotency_keys (db w)) = Some row"
    and "ik_Status row = ''IN_PROGRESS''"
  shows "HandleTransfer E rq w = (http_Error (ErrorBody ErrKeyInProgress) 409, w\<lparr>tick := tick w + 2\<rparr>)"
  using HandleTransfer_found [OF assms(1-5)] assms(6) by (simp add: const_defs)

lemma transfer_in_progress_witness:
  "resp_status (fst (HandleTransfer demo_env (demo_request ''key-1'') demo_world)) = 409"
proof -
  let ?row = "hd (idempotency_keys demo_db)"
  have "well_formed_transfer_request demo_env (demo_request ''key-1'')"
    "row_with ik_Key ''key-1'' (idempotency_keys (db demo_world)) = Some ?row" "ik_Status ?row = ''IN_PROGRESS''" by code_simp+
  with transfer_in_progress [of demo_env "demo_request ''key-1''" "''key-1''" demo_world ?row] show ?thesis
    by (simp add: fault_free_def demo_env_def demo_request_def http_Error_def)
qed

text \<open>
  C19: authority. If a request changes any wallet, its caller is authenticated, a single transfer was
  applied, and the wallet named as its source belongs to the caller (unless the caller is \<open>SYSTEM\<close>). If
  the source is given in canonical form, that wallet is the one that was debited.
\<close>

theorem transfer_authority:
  assumes "uuid_canonical E" and "transfer_keys_ok (db w)" and "HandleTransfer E rq w = (resp, w')"
    and "wallets (db w') \<noteq> wallets (db w)"
  shows "\<exists>claims req s r x. rq_claims rq = Some claims \<and>
    rbind (decode_body rq) decode_CreateTransferRequest = Inr req \<and>
    wallets (db w') = move_funds s r (tr_Amount req) (wallets (db w)) \<and>
    uuid_in E (tr_SourceWalletID req) = Some (w_ID x) \<and> row_with w_ID (w_ID x) (wallets (db w)) = Some x \<and>
    (w_OwnerID x = c_UserID claims \<or> c_Role claims = RoleSystem) \<and>
    (uuid_in E (tr_SourceWalletID req) = Some (tr_SourceWalletID req) \<longrightarrow> s = x)"
  using assms(3)
proof (cases rule: HandleTransfer_cases)
  case refused
  with assms(4) show ?thesis by simp
next
  case (not_acquired req r)
  with idemRepo.acquire_keeps [OF this assms(2)] assms(4) show ?thesis by simp
next
  case (acquired claims req w1)
  note k = idemRepo.acquire_keeps [OF acquired(3) assms(2)]
  from assms(1) acquired(4) show ?thesis
  proof (cases rule: transfer_acquired_cases)
    case (unchanged w2 pl st)
    with k complete_ignored_keeps [of w2] assms(4) show ?thesis by simp
  next
    case (applied w2 pl st s r x)
    from transfer_applied_transfers [OF applied(2)] have "transfer_keys_ok (db w2)"
      using idemRepo.acquired_once [OF acquired(3) assms(2)] by metis
    then have w': "wallets (db w') = wallets (db w2)" using applied(1) complete_ignored_keeps by simp
    from applied(2) have mv: "wallets (db w2) = move_funds s r (tr_Amount req) (wallets (db w1))"
      and s: "row_with w_ID (w_ID s) (wallets (db w1)) = Some s"
      by (auto simp: transfer_applied_def transfer_guard_def)
    have "uuid_in E (tr_SourceWalletID req) = Some (tr_SourceWalletID req) \<longrightarrow> s = x"
    proof
      assume "uuid_in E (tr_SourceWalletID req) = Some (tr_SourceWalletID req)"
      then have "Some (w_ID s) = Some (w_ID x)"
        unfolding applied(3) [symmetric] applied(4) [symmetric] by (simp add: debited_id_eq [OF assms(1)])
      then have "w_ID s = w_ID x" by (rule option.inject [THEN iffD1])
      from s [unfolded this] show "s = x" unfolding applied(5) by (rule option.inject [THEN iffD1, THEN sym])
    qed
    with w' mv k acquired(1,2) applied(4-6) show ?thesis
      by (intro exI [of _ claims] exI [of _ req] exI [of _ s] exI [of _ r] exI [of _ x]) simp
  qed
qed

theorem transfer_authority_witness:
  "\<exists>(req :: CreateTransferRequest) s r x. wallets (db (snd demo_served)) = move_funds s r (tr_Amount req) (wallets demo_db) \<and>
     w_OwnerID x = ''alice'' \<and> row_with w_ID (w_ID x) (wallets demo_db) = Some x"
proof -
  have ch: "wallets (db (snd demo_served)) \<noteq> wallets (db demo_world)" and "transfer_keys_ok (db demo_world)" by code_simp+
  have run: "HandleTransfer demo_env (demo_request ''key-2'') demo_world = (fst demo_served, snd demo_served)"
    by (simp add: demo_served_def)
  from transfer_authority [OF demo_env_canonical \<open>transfer_keys_ok (db demo_world)\<close> run ch]
  obtain claims and req :: CreateTransferRequest and s r x where "rq_claims (demo_request ''key-2'') = Some claims"
    "wallets (db (snd demo_served)) = move_funds s r (tr_Amount req) (wallets (db demo_world))"
    "row_with w_ID (w_ID x) (wallets (db demo_world)) = Some x" "w_OwnerID x = c_UserID claims \<or> c_Role claims = RoleSystem"
    by blast
  moreover from this(1) have "c_UserID claims = ''alice''" "c_Role claims \<noteq> RoleSystem"
    by (auto simp: demo_request_def owner_claims_def const_defs)
  ultimately show ?thesis by (auto simp: demo_world_def)
qed

text \<open>
  Forbidden. A caller who does not own the source wallet and is not \<open>SYSTEM\<close> gets 403; no wallet,
  ledger entry or transfer changes, and the refusal is recorded under the key.
\<close>

lemma transfer_forbidden:
  assumes "fault_free E" and "jsonb_in E forbidden_payload = Some pl"
    and "uuid_in E (tr_SourceWalletID req) = Some i" and "row_with w_ID i (wallets (db w)) = Some x"
    and "w_OwnerID x \<noteq> c_UserID claims" and "c_Role claims \<noteq> ''SYSTEM''"
  shows "transfer_acquired E claims req key w =
    (\<lparr>resp_status = 403, resp_body = TextBody ''forbidden''\<rparr>,
     w\<lparr>db := (db w)\<lparr>idempotency_keys := update_where ik_Key key (complete_key pl 403) (idempotency_keys (db w))\<rparr>,
       tick := tick w + 2\<rparr>)"
proof -
  have "GetWalletByID E (tr_SourceWalletID req) w = (Inr x, w\<lparr>tick := Suc (tick w)\<rparr>)"
    using assms(1,3,4) by (simp add: GetWalletByID_Inr fault_free_def)
  with assms(5,6) show ?thesis
    by (simp add: transfer_acquired_def may_spend_def http_Error_def complete_ignored_def RoleSystem_def
        Complete_run [OF assms(1,2)])
qed

lemma transfer_forbidden_witness:
  "resp_status (fst (transfer_acquired demo_env (owner_claims\<lparr>c_UserID := ''bob''\<rparr>) demo_transfer ''key-1'' demo_world)) = 403"
proof -
  let ?x = "demo_wallet ''wallet-a'' ''alice'' ''acc-a'' 100"
  have "uuid_in demo_env (tr_SourceWalletID demo_transfer) = Some ''wallet-a''"
    "row_with w_ID ''wallet-a'' (wallets (db demo_world)) = Some ?x" by code_simp+
  from transfer_forbidden [OF _ _ this, of forbidden_payload "owner_claims\<lparr>c_UserID := ''bob''\<rparr>" "''key-1''"] show ?thesis
    by (simp add: fault_free_def demo_env_def owner_claims_def demo_wallet_def const_defs)
qed

end
