(* ===== verification/Payments.thy ===== *)
theory Payments
  imports Transfer_Correctness
begin

text \<open>
  Payments: \<open>internal/payments\<close> (models, provider, service, handler). A payment is created with the
  answer of the provider and moves through its state machine by webhooks; the webhook that reports
  success credits the wallet and writes the ledger, in one transaction. The lemmas give the whole
  effect of a webhook, that a payment is credited at most once, that a repeated event has no
  effect, and what happens while the platform account does not exist.
\<close>

section \<open>Model\<close>

definition StatusCreated :: string where [const_defs]: "StatusCreated = ''CREATED''"
definition StatusProcessing :: string where [const_defs]: "StatusProcessing = ''PROCESSING''"
definition StatusSucceeded :: string where [const_defs]: "StatusSucceeded = ''SUCCEEDED''"
definition payments_StatusFailed :: string where [const_defs]: "payments_StatusFailed = ''FAILED''"
definition StatusRefundRequested :: string where [const_defs]: "StatusRefundRequested = ''REFUND_REQUESTED''"
definition StatusPartiallyRefunded :: string where
  [const_defs]: "StatusPartiallyRefunded = ''PARTIALLY_REFUNDED''"
definition StatusRefunded :: string where [const_defs]: "StatusRefunded = ''REFUNDED''"
definition StatusReversed :: string where [const_defs]: "StatusReversed = ''REVERSED''"

definition WebhookStatusPending :: string where [const_defs]: "WebhookStatusPending = ''PENDING''"
definition WebhookStatusProcessed :: string where [const_defs]: "WebhookStatusProcessed = ''PROCESSED''"
definition WebhookStatusFailed :: string where [const_defs]: "WebhookStatusFailed = ''FAILED''"

subsection \<open>The provider simulator\<close>

record ProviderResponse =
  pr_ReferenceID :: string
  pr_Status :: string

record WebhookPayload =
  wh_EventID :: string
  wh_EventType :: string
  wh_ReferenceID :: string
  wh_Status :: string

definition letters :: string where
  "letters = ''abcdefghijklmnopqrstuvwxyzABCDEFGHIJKLMNOPQRSTUVWXYZ0123456789''"

text \<open>One draw per character; the clock of the environment counts the draws.\<close>

fun generateRandomString :: "env \<Rightarrow> nat \<Rightarrow> nat \<Rightarrow> string" where
  "generateRandomString E t 0 = ''''"
| "generateRandomString E t (Suc n) =
     letters ! (rand_Intn E t (length letters)) # generateRandomString E (Suc t) n"

text \<open>
  The draw for the delay, the reference, and the failure of one request in ten: \<open>0.10\<close> as a
  \<open>float32\<close> is 13421773 / 2^27.
\<close>

definition ProcessPayment :: "env \<Rightarrow> int64 \<Rightarrow> string \<Rightarrow> ProviderResponse M" where
  "ProcessPayment E amount currency w =
     (let refID = ''ext_'' @ generateRandomString E (tick w + 1) 12 in
      (Inr \<lparr>pr_ReferenceID = refID,
            pr_Status = (if rand_Float32 E (tick w + 13) < 13421773 / 134217728
                         then payments_StatusFailed else StatusProcessing)\<rparr>,
       w\<lparr>tick := tick w + 14\<rparr>))"

definition GenerateWebhookSignature :: "env \<Rightarrow> string \<Rightarrow> string \<Rightarrow> string" where
  "GenerateWebhookSignature E webhookSecret payload = hmac_sha256_hex E webhookSecret payload"

text \<open>\<open>hmac.Equal\<close>: equality in constant time.\<close>

definition VerifyWebhookSignature :: "env \<Rightarrow> string \<Rightarrow> string \<Rightarrow> string \<Rightarrow> bool" where
  "VerifyWebhookSignature E webhookSecret payload signature \<longleftrightarrow>
     GenerateWebhookSignature E webhookSecret payload = signature"

subsection \<open>Service\<close>

definition sql_insert_payment :: "env \<Rightarrow> Payment \<Rightarrow> (string \<times> time \<times> time) stmt" where
  "sql_insert_payment E p u t d =
     rbind (uuid_param E (p_WalletID p)) (\<lambda>wid.
     rbind (varchar E 3 (p_Currency p)) (\<lambda>cur.
     rbind (varchar E 50 (p_Status p)) (\<lambda>st.
     rbind (varchar E 255 (p_ProviderReference p)) (\<lambda>ref.
       returning (u, t, t) (insert_payments
         \<lparr>p_ID = u, p_WalletID = wid, p_Amount = p_Amount p, p_Currency = cur, p_Status = st,
          p_ProviderReference = ref, p_CreatedAt = t, p_UpdatedAt = t\<rparr>) d))))"

definition CreatePayment :: "env \<Rightarrow> string \<Rightarrow> int64 \<Rightarrow> string \<Rightarrow> Payment M" where
  "CreatePayment E walletID amount currency =
     mbind (ProcessPayment E amount currency) (\<lambda>resp.
     let payment = \<lparr>p_ID = '''', p_WalletID = walletID, p_Amount = amount, p_Currency = currency,
                    p_Status = pr_Status resp, p_ProviderReference = pr_ReferenceID resp,
                    p_CreatedAt = 0, p_UpdatedAt = 0\<rparr> in
     mbind (sql E (sql_insert_payment E payment)) (\<lambda>(i, c, u).
     mbind (mmetrics (RecordPayment (p_Status payment))) (\<lambda>_.
       mret (payment\<lparr>p_ID := i, p_CreatedAt := c, p_UpdatedAt := u\<rparr>))))"

definition isValidTransition :: "string \<Rightarrow> string \<Rightarrow> bool" where
  "isValidTransition current next =
     (if current = StatusProcessing then next = StatusSucceeded \<or> next = payments_StatusFailed
      else if current = StatusCreated then next = StatusProcessing \<or> next = payments_StatusFailed
      else False)"

definition decode_WebhookPayload :: "json \<Rightarrow> error + WebhookPayload" where
  "decode_WebhookPayload j =
     rbind (json_fields j) (\<lambda>kvs.
     rbind (string_field ''event_id'' '''' kvs) (\<lambda>eid.
     rbind (string_field ''event_type'' '''' kvs) (\<lambda>ety.
     rbind (string_field ''reference_id'' '''' kvs) (\<lambda>ref.
     rbind (string_field ''status'' '''' kvs) (\<lambda>st.
       Inr \<lparr>wh_EventID = eid, wh_EventType = ety, wh_ReferenceID = ref, wh_Status = st\<rparr>)))))"

text \<open>Step 1, deduplication by the unique index on provider and event.\<close>

definition sql_insert_webhook :: "env \<Rightarrow> string \<Rightarrow> WebhookPayload \<Rightarrow> string \<Rightarrow> unit stmt" where
  "sql_insert_webhook E provider event payload u t d =
     rbind (varchar E 50 provider) (\<lambda>pv.
     rbind (varchar E 255 (wh_EventID event)) (\<lambda>eid.
     rbind (varchar E 100 (wh_EventType event)) (\<lambda>ety.
     rbind (jsonb_text E payload) (\<lambda>pl.
       exec_stmt (insert_webhook_events
         \<lparr>we_ID = u, we_Provider = pv, we_EventID = eid, we_EventType = ety, we_Payload = pl,
          we_Status = WebhookStatusProcessed, we_CreatedAt = t\<rparr>) d))))"

definition insert_webhook :: "env \<Rightarrow> string \<Rightarrow> WebhookPayload \<Rightarrow> string \<Rightarrow> unit M" where
  "insert_webhook E provider event payload =
     mwrap (\<lambda>e. if errors_As_SQLState e = Some ''23505'' then ErrDuplicateWebhook else e)
       (sql E (sql_insert_webhook E provider event payload))"

text \<open>Step 2, the payment joined with its wallet; six columns are scanned.\<close>

definition sql_lock_payment :: "string \<Rightarrow> (Payment \<times> string) stmt" where
  "sql_lock_payment ref u t d =
     (case row_with p_ProviderReference ref (payments d) of
        None \<Rightarrow> Inl ErrNoRows
      | Some p \<Rightarrow>
          (case row_with w_ID (p_WalletID p) (wallets d) of
             None \<Rightarrow> Inl ErrNoRows
           | Some wl \<Rightarrow> Inr ((p\<lparr>p_ProviderReference := '''', p_CreatedAt := 0, p_UpdatedAt := 0\<rparr>, w_AccountID wl), d)))"

definition lock_payment :: "env \<Rightarrow> string \<Rightarrow> (Payment \<times> string) M" where
  "lock_payment E ref =
     mwrap (\<lambda>e. if errors_Is e ErrNoRows then ErrPaymentNotFound else e) (sql E (sql_lock_payment ref))"

text \<open>Step 4.\<close>

definition sql_update_payment :: "env \<Rightarrow> string \<Rightarrow> string \<Rightarrow> unit stmt" where
  "sql_update_payment E status i u t d =
     rbind (varchar E 50 status) (\<lambda>st.
     rbind (uuid_param E i) (\<lambda>k.
       Inr ((), d\<lparr>payments := update_where p_ID k (\<lambda>p. p\<lparr>p_Status := st, p_UpdatedAt := t\<rparr>) (payments d)\<rparr>)))"

text \<open>Step 5, the credit and its ledger transaction.\<close>

definition platform_account :: string where
  "platform_account = ''00000000-0000-0000-0000-000000000000''"

definition payment_ledger_txn :: "Payment \<Rightarrow> string \<Rightarrow> LedgerTransaction" where
  "payment_ledger_txn p accountID =
     \<lparr>lx_ID = '''', lx_ReferenceID = p_ID p, lx_ReferenceType = TxTypePayment, lx_Status = ledger_StatusCompleted,
      lx_CreatedAt = 0,
      lx_Entries =
        [new_entry platform_account (p_Amount p) DirectionDebit (p_Currency p),
         new_entry accountID (p_Amount p) DirectionCredit (p_Currency p)]\<rparr>"

definition credit_payment :: "env \<Rightarrow> Payment \<Rightarrow> string \<Rightarrow> unit M" where
  "credit_payment E p accountID =
     mbind (sql E (sql_add_balance E (sint (p_Amount p)) (p_WalletID p))) (\<lambda>_.
     mbind (mwrap (ErrorfW ''ledger error'') (CreateTransaction E (payment_ledger_txn p accountID))) (\<lambda>_.
       mret ()))"

definition payment_event :: "Payment \<Rightarrow> string \<Rightarrow> json" where
  "payment_event p status = JObject
     [(''amount'', JInt (sint (p_Amount p))), (''currency'', JString (p_Currency p)),
      (''payment_id'', JString (p_ID p)), (''status'', JString status)]"

text \<open>Steps 3 and 4: the state machine, the update of the payment and its metric.\<close>

definition advance_payment :: "env \<Rightarrow> WebhookPayload \<Rightarrow> Payment \<Rightarrow> unit M" where
  "advance_payment E event p =
     (if \<not> isValidTransition (p_Status p) (wh_Status event)
      then mfail (ErrorfWSuffix ErrInvalidStateTransition
             (''cannot transition from '' @ p_Status p @ '' to '' @ wh_Status event))
      else
        mbind (sql E (sql_update_payment E (wh_Status event) (p_ID p))) (\<lambda>_.
          mmetrics (RecordPayment (wh_Status event))))"

text \<open>From step 5 to the commit: the credit of a successful payment and the outbox event.\<close>

definition settle_webhook :: "env \<Rightarrow> WebhookPayload \<Rightarrow> Payment \<Rightarrow> string \<Rightarrow> unit M" where
  "settle_webhook E event p accountID =
     mbind (if wh_Status event = StatusSucceeded then credit_payment E p accountID else mret ()) (\<lambda>_.
       mwrap (ErrorfW ''failed to insert outbox event'')
         (InsertEvent E ''payment.events'' (payment_event p (wh_Status event))))"

definition webhook_body :: "env \<Rightarrow> string \<Rightarrow> WebhookPayload \<Rightarrow> string \<Rightarrow> unit M" where
  "webhook_body E provider event payload =
     mbind (insert_webhook E provider event payload) (\<lambda>_.
     mbind (lock_payment E (wh_ReferenceID event)) (\<lambda>(p, accountID).
     mbind (advance_payment E event p) (\<lambda>_.
       settle_webhook E event p accountID)))"

definition ProcessWebhook :: "env \<Rightarrow> string \<Rightarrow> string \<Rightarrow> unit M" where
  "ProcessWebhook E provider payload =
     (case json_Unmarshal payload of
        None \<Rightarrow> mfail (ErrorsNew ''invalid JSON'')
      | Some j \<Rightarrow>
          (case decode_WebhookPayload j of
             Inl e \<Rightarrow> mfail e
           | Inr event \<Rightarrow> withTx E (webhook_body E provider event payload)))"

subsection \<open>Handlers\<close>

record CreatePaymentRequest =
  cp_WalletID :: string
  cp_Amount :: int64
  cp_Currency :: string

definition decode_CreatePaymentRequest :: "json \<Rightarrow> error + CreatePaymentRequest" where
  "decode_CreatePaymentRequest j =
     rbind (json_fields j) (\<lambda>kvs.
     rbind (string_field ''wallet_id'' '''' kvs) (\<lambda>wid.
     rbind (int64_field ''amount'' 0 kvs) (\<lambda>amount.
     rbind (string_field ''currency'' '''' kvs) (\<lambda>currency.
       Inr \<lparr>cp_WalletID = wid, cp_Amount = amount, cp_Currency = currency\<rparr>))))"

definition json_of_Payment :: "env \<Rightarrow> Payment \<Rightarrow> json" where
  "json_of_Payment E p = JObject
     [(''id'', JString (p_ID p)), (''wallet_id'', JString (p_WalletID p)), (''amount'', JInt (sint (p_Amount p))),
      (''currency'', JString (p_Currency p)), (''status'', JString (p_Status p)),
      (''provider_reference'', JString (p_ProviderReference p)),
      (''created_at'', JString (time_MarshalJSON E (p_CreatedAt p))),
      (''updated_at'', JString (time_MarshalJSON E (p_UpdatedAt p)))]"

definition HandleCreatePayment :: "env \<Rightarrow> handler" where
  "HandleCreatePayment E rq w =
     (case rq_claims rq of
        None \<Rightarrow> (http_Error (TextBody ''unauthorized'') 401, w)
      | Some _ \<Rightarrow>
          (case rbind (decode_body rq) decode_CreatePaymentRequest of
             Inl _ \<Rightarrow> (http_Error (TextBody ''invalid request body'') 400, w)
           | Inr req \<Rightarrow>
               (case CreatePayment E (cp_WalletID req) (cp_Amount req) (cp_Currency req) w of
                  (Inl _, w1) \<Rightarrow> (http_Error (TextBody ''internal server error'') 500, w1)
                | (Inr payment, w1) \<Rightarrow>
                    (\<lparr>resp_status = 201, resp_body = JsonBody (json_of_Payment E payment)\<rparr>, w1))))"

definition HandleWebhook :: "env \<Rightarrow> string \<Rightarrow> handler" where
  "HandleWebhook E webhookSecret rq w =
     (let signature = rq_header rq ''X-Webhook-Signature'' in
      if signature = '''' then (http_Error (TextBody ''missing signature'') 401, w)
      else case rq_body rq of
             None \<Rightarrow> (http_Error (TextBody ''failed to read body'') 400, w)
           | Some payload \<Rightarrow>
               (if \<not> VerifyWebhookSignature E webhookSecret payload signature
                then (http_Error (TextBody ''invalid signature'') 401, w)
                else case ProcessWebhook E ''simulator'' payload w of
                       (Inl e, w1) \<Rightarrow>
                         (if errors_Is e ErrDuplicateWebhook then (\<lparr>resp_status = 200, resp_body = NoBody\<rparr>, w1)
                          else if errors_Is e ErrInvalidStateTransition \<or> errors_Is e ErrPaymentNotFound
                          then (http_Error (ErrorBody e) 400, w1)
                          else (http_Error (TextBody ''internal server error'') 500, w1))
                     | (Inr _, w1) \<Rightarrow> (\<lparr>resp_status = 200, resp_body = NoBody\<rparr>, w1)))"

definition demo_payload :: "Payment \<Rightarrow> json" where
  "demo_payload payment = JObject
     [(''event_id'', JString (''demo-event-'' @ p_ID payment)), (''event_type'', JString ''payment.succeeded''),
      (''reference_id'', JString (p_ProviderReference payment)), (''status'', JString StatusSucceeded)]"

definition HandleDemoFund :: "env \<Rightarrow> handler" where
  "HandleDemoFund E rq w =
     (case rbind (decode_body rq) decode_CreatePaymentRequest of
        Inl _ \<Rightarrow> (http_Error (TextBody ''invalid request body'') 400, w)
      | Inr req \<Rightarrow>
          (case CreatePayment E (cp_WalletID req) (cp_Amount req) (cp_Currency req) w of
             (Inl _, w1) \<Rightarrow> (http_Error (TextBody ''internal server error'') 500, w1)
           | (Inr payment, w1) \<Rightarrow>
               (case ProcessWebhook E ''simulator'' (json_Marshal (demo_payload payment)) w1 of
                  (Inl e, w2) \<Rightarrow> (http_Error (ErrorBody e) 500, w2)
                | (Inr _, w2) \<Rightarrow>
                    (\<lparr>resp_status = 200, resp_body = JsonBody (JObject [(''status'', JString ''success'')])\<rparr>, w2))))"


section \<open>The effect of a webhook\<close>

text \<open>The credit of a successful payment \<open>p\<close> to its wallet \<open>wl\<close>.\<close>

definition credit_rows :: "env \<Rightarrow> Payment \<Rightarrow> Wallet \<Rightarrow> LedgerTransactionRow \<Rightarrow> Entry \<Rightarrow> Entry \<Rightarrow> db \<Rightarrow> bool" where
  "credit_rows E p wl lrow e1 e2 d \<longleftrightarrow>
     0 < sint (p_Amount p) \<and> int64_range (sint (w_AvailableBalance wl) + sint (p_Amount p)) \<and>
     lt_ID lrow \<notin> lt_ID ` set (ledger_transactions d) \<and> lt_ReferenceType lrow = TxTypePayment \<and>
     varchar_in E 255 (p_ID p) = Some (lt_ReferenceID lrow) \<and>
     uuid_in E platform_account = Some (e_AccountID e1) \<and> e_Direction e1 = DirectionDebit \<and>
     uuid_in E (w_AccountID wl) = Some (e_AccountID e2) \<and> e_Direction e2 = DirectionCredit \<and>
     e_Amount e1 = p_Amount p \<and> e_Amount e2 = p_Amount p \<and> e_TransactionID e1 = e_TransactionID e2 \<and>
     e_AccountID e1 \<in> a_ID ` set (accounts d) \<and>
     e_TransactionID e2 \<in> insert (lt_ID lrow) (lt_ID ` set (ledger_transactions d))"

definition payment_credited :: "env \<Rightarrow> Payment \<Rightarrow> Wallet \<Rightarrow> db \<Rightarrow> db \<Rightarrow> bool" where
  "payment_credited E p wl d d' \<longleftrightarrow>
     (\<exists>lrow e1 e2. credit_rows E p wl lrow e1 e2 d \<and>
        d' = d\<lparr>wallets := update_where w_ID (w_ID wl)
                 (\<lambda>x. x\<lparr>w_AvailableBalance := w_AvailableBalance wl + p_Amount p\<rparr>) (wallets d),
               ledger_transactions := ledger_transactions d @ [lrow],
               ledger_entries := ledger_entries d @ [e1, e2]\<rparr>)"

text \<open>
  A processed webhook: the payment it refers to moves along an edge of the state machine, the event is
  recorded and announced, and only for \<open>SUCCEEDED\<close> is the wallet credited.
\<close>

definition webhook_applied ::
  "env \<Rightarrow> string \<Rightarrow> WebhookPayload \<Rightarrow> Payment \<Rightarrow> Wallet \<Rightarrow> db \<Rightarrow> db \<Rightarrow> bool" where
  "webhook_applied E provider event p wl d d' \<longleftrightarrow>
     row_with p_ProviderReference (wh_ReferenceID event) (payments d) = Some p \<and>
     row_with w_ID (p_WalletID p) (wallets d) = Some wl \<and>
     isValidTransition (p_Status p) (wh_Status event) \<and>
     (\<exists>we ev st k t d1.
        varchar_in E 50 provider = Some (we_Provider we) \<and>
        varchar_in E 255 (wh_EventID event) = Some (we_EventID we) \<and>
        (we_Provider we, we_EventID we) \<notin> (\<lambda>x. (we_Provider x, we_EventID x)) ` set (webhook_events d) \<and>
        varchar_in E 50 (wh_Status event) = Some st \<and> uuid_in E (p_ID p) = Some k \<and>
        ev_Status ev = outbox_StatusPending \<and> varchar_in E 255 ''payment.events'' = Some (ev_Topic ev) \<and>
        jsonb_in E (payment_event p (wh_Status event)) = Some (ev_Payload ev) \<and>
        ev_ID ev \<notin> ev_ID ` set (outbox_events d) \<and>
        (if wh_Status event = StatusSucceeded then payment_credited E p wl d d1 else d1 = d) \<and>
        d' = d1\<lparr>webhook_events := webhook_events d @ [we],
                payments := update_where p_ID k (\<lambda>x. x\<lparr>p_Status := st, p_UpdatedAt := t\<rparr>) (payments d),
                outbox_events := outbox_events d @ [ev]\<rparr>)"

lemma sql_lock_payment_Inr [run_simps]:
  "sql_lock_payment ref u t d = Inr (x, d') \<longleftrightarrow>
     d' = d \<and> (\<exists>p wl. row_with p_ProviderReference ref (payments d) = Some p \<and>
       row_with w_ID (p_WalletID p) (wallets d) = Some wl \<and>
       x = (p\<lparr>p_ProviderReference := '''', p_CreatedAt := 0, p_UpdatedAt := 0\<rparr>, w_AccountID wl))"
  by (auto simp: sql_lock_payment_def split: option.splits)

lemma insert_webhook_Inr:
  assumes "insert_webhook E provider event payload w = (Inr x, w')"
  shows "\<exists>we. varchar_in E 50 provider = Some (we_Provider we) \<and>
    varchar_in E 255 (wh_EventID event) = Some (we_EventID we) \<and>
    (we_Provider we, we_EventID we) \<notin> (\<lambda>x. (we_Provider x, we_EventID x)) ` set (webhook_events (db w)) \<and>
    w' = w\<lparr>db := (db w)\<lparr>webhook_events := webhook_events (db w) @ [we]\<rparr>, tick := Suc (tick w)\<rparr>"
proof -
  let ?we = "\<lambda>pv eid ety pl. \<lparr>we_ID = gen_random_uuid E (tick w), we_Provider = pv, we_EventID = eid, we_EventType = ety,
    we_Payload = pl, we_Status = WebhookStatusProcessed, we_CreatedAt = NOW E w\<rparr>"
  from assms obtain pv eid ety pl where "varchar_in E 50 provider = Some pv" "varchar_in E 255 (wh_EventID event) = Some eid"
    "(pv, eid) \<notin> (\<lambda>x. (we_Provider x, we_EventID x)) ` set (webhook_events (db w))"
    "w' = w\<lparr>db := (db w)\<lparr>webhook_events := webhook_events (db w) @ [?we pv eid ety pl]\<rparr>, tick := Suc (tick w)\<rparr>"
    by (auto simp: insert_webhook_def sql_insert_webhook_def run_simps row_simps)
  then show ?thesis by (intro exI [of _ "?we pv eid ety pl"]) simp
qed

lemma credit_payment_Inr:
  assumes run: "credit_payment E p (w_AccountID wl) w = (Inr x, w')"
    and wl: "row_with w_ID (p_WalletID p) (wallets (db w)) = Some wl" and id: "uuid_in E (p_WalletID p) = Some (p_WalletID p)"
  shows "payment_credited E p wl (db w) (db w')"
proof -
  from run obtain w1 txn where add: "sql E (sql_add_balance E (sint (p_Amount p)) (p_WalletID p)) w = (Inr (), w1)"
    and led: "CreateTransaction E (payment_ledger_txn p (w_AccountID wl)) w1 = (Inr txn, w')"
    by (auto simp: credit_payment_def run_simps)
  from wl have wid: "p_WalletID p = w_ID wl" by (auto dest: row_with_SomeD)
  from add wl id have w1: "db w1 = (db w)\<lparr>wallets := update_where w_ID (w_ID wl)
        (\<lambda>x. x\<lparr>w_AvailableBalance := w_AvailableBalance wl + p_Amount p\<rparr>) (wallets (db w))\<rparr>"
      "int64_range (sint (w_AvailableBalance wl) + sint (p_Amount p))"
    by (auto simp: sql_add_balance_def run_simps row_simps wid)
  obtain lrow e1 e2 where
    w': "db w' = (db w1)\<lparr>ledger_transactions := ledger_transactions (db w1) @ [lrow],
       ledger_entries := ledger_entries (db w1) @ [e1, e2]\<rparr>"
    and e: "stored_entry E (lt_ID lrow) (new_entry platform_account (p_Amount p) DirectionDebit (p_Currency p)) e1"
      "stored_entry E (lt_ID lrow) (new_entry (w_AccountID wl) (p_Amount p) DirectionCredit (p_Currency p)) e2"
    and app: "ledger_appended E (payment_ledger_txn p (w_AccountID wl)) lrow [e1, e2] (db w1) (db w')"
    and pos: "0 < sint (p_Amount p)"
    by (rule ledgerRepo.create_two_entries [OF led]) (simp add: payment_ledger_txn_def, blast)
  have "credit_rows E p wl lrow e1 e2 (db w)"
    using app pos e w1(2)
    by (simp add: w' w1(1) credit_rows_def ledger_appended_def payment_ledger_txn_def stored_entry_def new_entry_def)
  then show ?thesis unfolding payment_credited_def
    by (intro exI [of _ lrow] exI [of _ e1] exI [of _ e2]) (simp add: w' w1(1))
qed

text \<open>What step 2 reads of the payment: six columns.\<close>

definition scan_payment :: "Payment \<Rightarrow> Payment" where
  "scan_payment p = p\<lparr>p_ProviderReference := '''', p_CreatedAt := 0, p_UpdatedAt := 0\<rparr>"

lemma scan_payment_simps [simp]:
  "p_ID (scan_payment p) = p_ID p" "p_WalletID (scan_payment p) = p_WalletID p" "p_Amount (scan_payment p) = p_Amount p"
  "p_Currency (scan_payment p) = p_Currency p" "p_Status (scan_payment p) = p_Status p"
  by (simp_all add: scan_payment_def)

lemma payment_event_scan [simp]: "payment_event (scan_payment p) s = payment_event p s"
  by (simp add: payment_event_def)

lemma lock_payment_Inr:
  assumes "lock_payment E ref w = (Inr x, w')"
  shows "\<exists>p wl. row_with p_ProviderReference ref (payments (db w)) = Some p \<and>
    row_with w_ID (p_WalletID p) (wallets (db w)) = Some wl \<and> x = (scan_payment p, w_AccountID wl) \<and>
    w' = w\<lparr>tick := Suc (tick w)\<rparr>"
  using assms by (cases w) (auto simp: lock_payment_def run_simps scan_payment_def)

lemma advance_payment_Inr:
  assumes "advance_payment E event p w = (Inr x, w')"
  shows "isValidTransition (p_Status p) (wh_Status event) \<and>
    (\<exists>st k. varchar_in E 50 (wh_Status event) = Some st \<and> uuid_in E (p_ID p) = Some k \<and>
       w' = w\<lparr>db := (db w)\<lparr>payments := update_where p_ID k (\<lambda>x. x\<lparr>p_Status := st, p_UpdatedAt := NOW E w\<rparr>) (payments (db w))\<rparr>,
             tick := Suc (tick w), metrics := RecordPayment (wh_Status event) (metrics w)\<rparr>)"
  using assms by (cases w) (auto simp: advance_payment_def sql_update_payment_def run_simps split: if_splits)

text \<open>
  The end of a webhook, from the state of its transaction: the tables \<open>d\<close> with the event recorded and the payment moved.
\<close>

definition webhook_view :: "WebhookRow \<Rightarrow> string \<Rightarrow> string \<Rightarrow> time \<Rightarrow> db \<Rightarrow> db" where
  "webhook_view we k st t d =
     d\<lparr>webhook_events := webhook_events d @ [we],
       payments := update_where p_ID k (\<lambda>x. x\<lparr>p_Status := st, p_UpdatedAt := t\<rparr>) (payments d)\<rparr>"

lemma settle_webhook_Inr:
  assumes run: "settle_webhook E event (scan_payment p) (w_AccountID wl) w = (Inr x, w')"
    and p: "row_with p_ProviderReference (wh_ReferenceID event) (payments d) = Some p"
      "row_with w_ID (p_WalletID p) (wallets d) = Some wl" "uuid_in E (p_WalletID p) = Some (p_WalletID p)"
    and view: "db w = webhook_view we k st t d" and val: "isValidTransition (p_Status p) (wh_Status event)"
    and stk: "varchar_in E 50 (wh_Status event) = Some st" "uuid_in E (p_ID p) = Some k"
    and we: "varchar_in E 50 provider = Some (we_Provider we)" "varchar_in E 255 (wh_EventID event) = Some (we_EventID we)"
      "(we_Provider we, we_EventID we) \<notin> (\<lambda>x. (we_Provider x, we_EventID x)) ` set (webhook_events d)"
  shows "webhook_applied E provider event p wl d (db w') \<and> webhook_events (db w') = webhook_events d @ [we]"
proof
  from run obtain w4 where
    crd: "(if wh_Status event = StatusSucceeded then credit_payment E (scan_payment p) (w_AccountID wl) else mret ()) w = (Inr (), w4)" and
    out: "InsertEvent E ''payment.events'' (payment_event p (wh_Status event)) w4 = (Inr x, w')"
    by (auto simp: settle_webhook_def run_simps)
  obtain d1 where d1: "if wh_Status event = StatusSucceeded then payment_credited E p wl d d1 else d1 = d"
    and w4: "db w4 = d1\<lparr>webhook_events := webhook_events (db w), payments := payments (db w)\<rparr>"
      "outbox_events d1 = outbox_events d"
  proof (cases "wh_Status event = StatusSucceeded")
    case True
    with crd have "credit_payment E (scan_payment p) (w_AccountID wl) w = (Inr (), w4)" by simp
    from credit_payment_Inr [OF this] have "payment_credited E (scan_payment p) wl (db w) (db w4)"
      using p by (simp add: view webhook_view_def)
    then obtain lrow e1 e2 where cr: "credit_rows E (scan_payment p) wl lrow e1 e2 (db w)"
      and d4: "db w4 = (db w)\<lparr>wallets := update_where w_ID (w_ID wl)
                 (\<lambda>x. x\<lparr>w_AvailableBalance := w_AvailableBalance wl + p_Amount p\<rparr>) (wallets (db w)),
               ledger_transactions := ledger_transactions (db w) @ [lrow],
               ledger_entries := ledger_entries (db w) @ [e1, e2]\<rparr>"
      unfolding payment_credited_def by (auto simp del: Product_Type.split_paired_Ex)
    let ?d1 = "d\<lparr>wallets := update_where w_ID (w_ID wl)
                 (\<lambda>x. x\<lparr>w_AvailableBalance := w_AvailableBalance wl + p_Amount p\<rparr>) (wallets d),
               ledger_transactions := ledger_transactions d @ [lrow],
               ledger_entries := ledger_entries d @ [e1, e2]\<rparr>"
    have "credit_rows E p wl lrow e1 e2 d"
      using cr unfolding credit_rows_def by (simp add: view webhook_view_def)
    then have "payment_credited E p wl d ?d1" unfolding payment_credited_def by blast
    with True d4 show thesis by (intro that [of ?d1]) (simp_all add: view webhook_view_def)
  next
    case False
    with crd show thesis by (intro that [of d]) (simp_all add: run_simps view webhook_view_def)
  qed
  from InsertEvent_Inr [OF out] obtain ev where ev: "ev_Status ev = outbox_StatusPending"
    "varchar_in E 255 ''payment.events'' = Some (ev_Topic ev)" "jsonb_in E (payment_event p (wh_Status event)) = Some (ev_Payload ev)"
    "ev_ID ev \<notin> ev_ID ` set (outbox_events (db w4))" and
    w': "db w' = (db w4)\<lparr>outbox_events := outbox_events (db w4) @ [ev]\<rparr>"
    by (auto simp: payment_event_def)
  show "webhook_events (db w') = webhook_events d @ [we]" by (simp add: w' w4 view webhook_view_def)
  show "webhook_applied E provider event p wl d (db w')"
    unfolding webhook_applied_def
    using p val we stk ev d1
    by (intro conjI exI [of _ we] exI [of _ ev] exI [of _ st] exI [of _ k] exI [of _ t] exI [of _ d1])
      (simp_all add: w' w4 view webhook_view_def)
qed

lemma webhook_body_Inr:
  assumes run: "webhook_body E provider event payload w = (Inr x, w')"
    and canon: "\<And>p. p \<in> set (payments (db w)) \<Longrightarrow> uuid_in E (p_WalletID p) = Some (p_WalletID p)"
  shows "\<exists>p wl. webhook_applied E provider event p wl (db w) (db w')"
proof -
  from run obtain w1 p0 acct w2 w3 where
    ins: "insert_webhook E provider event payload w = (Inr (), w1)" and
    lock: "lock_payment E (wh_ReferenceID event) w1 = (Inr (p0, acct), w2)" and
    adv: "advance_payment E event p0 w2 = (Inr (), w3)" and
    fin: "settle_webhook E event p0 acct w3 = (Inr x, w')"
    by (auto simp: webhook_body_def run_simps)
  from insert_webhook_Inr [OF ins] obtain we where we: "varchar_in E 50 provider = Some (we_Provider we)"
    "varchar_in E 255 (wh_EventID event) = Some (we_EventID we)"
    "(we_Provider we, we_EventID we) \<notin> (\<lambda>x. (we_Provider x, we_EventID x)) ` set (webhook_events (db w))"
    and w1: "w1 = w\<lparr>db := (db w)\<lparr>webhook_events := webhook_events (db w) @ [we]\<rparr>, tick := Suc (tick w)\<rparr>" by blast
  from lock_payment_Inr [OF lock] obtain p wl where p: "row_with p_ProviderReference (wh_ReferenceID event) (payments (db w)) = Some p"
    "row_with w_ID (p_WalletID p) (wallets (db w)) = Some wl" and acct: "acct = w_AccountID wl" "p0 = scan_payment p"
    and w2: "db w2 = db w1" by (auto simp: w1)
  from advance_payment_Inr [OF adv] obtain st k where stk: "varchar_in E 50 (wh_Status event) = Some st" "uuid_in E (p_ID p) = Some k"
    and val: "isValidTransition (p_Status p) (wh_Status event)" and w3: "db w3 = webhook_view we k st (NOW E w2) (db w)"
    by (auto simp: acct w2 w1 webhook_view_def)
  from p(1) canon have "uuid_in E (p_WalletID p) = Some (p_WalletID p)" by (auto dest: row_with_SomeD)
  from settle_webhook_Inr [OF fin [unfolded acct] p this w3 val stk we] show ?thesis by blast
qed

text \<open>Stored identifiers are in canonical form.\<close>

definition payment_ids_canonical :: "env \<Rightarrow> db \<Rightarrow> bool" where
  "payment_ids_canonical E d \<longleftrightarrow>
     (\<forall>p \<in> set (payments d). uuid_in E (p_ID p) = Some (p_ID p) \<and> length (p_ID p) \<le> 255 \<and>
        uuid_in E (p_WalletID p) = Some (p_WalletID p))"

lemma ProcessWebhook_cases:
  assumes run: "ProcessWebhook E provider payload w = (r, w')" and canon: "payment_ids_canonical E (db w)"
  obtains
    (unchanged) "db w' = db w" "isl r"
  | (applied) j event p wl where "json_Unmarshal payload = Some j" "decode_WebhookPayload j = Inr event"
      "webhook_applied E provider event p wl (db w) (db w')"
proof (cases "\<exists>j event. json_Unmarshal payload = Some j \<and> decode_WebhookPayload j = Inr event")
  case False
  with run have "db w' = db w" "isl r"
    by (auto simp: ProcessWebhook_def mfail_def split: option.splits sum.splits)
  then show thesis by (rule unchanged)
next
  case True
  then obtain j event where je: "json_Unmarshal payload = Some j" "decode_WebhookPayload j = Inr event" by blast
  with run have tx: "withTx E (webhook_body E provider event payload) w = (r, w')" by (simp add: ProcessWebhook_def)
  have body: "\<exists>p wl. webhook_applied E provider event p wl (db w) (db w1)"
    if "webhook_body E provider event payload (tx_begin E w) = (Inr x, w1)" for x w1
    using webhook_body_Inr [OF that] canon by (auto simp: payment_ids_canonical_def)
  show thesis
  proof (cases "db w' = db w \<and> isl r")
    case True
    then show thesis using unchanged by blast
  next
    case False
    have "\<exists>p wl. webhook_applied E provider event p wl (db w) (db w')"
    proof (cases r)
      case (Inl e)
      with False have "db w' \<noteq> db w" by simp
      with withTx_InlD [of E "webhook_body E provider event payload" w e w'] tx Inl body show ?thesis by force
    next
      case (Inr x)
      show ?thesis
        by (rule withTx_post [where Q = "\<lambda>d _. \<exists>p wl. webhook_applied E provider event p wl (db w) d", OF tx [unfolded Inr] body])
    qed
    with je applied show thesis by blast
  qed
qed

section \<open>Books\<close>

lemma webhook_applied_tables:
  assumes "webhook_applied E provider event p wl d d'"
  shows "users d' = users d" "accounts d' = accounts d" "transfers d' = transfers d" "idempotency_keys d' = idempotency_keys d"
  using assms unfolding webhook_applied_def payment_credited_def by (auto split: if_splits)

text \<open>The books are the wallets, the ledger transactions and the entries.\<close>

definition same_books :: "db \<Rightarrow> db \<Rightarrow> bool" where
  "same_books d d' \<longleftrightarrow> wallets d' = wallets d \<and> ledger_transactions d' = ledger_transactions d \<and>
     ledger_entries d' = ledger_entries d"

lemma same_books_inv:
  assumes "same_books d d'"
  shows "total_available d' = total_available d" "balances_nonneg d' = balances_nonneg d"
    "ledger_balanced d' = ledger_balanced d" "wallet_ledger_inv E d' = wallet_ledger_inv E d"
    "abs_balances d' = abs_balances d" "wallet_ids_distinct d' = wallet_ids_distinct d"
  using assms by (simp_all add: same_books_def total_available_def balances_nonneg_def ledger_balanced_def
      wallet_ledger_inv_def abs_balances_def wallet_ids_distinct_def fun_eq_iff)

lemma webhook_applied_books:
  assumes "webhook_applied E provider event p wl d d'"
  shows "(if wh_Status event = StatusSucceeded then \<exists>d1. payment_credited E p wl d d1 \<and> same_books d1 d' else same_books d d') \<and>
    row_with w_ID (w_ID wl) (wallets d) = Some wl"
proof
  show "if wh_Status event = StatusSucceeded then \<exists>d1. payment_credited E p wl d d1 \<and> same_books d1 d' else same_books d d'"
    using assms unfolding webhook_applied_def same_books_def by (elim conjE exE) (auto split: if_splits)
  have row: "row_with w_ID (p_WalletID p) (wallets d) = Some wl"
    using assms by (simp add: webhook_applied_def)
  then have "w_ID wl = p_WalletID p" by (blast dest: row_with_SomeD)
  with row show "row_with w_ID (w_ID wl) (wallets d) = Some wl" by simp
qed

lemma payment_credited_balances:
  assumes "payment_credited E p wl d d'" and "row_with w_ID (w_ID wl) (wallets d) = Some wl"
  shows "abs_balances d' = (abs_balances d)(w_ID wl \<mapsto> sint (w_AvailableBalance wl) + sint (p_Amount p))"
  using assms by (auto simp: payment_credited_def credit_rows_def abs_balances_def row_with_update_where credit_exact fun_eq_iff)

lemma payment_credited_total:
  assumes "payment_credited E p wl d d'" and "row_with w_ID (w_ID wl) (wallets d) = Some wl" and "wallet_ids_distinct d"
  shows "total_available d' = total_available d + sint (p_Amount p)"
  using assms by (auto simp: payment_credited_def credit_rows_def total_available_def wallet_ids_distinct_def
      sum_update_where credit_exact)

text \<open>The effect of a successful event on the balances.\<close>

lemma webhook_applied_credit:
  assumes "webhook_applied E provider event p wl d d'" and "wh_Status event = StatusSucceeded" and "wallet_ids_distinct d"
  shows "p \<in> set (payments d) \<and> p_Status p = ''PROCESSING'' \<and>
    (\<exists>b. abs_balances d (p_WalletID p) = Some b \<and>
       abs_balances d' = (abs_balances d)(p_WalletID p \<mapsto> b + sint (p_Amount p)) \<and>
       total_available d' = total_available d + sint (p_Amount p))"
proof -
  from webhook_applied_books [OF assms(1)] assms(2) obtain d1
    where d1: "payment_credited E p wl d d1" "same_books d1 d'" and wl: "row_with w_ID (w_ID wl) (wallets d) = Some wl" by auto
  have p: "p \<in> set (payments d)" "row_with w_ID (p_WalletID p) (wallets d) = Some wl"
    and v: "isValidTransition (p_Status p) StatusSucceeded"
    using assms(1,2) by (auto simp: webhook_applied_def dest: row_with_SomeD)
  from v have "p_Status p = ''PROCESSING''" by (auto simp: isValidTransition_def const_defs split: if_splits)
  moreover from p(2) have "w_ID wl = p_WalletID p" by (blast dest: row_with_SomeD)
  ultimately show ?thesis
    using p(1) payment_credited_balances [OF d1(1) wl] payment_credited_total [OF d1(1) wl assms(3)] same_books_inv(1,5) [OF d1(2)] wl
    by (intro conjI exI [of _ "sint (w_AvailableBalance wl)"]) (simp_all add: abs_balances_def)
qed

lemma payment_credited_nonneg:
  assumes "payment_credited E p wl d d'" and "row_with w_ID (w_ID wl) (wallets d) = Some wl" and "balances_nonneg d"
  shows "balances_nonneg d'"
proof -
  from assms(1) have "sint (w_AvailableBalance wl + p_Amount p) = sint (w_AvailableBalance wl) + sint (p_Amount p)"
    "0 < sint (p_Amount p)" and w: "wallets d' = update_where w_ID (w_ID wl)
       (\<lambda>x. x\<lparr>w_AvailableBalance := w_AvailableBalance wl + p_Amount p\<rparr>) (wallets d)"
    by (auto simp: payment_credited_def credit_rows_def credit_exact)
  moreover have "wl \<in> set (wallets d)" using assms(2) by (auto dest: row_with_SomeD)
  ultimately show ?thesis using assms(3) by (auto simp: balances_nonneg_def w set_update_where)
qed

lemma payment_credited_balanced:
  assumes "payment_credited E p wl d d'" and "ledger_balanced d"
  shows "ledger_balanced d'"
proof -
  from assms(1) obtain lrow e1 e2 where cr: "credit_rows E p wl lrow e1 e2 d"
    and es: "ledger_entries d' = ledger_entries d @ [e1, e2]" "ledger_transactions d' = ledger_transactions d @ [lrow]"
    by (auto simp: payment_credited_def)
  then have "debits (of_transaction t [e1, e2]) = credits (of_transaction t [e1, e2])" for t
    by (simp add: of_transaction_def credit_rows_def)
  with assms(2) cr es show ?thesis
    by (auto simp: ledger_balanced_def entry_ok_def credit_rows_def)
qed

lemma payment_credited_wallet_ledger:
  assumes crd: "payment_credited E p wl d d'" and wl: "row_with w_ID (w_ID wl) (wallets d) = Some wl"
    and inv: "wallet_ledger_inv E d" and plat: "uuid_in E platform_account = Some a" "a \<notin> w_AccountID ` set (wallets d)"
  shows "wallet_ledger_inv E d'"
proof -
  from crd obtain lrow e1 e2 where cr: "credit_rows E p wl lrow e1 e2 d"
    and es: "ledger_entries d' = ledger_entries d @ [e1, e2]"
    and w: "wallets d' = update_where w_ID (w_ID wl) (\<lambda>x. x\<lparr>w_AvailableBalance := w_AvailableBalance wl + p_Amount p\<rparr>) (wallets d)"
    by (auto simp: payment_credited_def)
  from wl have mem: "wl \<in> set (wallets d)" by (auto dest: row_with_SomeD)
  have acc: "e_AccountID e1 = a" "e_AccountID e2 = w_AccountID wl" and e: "e_Direction e2 = DirectionCredit" "e_Amount e2 = p_Amount p"
    and amt: "sint (w_AvailableBalance wl + p_Amount p) = sint (w_AvailableBalance wl) + sint (p_Amount p)"
    using cr plat(1) wallet_ledger_invD(1) [OF inv mem] by (auto simp: credit_rows_def credit_exact)
  have dist: "x = wl" if "x \<in> set (wallets d)" "w_ID x = w_ID wl \<or> w_AccountID x = w_AccountID wl" for x
    using inv that mem by (auto simp: wallet_ledger_inv_def distinct_map dest: inj_onD)
  have "uuid_in E (w_AccountID y) = Some (w_AccountID y) \<and>
      sint (w_AvailableBalance y) + sint (w_LockedBalance y) = net_account (w_AccountID y) (ledger_entries d')"
    if y: "y \<in> set (wallets d')" for y
  proof -
    from y obtain x where x: "x \<in> set (wallets d)"
      and yx: "y = (if w_ID x = w_ID wl then x\<lparr>w_AvailableBalance := w_AvailableBalance wl + p_Amount p\<rparr> else x)"
      by (auto simp: w set_update_where)
    have iff: "w_ID x = w_ID wl \<longleftrightarrow> x = wl" "w_AccountID wl = w_AccountID x \<longleftrightarrow> x = wl" "a \<noteq> w_AccountID x"
      using dist [OF x] plat(2) x by auto
    then have "net_account (w_AccountID x) (ledger_entries d') =
        net_account (w_AccountID x) (ledger_entries d) + (if x = wl then sint (p_Amount p) else 0)"
      by (simp add: es net_account_Cons acc e)
    with wallet_ledger_invD [OF inv x] iff(1) amt show ?thesis by (auto simp: yx)
  qed
  then show ?thesis
    using inv by (simp add: wallet_ledger_inv_def w map_update_where)
qed


section \<open>The life of a payment\<close>

text \<open>
  What is documented of PostgreSQL and used here: a text that fits a \<open>VARCHAR(n)\<close> is stored as it is; a
  generated UUID is in canonical form (36 characters) and is never the nil UUID.
\<close>

definition uuid_generated :: "env \<Rightarrow> bool" where
  "uuid_generated E \<longleftrightarrow>
     (\<forall>n. uuid_in E (gen_random_uuid E n) = Some (gen_random_uuid E n) \<and> length (gen_random_uuid E n) \<le> 255 \<and>
        gen_random_uuid E n \<noteq> platform_account)"

definition pg_ok :: "env \<Rightarrow> bool" where
  "pg_ok E \<longleftrightarrow> uuid_canonical E \<and> varchar_exact E \<and> uuid_generated E"

text \<open>How often a payment has been booked.\<close>

definition credits_of :: "string \<Rightarrow> db \<Rightarrow> nat" where
  "credits_of i d =
     length (filter (\<lambda>l. lt_ReferenceType l = TxTypePayment \<and> lt_ReferenceID l = i) (ledger_transactions d))"

definition payment_inv :: "env \<Rightarrow> db \<Rightarrow> bool" where
  "payment_inv E d \<longleftrightarrow>
     payment_ids_canonical E d \<and> distinct (map p_ID (payments d)) \<and>
     (\<forall>p \<in> set (payments d). credits_of (p_ID p) d = (if p_Status p = StatusSucceeded then 1 else 0)) \<and>
     (\<forall>l \<in> set (ledger_transactions d). lt_ReferenceType l = TxTypePayment \<longrightarrow> lt_ReferenceID l \<in> p_ID ` set (payments d))"

lemma isValidTransition_status:
  "isValidTransition a b \<Longrightarrow> a \<noteq> StatusSucceeded \<and> length b \<le> 50 \<and> b \<in> {StatusSucceeded, payments_StatusFailed, StatusProcessing}"
  by (auto simp: isValidTransition_def const_defs split: if_splits)

text \<open>The payments table and the ledger references after a webhook, with the stored values resolved.\<close>

lemma webhook_applied_resolved:
  assumes app: "webhook_applied E provider event p wl d d'" and vx: "varchar_exact E" and can: "payment_ids_canonical E d"
  shows "p \<in> set (payments d)" "isValidTransition (p_Status p) (wh_Status event)"
    "\<exists>t. payments d' = update_where p_ID (p_ID p) (\<lambda>x. x\<lparr>p_Status := wh_Status event, p_UpdatedAt := t\<rparr>) (payments d)"
    "if wh_Status event = StatusSucceeded
     then \<exists>lrow. ledger_transactions d' = ledger_transactions d @ [lrow] \<and> lt_ReferenceType lrow = TxTypePayment \<and> lt_ReferenceID lrow = p_ID p
     else ledger_transactions d' = ledger_transactions d"
proof -
  show p: "p \<in> set (payments d)" and v: "isValidTransition (p_Status p) (wh_Status event)"
    using app by (auto simp: webhook_applied_def dest: row_with_SomeD)
  have st: "st = wh_Status event" if "varchar_in E 50 (wh_Status event) = Some st" for st
    using vx that isValidTransition_status [OF v] by (auto simp: varchar_exact_def)
  have k: "k = p_ID p" if "uuid_in E (p_ID p) = Some k" for k
    using can p that by (auto simp: payment_ids_canonical_def)
  show "\<exists>t. payments d' = update_where p_ID (p_ID p) (\<lambda>x. x\<lparr>p_Status := wh_Status event, p_UpdatedAt := t\<rparr>) (payments d)"
    using app unfolding webhook_applied_def by (elim conjE exE) (auto dest!: st k)
  have "v = p_ID p" if "varchar_in E 255 (p_ID p) = Some v" for v
    using vx can p that by (auto simp: varchar_exact_def payment_ids_canonical_def)
  then show "if wh_Status event = StatusSucceeded
     then \<exists>lrow. ledger_transactions d' = ledger_transactions d @ [lrow] \<and> lt_ReferenceType lrow = TxTypePayment \<and> lt_ReferenceID lrow = p_ID p
     else ledger_transactions d' = ledger_transactions d"
    using app unfolding webhook_applied_def payment_credited_def credit_rows_def
    by (elim conjE exE) (auto split: if_splits)
qed

lemma webhook_applied_payment_inv:
  assumes app: "webhook_applied E provider event p wl d d'" and vx: "varchar_exact E" and inv: "payment_inv E d"
  shows "payment_inv E d'"
proof -
  from inv have can: "payment_ids_canonical E d" and dist: "distinct (map p_ID (payments d))"
    and cr: "\<And>x. x \<in> set (payments d) \<Longrightarrow> credits_of (p_ID x) d = (if p_Status x = StatusSucceeded then 1 else 0)"
    and ref: "\<And>l. l \<in> set (ledger_transactions d) \<Longrightarrow> lt_ReferenceType l = TxTypePayment \<Longrightarrow> lt_ReferenceID l \<in> p_ID ` set (payments d)"
    by (auto simp: payment_inv_def)
  note r = webhook_applied_resolved [OF app vx can]
  from r(3) obtain t where pay: "payments d' = update_where p_ID (p_ID p) (\<lambda>x. x\<lparr>p_Status := wh_Status event, p_UpdatedAt := t\<rparr>) (payments d)" ..
  have ids: "p_ID ` set (payments d') = p_ID ` set (payments d)"
    unfolding pay by (rule image_update_where) simp
  have cr': "credits_of i d' = credits_of i d + (if wh_Status event = StatusSucceeded \<and> i = p_ID p then 1 else 0)" for i
    using r(4) by (auto simp: credits_of_def split: if_splits)
  have "credits_of (p_ID x) d' = (if p_Status x = StatusSucceeded then 1 else 0)" if x: "x \<in> set (payments d')" for x
  proof -
    from x obtain y where y: "y \<in> set (payments d)"
      and xy: "x = (if p_ID y = p_ID p then y\<lparr>p_Status := wh_Status event, p_UpdatedAt := t\<rparr> else y)"
      by (auto simp: pay set_update_where)
    have "p_ID y = p_ID p \<longleftrightarrow> y = p"
      using dist y r(1) by (auto simp: distinct_map dest: inj_onD)
    with cr [OF y] isValidTransition_status [OF r(2)] show ?thesis
      by (auto simp: xy cr')
  qed
  moreover have "payment_ids_canonical E d'"
    using can by (auto simp: payment_ids_canonical_def pay set_update_where)
  moreover have "distinct (map p_ID (payments d'))"
    using dist by (simp add: pay map_update_where)
  moreover have "lt_ReferenceID l \<in> p_ID ` set (payments d')"
    if "l \<in> set (ledger_transactions d')" "lt_ReferenceType l = TxTypePayment" for l
    using r(1,4) that ref unfolding ids by (auto split: if_splits)
  ultimately show ?thesis by (simp add: payment_inv_def)
qed

text \<open>A created payment: one new row, in one of the two states the provider answers with.\<close>

lemma CreatePayment_cases:
  assumes "CreatePayment E walletID amount currency w = (r, w')"
  obtains
    (unchanged) "db w' = db w"
  | (created) row where "db w' = (db w)\<lparr>payments := payments (db w) @ [row]\<rparr>"
      "p_ID row = gen_random_uuid E (tick w + 14)" "p_ID row \<notin> p_ID ` set (payments (db w))"
      "uuid_in E walletID = Some (p_WalletID row)" "p_WalletID row \<in> w_ID ` set (wallets (db w))"
      "0 < sint amount" "p_Amount row = amount"
      "varchar_in E 50 payments_StatusFailed = Some (p_Status row) \<or> varchar_in E 50 StatusProcessing = Some (p_Status row)"
proof -
  let ?p = "\<lparr>p_ID = '''', p_WalletID = walletID, p_Amount = amount, p_Currency = currency,
    p_Status = (if rand_Float32 E (tick w + 13) < 13421773 / 134217728 then payments_StatusFailed else StatusProcessing),
    p_ProviderReference = ''ext_'' @ generateRandomString E (tick w + 1) 12, p_CreatedAt = 0, p_UpdatedAt = 0\<rparr>"
  let ?w = "w\<lparr>tick := tick w + 14\<rparr>"
  obtain r1 w1 where st: "sql E (sql_insert_payment E ?p) ?w = (r1, w1)" by fastforce
  with assms have db': "db w' = db w1"
    by (auto simp: CreatePayment_def mbind_def ProcessPayment_def Let_def mmetrics_def mret_def split: sum.splits)
  have "db w1 = db ?w \<or> (\<exists>x. sql_insert_payment E ?p (gen_random_uuid E (tick ?w)) (NOW E ?w) (db ?w) = Inr (x, db w1))"
    using st by (cases r1) (auto simp: sql_Inr_iff dest!: sql_InlD)
  then show thesis
  proof
    assume "db w1 = db ?w"
    with db' unchanged show thesis by simp
  next
    assume "\<exists>x. sql_insert_payment E ?p (gen_random_uuid E (tick ?w)) (NOW E ?w) (db ?w) = Inr (x, db w1)"
    with db' show thesis
      by (auto simp: sql_insert_payment_def run_simps row_simps split: if_splits intro!: created)
  qed
qed

lemma CreatePayment_payment_inv:
  assumes run: "CreatePayment E walletID amount currency w = (r, w')" and ok: "pg_ok E" and inv: "payment_inv E (db w)"
  shows "payment_inv E (db w')"
  using run
proof (cases rule: CreatePayment_cases)
  case unchanged
  with inv show ?thesis by simp
next
  case (created row)
  have st: "p_Status row \<noteq> StatusSucceeded"
    using created(8) varchar_exactD [of E 50 payments_StatusFailed "p_Status row"] varchar_exactD [of E 50 StatusProcessing "p_Status row"] ok
    by (auto simp: pg_ok_def const_defs)
  have "credits_of (p_ID row) (db w) = 0"
    using inv created(3) unfolding payment_inv_def credits_of_def length_0_conv filter_empty_conv by metis
  with inv created ok st show ?thesis
    by (auto simp: payment_inv_def payment_ids_canonical_def credits_of_def pg_ok_def uuid_generated_def dest: uuid_canonicalD)
qed


section \<open>Sequences of calls\<close>

datatype payment_call = Create string int64 string | Webhook string string

fun payment_step :: "env \<Rightarrow> payment_call \<Rightarrow> world \<Rightarrow> world" where
  "payment_step E (Create wid amount currency) w = snd (CreatePayment E wid amount currency w)"
| "payment_step E (Webhook provider payload) w = snd (ProcessWebhook E provider payload w)"

definition payment_steps :: "(env \<times> payment_call) list \<Rightarrow> world \<Rightarrow> world" where
  "payment_steps = fold (\<lambda>(E, c). payment_step E c)"

lemma payment_step_inv:
  assumes "pg_ok E" and "payment_inv E (db w)"
  shows "payment_inv E (db (payment_step E c w))"
proof (cases c)
  case (Create wid amount currency)
  with assms CreatePayment_payment_inv [OF surjective_pairing] show ?thesis by simp
next
  case (Webhook provider payload)
  have "payment_ids_canonical E (db w)" using assms(2) by (simp add: payment_inv_def)
  with surjective_pairing show ?thesis
    using webhook_applied_payment_inv assms
    by (cases rule: ProcessWebhook_cases [of E provider payload w]) (auto simp: Webhook pg_ok_def)
qed

text \<open>The calls of a sequence agree on what PostgreSQL reads as a UUID; faults and clocks may differ.\<close>

lemma payment_inv_env: "uuid_in E' = uuid_in E \<Longrightarrow> payment_inv E' d = payment_inv E d"
  by (simp add: payment_inv_def payment_ids_canonical_def)

lemma payment_steps_inv:
  assumes "\<forall>(E', c) \<in> set calls. pg_ok E' \<and> uuid_in E' = uuid_in E" and "payment_inv E (db w)"
  shows "payment_inv E (db (payment_steps calls w))"
  using assms unfolding payment_steps_def
proof (induction calls arbitrary: w)
  case Nil
  then show ?case by simp
next
  case (Cons a calls)
  obtain E' c where a: "a = (E', c)" by fastforce
  with Cons.prems have "payment_inv E (db (payment_step E' c w))"
    using payment_step_inv [of E' w c] payment_inv_env [of E' E] by simp
  with Cons a show ?case by simp
qed

text \<open>Each payment keeps its identity and moves along the edges of the state machine.\<close>

definition payment_follows :: "Payment \<Rightarrow> db \<Rightarrow> bool" where
  "payment_follows p d \<longleftrightarrow>
     (\<exists>p' \<in> set (payments d). p_ID p' = p_ID p \<and> p_WalletID p' = p_WalletID p \<and> p_Amount p' = p_Amount p \<and>
        p_Currency p' = p_Currency p \<and> isValidTransition\<^sup>*\<^sup>* (p_Status p) (p_Status p'))"

lemma payment_step_follows:
  assumes ok: "pg_ok E" and inv: "payment_inv E (db w)" and f: "payment_follows p (db w)"
  shows "payment_follows p (db (payment_step E c w))"
proof (cases c)
  case (Create wid amount currency)
  obtain r w' where run: "CreatePayment E wid amount currency w = (r, w')" by fastforce
  then have "set (payments (db w)) \<subseteq> set (payments (db w'))" by (rule CreatePayment_cases) auto
  with f run Create show ?thesis by (auto simp: payment_follows_def)
next
  case (Webhook provider payload)
  obtain r w' where run: "ProcessWebhook E provider payload w = (r, w')" by fastforce
  have can: "payment_ids_canonical E (db w)" using inv by (simp add: payment_inv_def)
  from run can have "payment_follows p (db w')"
  proof (cases rule: ProcessWebhook_cases)
    case unchanged
    with f show ?thesis by simp
  next
    case (applied j event q wl)
    have vx: "varchar_exact E" using ok by (simp add: pg_ok_def)
    note r = webhook_applied_resolved [OF applied(3) vx can]
    from f obtain p' where p': "p' \<in> set (payments (db w))" "p_ID p' = p_ID p" "p_WalletID p' = p_WalletID p"
      "p_Amount p' = p_Amount p" "p_Currency p' = p_Currency p" "isValidTransition\<^sup>*\<^sup>* (p_Status p) (p_Status p')"
      by (auto simp: payment_follows_def)
    show ?thesis
    proof (cases "p_ID p' = p_ID q")
      case True
      then have "p' = q"
        using inv p'(1) r(1) by (auto simp: payment_inv_def distinct_map dest: inj_onD)
      with r(2) p'(6) have st: "isValidTransition\<^sup>*\<^sup>* (p_Status p) (wh_Status event)"
        by (auto intro: rtranclp.rtrancl_into_rtrancl)
      from r(3) obtain t where "payments (db w') =
          update_where p_ID (p_ID q) (\<lambda>x. x\<lparr>p_Status := wh_Status event, p_UpdatedAt := t\<rparr>) (payments (db w))" ..
      then have "p'\<lparr>p_Status := wh_Status event, p_UpdatedAt := t\<rparr> \<in> set (payments (db w'))"
        using in_update_where [where k = p_ID, OF p'(1) True] by simp
      with st p' show ?thesis
        unfolding payment_follows_def by (intro bexI [of _ "p'\<lparr>p_Status := wh_Status event, p_UpdatedAt := t\<rparr>"]) simp_all
    next
      case False
      with r(3) p'(1) have "p' \<in> set (payments (db w'))" using in_update_where_other [where k = p_ID] by metis
      with p' show ?thesis unfolding payment_follows_def by blast
    qed
  qed
  with run Webhook show ?thesis by simp
qed

lemma payment_steps_follows:
  assumes "\<forall>(E', c) \<in> set calls. pg_ok E' \<and> uuid_in E' = uuid_in E" and "payment_inv E (db w)" and "payment_follows p (db w)"
  shows "payment_follows p (db (payment_steps calls w))"
  using assms unfolding payment_steps_def
proof (induction calls arbitrary: w)
  case Nil
  then show ?case by simp
next
  case (Cons a calls)
  obtain E' c where a: "a = (E', c)" by fastforce
  with Cons.prems have ok: "pg_ok E'" and env: "uuid_in E' = uuid_in E" by auto
  have "payment_inv E' (db w)" using Cons.prems(2) payment_inv_env [OF env] by simp
  then have "payment_inv E (db (payment_step E' c w))" "payment_follows p (db (payment_step E' c w))"
    using payment_step_inv [OF ok] payment_step_follows [OF ok _ Cons.prems(3)] payment_inv_env [OF env] by auto
  with Cons a show ?case by simp
qed

lemma isValidTransition_terminal:
  assumes "isValidTransition\<^sup>*\<^sup>* a b" and "a \<in> {StatusSucceeded, payments_StatusFailed}"
  shows "b = a"
  using assms by (induction rule: rtranclp_induct) (auto simp: isValidTransition_def const_defs)


section \<open>Properties\<close>

text \<open>
  The concrete state with the platform account in place and one payment of 20 that is being processed.
\<close>

definition demo_payment :: Payment where
  "demo_payment = \<lparr>p_ID = ''pay-1'', p_WalletID = ''wallet-a'', p_Amount = 20, p_Currency = ''USD'', p_Status = ''PROCESSING'',
     p_ProviderReference = ''ext_1'', p_CreatedAt = 0, p_UpdatedAt = 0\<rparr>"

definition demo_unfunded :: world where
  "demo_unfunded = demo_world\<lparr>db := demo_db\<lparr>payments := [demo_payment], ledger_transactions := [], ledger_entries := []\<rparr>\<rparr>"

definition demo_funded :: world where
  "demo_funded = demo_world\<lparr>db := demo_db\<lparr>payments := [demo_payment],
     ledger_transactions := map (\<lambda>l. l\<lparr>lt_ReferenceType := ''ADJUSTMENT''\<rparr>) (ledger_transactions demo_db),
     accounts := accounts demo_db @ [\<lparr>a_ID = platform_account, a_Type = ''PLATFORM'', a_Currency = ''USD'', a_CreatedAt = 0\<rparr>]\<rparr>\<rparr>"

definition demo_webhook :: "(error + unit) \<times> world" where
  "demo_webhook = ProcessWebhook demo_env ''simulator'' succeeded_body demo_funded"

lemma demo_webhook_run: "ProcessWebhook demo_env ''simulator'' succeeded_body demo_funded = (Inr (), snd demo_webhook)"
proof -
  have "\<not> isl (fst demo_webhook)" by code_simp
  then show ?thesis by (cases "fst demo_webhook") (auto simp: demo_webhook_def prod_eq_iff)
qed

lemma demo_payment_inv: "payment_inv demo_env (db demo_funded)"
  by code_simp

lemma demo_pg_ok: "pg_ok demo_env"
proof -
  have "gen_random_uuid demo_env n \<noteq> platform_account" for n
    by (simp add: demo_env_def platform_account_def)
  moreover have "uuid_in demo_env (gen_random_uuid demo_env n) = Some (gen_random_uuid demo_env n)" for n
    by (simp add: demo_env_def ascii_lower_def)
  moreover have "length (gen_random_uuid demo_env n) \<le> 255" for n
    using mod_less_divisor [of 100 n] by (simp add: demo_env_def)
  moreover have "varchar_exact demo_env" by (simp add: varchar_exact_def demo_env_def)
  ultimately show ?thesis by (simp add: pg_ok_def uuid_generated_def)
qed

text \<open>
  C16: a webhook is all or nothing, and follows the state machine. Whatever the outcome of
  \<open>ProcessWebhook\<close>, the database is unchanged, or the payment it names moved along an edge of
  \<open>isValidTransition\<close>, the event was new and is recorded, and its announcement is in the outbox; the
  wallets and the ledger changed only if the new status is \<open>SUCCEEDED\<close>, by exactly the credit.
\<close>

theorem webhook_effect:
  assumes "payment_ids_canonical E (db w)" and "ProcessWebhook E provider payload w = (r, w')"
  shows "(db w' = db w \<and> isl r) \<or>
    (\<exists>j event p wl. json_Unmarshal payload = Some j \<and> decode_WebhookPayload j = Inr event \<and>
       webhook_applied E provider event p wl (db w) (db w') \<and>
       (wh_Status event \<noteq> ''SUCCEEDED'' \<longrightarrow> same_books (db w) (db w')))"
  using assms(2,1)
proof (cases rule: ProcessWebhook_cases)
  case unchanged
  then show ?thesis by simp
next
  case (applied j event p wl)
  from webhook_applied_books [OF applied(3)] have "wh_Status event \<noteq> ''SUCCEEDED'' \<longrightarrow> same_books (db w) (db w')"
    by (simp add: StatusSucceeded_def)
  with applied show ?thesis by blast
qed

theorem webhook_effect_witness:
  "\<exists>event p wl. webhook_applied demo_env ''simulator'' event p wl (db demo_funded) (db (snd demo_webhook))"
proof -
  have "payment_ids_canonical demo_env (db demo_funded)" using demo_payment_inv by (simp add: payment_inv_def)
  from webhook_effect [OF this demo_webhook_run] show ?thesis by auto
qed

text \<open>
  A successful payment credits its wallet with its amount and nothing else: the total of the
  available balances grows by exactly the amount of the payment, or does not change at all.
\<close>

lemma webhook_credits_amount:
  assumes "payment_ids_canonical E (db w)" and "wallet_ids_distinct (db w)" and "ProcessWebhook E provider payload w = (r, w')"
  shows "(abs_balances (db w') = abs_balances (db w) \<and> total_available (db w') = total_available (db w)) \<or>
    (\<exists>p \<in> set (payments (db w)). \<exists>b. p_Status p = ''PROCESSING'' \<and> abs_balances (db w) (p_WalletID p) = Some b \<and>
       abs_balances (db w') = (abs_balances (db w))(p_WalletID p \<mapsto> b + sint (p_Amount p)) \<and>
       total_available (db w') = total_available (db w) + sint (p_Amount p))"
  using assms(3,1)
proof (cases rule: ProcessWebhook_cases)
  case unchanged
  then show ?thesis by simp
next
  case (applied j event p wl)
  note bk = webhook_applied_books [OF applied(3)]
  show ?thesis
  proof (cases "wh_Status event = StatusSucceeded")
    case False
    with bk same_books_inv(1,5) show ?thesis by auto
  next
    case True
    with webhook_applied_credit [OF applied(3) _ assms(2)] show ?thesis by blast
  qed
qed

lemma webhook_credits_amount_witness:
  "total_available (db (snd demo_webhook)) = 150 \<or> (\<exists>p \<in> {demo_payment}. total_available (db (snd demo_webhook)) = 150 + sint (p_Amount p))"
proof -
  have "payment_ids_canonical demo_env (db demo_funded)" using demo_payment_inv by (simp add: payment_inv_def)
  moreover have "wallet_ids_distinct (db demo_funded)" "total_available (db demo_funded) = 150" "set (payments (db demo_funded)) = {demo_payment}"
    by code_simp+
  ultimately show ?thesis using webhook_credits_amount [OF _ _ demo_webhook_run] by auto
qed

text \<open>
  C15: once. Over any sequence of payment calls, with any faults, a payment is booked in the ledger
  exactly once if its status is \<open>SUCCEEDED\<close> and not at all otherwise.
\<close>

theorem payment_booked_once:
  assumes "\<forall>(E', c) \<in> set calls. pg_ok E' \<and> uuid_in E' = uuid_in E" and "payment_inv E (db w)"
    and "p \<in> set (payments (db (payment_steps calls w)))"
  shows "credits_of (p_ID p) (db (payment_steps calls w)) = (if p_Status p = ''SUCCEEDED'' then 1 else 0)"
  using payment_steps_inv [OF assms(1,2)] assms(3) by (auto simp: payment_inv_def StatusSucceeded_def)

theorem payment_booked_once_witness:
  "let w = payment_steps [(demo_env, Webhook ''simulator'' succeeded_body), (demo_env, Webhook ''simulator'' succeeded_body)] demo_funded in
     credits_of ''pay-1'' (db w) = 1"
proof -
  let ?calls = "[(demo_env, Webhook ''simulator'' succeeded_body), (demo_env, Webhook ''simulator'' succeeded_body)]"
  have "map (\<lambda>p. (p_ID p, p_Status p)) (payments (db (payment_steps ?calls demo_funded))) = [(''pay-1'', ''SUCCEEDED'')]"
    by code_simp
  then obtain p where p: "p \<in> set (payments (db (payment_steps ?calls demo_funded)))" "p_ID p = ''pay-1''" "p_Status p = ''SUCCEEDED''"
    by auto
  from payment_booked_once [OF _ demo_payment_inv p(1)] p(2,3) show ?thesis by (simp add: demo_pg_ok Let_def)
qed

text \<open>
  C18: the state machine over time. A payment never disappears or changes its wallet, amount or
  currency; its status moves only along the edges of \<open>isValidTransition\<close>, so that \<open>SUCCEEDED\<close> and
  \<open>FAILED\<close> are final.
\<close>

theorem payment_lifecycle:
  assumes "\<forall>(E', c) \<in> set calls. pg_ok E' \<and> uuid_in E' = uuid_in E" and "payment_inv E (db w)"
    and "p \<in> set (payments (db w))"
  shows "\<exists>p' \<in> set (payments (db (payment_steps calls w))).
    p_ID p' = p_ID p \<and> p_WalletID p' = p_WalletID p \<and> p_Amount p' = p_Amount p \<and> p_Currency p' = p_Currency p \<and>
    isValidTransition\<^sup>*\<^sup>* (p_Status p) (p_Status p') \<and>
    (p_Status p \<in> {''SUCCEEDED'', ''FAILED''} \<longrightarrow> p_Status p' = p_Status p)"
proof -
  have "payment_follows p (db w)" using assms(3) by (auto simp: payment_follows_def)
  from payment_steps_follows [OF assms(1,2) this] isValidTransition_terminal [of "p_Status p"] show ?thesis
    unfolding payment_follows_def StatusSucceeded_def payments_StatusFailed_def by blast
qed

theorem payment_lifecycle_witness:
  "\<exists>p' \<in> set (payments (db (payment_steps [(demo_env, Webhook ''simulator'' succeeded_body)] demo_funded))). p_ID p' = ''pay-1'' \<and> p_Amount p' = 20"
proof -
  have "demo_payment \<in> set (payments (db demo_funded))" by code_simp
  from payment_lifecycle [OF _ demo_payment_inv this, of "[(demo_env, Webhook ''simulator'' succeeded_body)]"]
  show ?thesis by (auto simp: demo_pg_ok demo_payment_def)
qed


lemma webhook_applied_books_inv:
  assumes "webhook_applied E provider event p wl d d'"
    and "uuid_in E platform_account = Some a" and "a \<notin> w_AccountID ` set (wallets d)"
    and "balances_nonneg d" and "ledger_balanced d" and "wallet_ledger_inv E d"
  shows "balances_nonneg d' \<and> ledger_balanced d' \<and> wallet_ledger_inv E d'"
proof -
  note bk = webhook_applied_books [OF assms(1)]
  show ?thesis
  proof (cases "wh_Status event = StatusSucceeded")
    case False
    with bk assms(4-6) same_books_inv show ?thesis by auto
  next
    case True
    with bk obtain d1 where d1: "payment_credited E p wl d d1" "same_books d1 d'"
      and wl: "row_with w_ID (w_ID wl) (wallets d) = Some wl" by auto
    from payment_credited_nonneg [OF d1(1) wl assms(4)] payment_credited_balanced [OF d1(1) assms(5)]
      payment_credited_wallet_ledger [OF d1(1) wl assms(6,2,3)] same_books_inv [OF d1(2)]
    show ?thesis by simp
  qed
qed

lemma webhook_body_duplicate:
  assumes "fault_free E" and "varchar_in E 50 provider = Some pv" and "varchar_in E 255 (wh_EventID event) = Some eid"
    and "varchar_in E 100 (wh_EventType event) = Some ety" and "jsonb_text_in E payload = Some pl"
    and "(pv, eid) \<in> (\<lambda>x. (we_Provider x, we_EventID x)) ` set (webhook_events (db w))"
  shows "webhook_body E provider event payload w = (Inl ErrDuplicateWebhook, w\<lparr>tick := Suc (tick w)\<rparr>)"
proof -
  have "sql_insert_webhook E provider event payload u t (db w) = Inl unique_violation" for u t
    using assms by (simp add: sql_insert_webhook_def varchar_def jsonb_text_def exec_stmt_def insert_defs checked.simps)
  then show ?thesis
    using assms(1) by (simp add: webhook_body_def insert_webhook_def mbind_def mwrap_def sql_run_err unique_violation_def)
qed

lemma ProcessWebhook_duplicate:
  assumes "fault_free E" and "json_Unmarshal payload = Some j" and "decode_WebhookPayload j = Inr event"
    and "varchar_in E 50 provider = Some pv" and "varchar_in E 255 (wh_EventID event) = Some eid"
    and "varchar_in E 100 (wh_EventType event) = Some ety" and "jsonb_text_in E payload = Some pl"
    and "(pv, eid) \<in> (\<lambda>x. (we_Provider x, we_EventID x)) ` set (webhook_events (db w))" and "tx_start w = None"
  shows "ProcessWebhook E provider payload w = (Inl ErrDuplicateWebhook, w\<lparr>tick := tick w + 2\<rparr>)"
proof -
  have "webhook_body E provider event payload (tx_begin E w) = (Inl ErrDuplicateWebhook, (tx_begin E w)\<lparr>tick := tick w + 2\<rparr>)"
    using webhook_body_duplicate [OF assms(1,4-7), of "tx_begin E w"] assms(8) by simp
  from withTx_run_err [of E "webhook_body E provider event payload" w, OF assms(1) this] assms(2,3,9)
  show ?thesis by (simp add: ProcessWebhook_def tx_begin_def)
qed

text \<open>
  C37: a repeated event has no effect. When an event of the same provider and identifier is already on
  record, \<open>ProcessWebhook\<close> returns \<open>ErrDuplicateWebhook\<close> without a change to the database, and the
  endpoint acknowledges it with 200.
\<close>

theorem webhook_duplicate:
  assumes "fault_free E" and "json_Unmarshal payload = Some j" and "decode_WebhookPayload j = Inr event"
    and "varchar_in E 50 ''simulator'' = Some pv" and "varchar_in E 255 (wh_EventID event) = Some eid"
    and "varchar_in E 100 (wh_EventType event) = Some ety" and "jsonb_text_in E payload = Some pl"
    and "(pv, eid) \<in> (\<lambda>x. (we_Provider x, we_EventID x)) ` set (webhook_events (db w))" and "tx_start w = None"
    and "rq_header rq ''X-Webhook-Signature'' = hmac_sha256_hex E secret payload" and "rq_header rq ''X-Webhook-Signature'' \<noteq> ''''"
    and "rq_body rq = Some payload"
  shows "ProcessWebhook E ''simulator'' payload w = (Inl ErrDuplicateWebhook, w\<lparr>tick := tick w + 2\<rparr>) \<and>
    HandleWebhook E secret rq w = (\<lparr>resp_status = 200, resp_body = NoBody\<rparr>, w\<lparr>tick := tick w + 2\<rparr>)"
  using ProcessWebhook_duplicate [OF assms(1-9)] assms(10-12)
  by (simp add: HandleWebhook_def Let_def VerifyWebhookSignature_def GenerateWebhookSignature_def)

definition demo_webhook_request :: request where
  "demo_webhook_request = \<lparr>rq_method = ''POST'', rq_path = [''api'', ''v1'', ''webhooks'', ''payment-provider''],
     rq_header = (\<lambda>h. if h = ''X-Webhook-Signature'' then ''s/'' @ succeeded_body else ''''),
     rq_body = Some succeeded_body, rq_id = '''', rq_remote_addr = '''', rq_claims = None\<rparr>"

theorem webhook_duplicate_witness:
  "resp_status (fst (HandleWebhook demo_env ''s'' demo_webhook_request (snd demo_webhook))) = 200"
proof -
  let ?event = "\<lparr>wh_EventID = ''evt-1'', wh_EventType = ''payment.succeeded'', wh_ReferenceID = ''ext_1'', wh_Status = ''SUCCEEDED''\<rparr>"
  let ?j = "succeeded_document"
  have "decode_WebhookPayload ?j = Inr ?event" by code_simp
  moreover have "(''simulator'', ''evt-1'') \<in> (\<lambda>x. (we_Provider x, we_EventID x)) ` set (webhook_events (db (snd demo_webhook)))"
    by code_simp
  moreover have "tx_start (snd demo_webhook) = None" by code_simp
  moreover have "fault_free demo_env" by (simp add: demo_env_def fault_free_def)
  moreover have "json_Unmarshal succeeded_body = Some ?j" "varchar_in demo_env 50 ''simulator'' = Some ''simulator''"
    "varchar_in demo_env 255 ''evt-1'' = Some ''evt-1''" "varchar_in demo_env 100 ''payment.succeeded'' = Some ''payment.succeeded''"
    "jsonb_text_in demo_env succeeded_body = Some ?j" "rq_header demo_webhook_request ''X-Webhook-Signature'' = hmac_sha256_hex demo_env ''s'' succeeded_body"
    "rq_header demo_webhook_request ''X-Webhook-Signature'' \<noteq> ''''" "rq_body demo_webhook_request = Some succeeded_body"
    by (simp_all add: demo_env_def demo_webhook_request_def)
  ultimately have "HandleWebhook demo_env ''s'' demo_webhook_request (snd demo_webhook) =
      (\<lparr>resp_status = 200, resp_body = NoBody\<rparr>, (snd demo_webhook)\<lparr>tick := tick (snd demo_webhook) + 2\<rparr>)"
    using webhook_duplicate [of demo_env succeeded_body ?j ?event "''simulator''" "''evt-1''" "''payment.succeeded''" ?j
        "snd demo_webhook" demo_webhook_request "''s''"]
    by (simp only: WebhookPayload.select_convs simp_thms)
  then show ?thesis by simp
qed

text \<open>
  C38: without the platform account no payment is ever credited. While no account has the nil UUID (no
  migration inserts it), no webhook changes a wallet or the ledger, and one that reports success
  returns an error and leaves the whole database unchanged.
\<close>

theorem webhook_needs_platform:
  assumes "payment_ids_canonical E (db w)" and "uuid_in E platform_account = Some a" and "a \<notin> a_ID ` set (accounts (db w))"
    and "ProcessWebhook E provider payload w = (r, w')"
  shows "same_books (db w) (db w') \<and>
    (\<forall>j event. json_Unmarshal payload = Some j \<and> decode_WebhookPayload j = Inr event \<and> wh_Status event = ''SUCCEEDED'' \<longrightarrow>
       isl r \<and> db w' = db w)"
  using assms(4,1)
proof (cases rule: ProcessWebhook_cases)
  case unchanged
  then show ?thesis by (simp add: same_books_def)
next
  case (applied j event p wl)
  have "wh_Status event \<noteq> StatusSucceeded"
  proof
    assume "wh_Status event = StatusSucceeded"
    with webhook_applied_books [OF applied(3)] obtain d1 where "payment_credited E p wl (db w) d1" by auto
    with assms(2,3) show False by (auto simp: payment_credited_def credit_rows_def)
  qed
  with webhook_applied_books [OF applied(3)] applied(1,2) show ?thesis by (simp add: StatusSucceeded_def)
qed

theorem webhook_needs_platform_witness:
  "same_books (db demo_unfunded) (db (snd (ProcessWebhook demo_env ''simulator'' succeeded_body demo_unfunded)))"
proof -
  have "payment_ids_canonical demo_env (db demo_unfunded)" "uuid_in demo_env platform_account = Some platform_account"
    "platform_account \<notin> a_ID ` set (accounts (db demo_unfunded))" by code_simp+
  from webhook_needs_platform [OF this surjective_pairing] show ?thesis by simp
qed

text \<open>
  The metric counts what was rolled back. On the concrete state without the platform account
  the webhook that reports success fails with a foreign key violation and the payment stays in
  \<open>PROCESSING\<close>, but the counter of succeeded payments is incremented.
\<close>

lemma webhook_metric_before_commit:
  "case ProcessWebhook demo_env ''simulator'' succeeded_body demo_unfunded of (r, w') \<Rightarrow>
     r = Inl (ErrorfW ''ledger error'' foreign_key_violation) \<and> map p_Status (payments (db w')) = [''PROCESSING''] \<and>
     PaymentsTotal (metrics demo_unfunded) ''SUCCEEDED'' = 0 \<and> PaymentsTotal (metrics w') ''SUCCEEDED'' = 1"
  by code_simp

lemma HandleWebhook_unsigned:
  assumes "\<And>payload. rq_body rq = Some payload \<Longrightarrow> rq_header rq ''X-Webhook-Signature'' \<noteq> hmac_sha256_hex E secret payload"
  shows "snd (HandleWebhook E secret rq w) = w \<and> resp_status (fst (HandleWebhook E secret rq w)) \<in> {400, 401} \<and>
    (rq_body rq \<noteq> None \<longrightarrow> resp_status (fst (HandleWebhook E secret rq w)) = 401)"
  using assms
  by (cases "rq_body rq") (auto simp: HandleWebhook_def Let_def http_Error_def VerifyWebhookSignature_def GenerateWebhookSignature_def)

text \<open>
  Authenticity. A webhook request whose signature is not the HMAC of its exact body under the
  configured secret is answered with 401 (or 400 when the body cannot be read) and changes nothing.
\<close>

lemma webhook_signature_required:
  assumes "\<And>payload. rq_body rq = Some payload \<Longrightarrow> rq_header rq ''X-Webhook-Signature'' \<noteq> hmac_sha256_hex E secret payload"
  shows "snd (HandleWebhook E secret rq w) = w \<and> resp_status (fst (HandleWebhook E secret rq w)) \<in> {400, 401} \<and>
    (rq_body rq \<noteq> None \<longrightarrow> resp_status (fst (HandleWebhook E secret rq w)) = 401)"
  by (rule HandleWebhook_unsigned [OF assms])

lemma webhook_signature_required_witness:
  "resp_status (fst (HandleWebhook demo_env ''other'' demo_webhook_request demo_funded)) = 401"
  using webhook_signature_required [of demo_webhook_request demo_env "''other''" demo_funded]
  by (simp add: demo_webhook_request_def demo_env_def)

end
