(* ===== verification/Reconciliation.thy ===== *)
theory Reconciliation
  imports Payments
begin

text \<open>
  The reconciliation worker and its report: \<open>internal/reconciliation\<close> (models, repository, worker,
  handler). A run compares the totals of the ledger and the balance of every wallet with the net of
  its ledger entries. The lemmas say when a run is recorded as passed: exactly when the books agree,
  if the whole result was read; a result that breaks off is not noticed.
\<close>

section \<open>Model\<close>

definition recon_StatusInProgress :: string where [const_defs]: "recon_StatusInProgress = ''IN_PROGRESS''"
definition recon_StatusPassed :: string where [const_defs]: "recon_StatusPassed = ''PASSED''"
definition recon_StatusFailed :: string where [const_defs]: "recon_StatusFailed = ''FAILED''"

text \<open>The columns the statement does not name take their defaults.\<close>

definition sql_insert_run :: "(string \<times> time) stmt" where
  "sql_insert_run u t d =
     returning (u, t) (insert_reconciliation_runs
       \<lparr>run_ID = u, run_Status = recon_StatusInProgress, run_WalletsChecked = 0,
        run_LedgerTransactionsChecked = 0, run_MismatchesFound = 0, run_StartedAt = t, run_CompletedAt = None\<rparr>) d"

definition CreateRun :: "env \<Rightarrow> Run M" where
  "CreateRun E =
     mbind (sql E sql_insert_run) (\<lambda>(i, t).
       mret \<lparr>run_ID = i, run_Status = recon_StatusInProgress, run_WalletsChecked = 0,
             run_LedgerTransactionsChecked = 0, run_MismatchesFound = 0, run_StartedAt = t, run_CompletedAt = None\<rparr>)"

definition complete_run :: "string \<Rightarrow> int64 \<Rightarrow> int64 \<Rightarrow> int64 \<Rightarrow> time \<Rightarrow> Run \<Rightarrow> Run" where
  "complete_run status walletsChecked txnsChecked mismatches t r =
     r\<lparr>run_Status := status, run_WalletsChecked := walletsChecked, run_LedgerTransactionsChecked := txnsChecked,
       run_MismatchesFound := mismatches, run_CompletedAt := Some t\<rparr>"

definition CompleteRun :: "env \<Rightarrow> string \<Rightarrow> string \<Rightarrow> int64 \<Rightarrow> int64 \<Rightarrow> int64 \<Rightarrow> unit M" where
  "CompleteRun E i status walletsChecked txnsChecked mismatches =
     sql E (\<lambda>u t d. rbind (uuid_param E i) (\<lambda>k.
       Inr ((), d\<lparr>reconciliation_runs := update_where run_ID k
         (complete_run status walletsChecked txnsChecked mismatches t) (reconciliation_runs d)\<rparr>)))"

text \<open>\<open>details\<close> is a Go string at every call; \<open>json.Marshal\<close> makes a JSON string of it.\<close>

definition RecordMismatch :: "env \<Rightarrow> string \<Rightarrow> string \<Rightarrow> string \<Rightarrow> string \<Rightarrow> string \<Rightarrow> unit M" where
  "RecordMismatch E runID entityType entityID mismatchType details =
     sql E (\<lambda>u t d.
       rbind (uuid_param E runID) (\<lambda>k.
       rbind (varchar E 50 entityType) (\<lambda>ety.
       rbind (varchar E 255 entityID) (\<lambda>eid.
       rbind (varchar E 100 mismatchType) (\<lambda>mty.
       rbind (jsonb E (JString details)) (\<lambda>pl.
         exec_stmt (insert_reconciliation_items
           \<lparr>it_ID = u, it_RunID = k, it_EntityType = ety, it_EntityID = eid, it_MismatchType = mty,
            it_Details = pl, it_CreatedAt = t\<rparr>) d))))))"

text \<open>\<open>SUM\<close> of a \<open>BIGINT\<close> column is exact; reading it into an \<open>int64\<close> fails out of range.\<close>

definition scan_int64 :: "int \<Rightarrow> error + int64" where
  "scan_int64 i = (if int64_range i then Inr (word_of_int i) else Inl ScanError)"

definition CheckGlobalLedgerBalance :: "env \<Rightarrow> (int64 \<times> int64 \<times> int64) M" where
  "CheckGlobalLedgerBalance E =
     sql E (\<lambda>u t d.
       rbind (scan_int64 (debits (ledger_entries d))) (\<lambda>dt.
       rbind (scan_int64 (credits (ledger_entries d))) (\<lambda>ct.
       rbind (scan_int64 (int (length (remdups (map e_TransactionID (ledger_entries d)))))) (\<lambda>n.
         Inr ((dt, ct, n), d)))))"

record Mismatch =
  mm_wallet_id :: string
  mm_wallet_total :: int64
  mm_ledger_total :: int64
  mm_difference :: int64

text \<open>
  The rows the loop receives: the addition of a row can overflow its \<open>BIGINT\<close>, which ends the result
  with an error, as a lost connection does. \<open>rows.Next\<close> then returns false, and \<open>rows.Err\<close> is not
  asked.
\<close>

definition wallet_row_ok :: "Wallet \<Rightarrow> bool" where
  "wallet_row_ok r = int64_range (sint (w_AvailableBalance r) + sint (w_LockedBalance r))"

definition delivered :: "nat option \<Rightarrow> 'a list \<Rightarrow> 'a list" where
  "delivered b xs = (case b of None \<Rightarrow> xs | Some n \<Rightarrow> take n xs)"

fun check_rows :: "Entry list \<Rightarrow> Wallet list \<Rightarrow> int64 \<Rightarrow> Mismatch list \<Rightarrow> error + (int64 \<times> Mismatch list)" where
  "check_rows es [] walletsChecked mismatches = Inr (walletsChecked, mismatches)"
| "check_rows es (r # rs) walletsChecked mismatches =
     rbind (scan_int64 (sint (w_AvailableBalance r) + sint (w_LockedBalance r))) (\<lambda>walletTotal.
     rbind (scan_int64 (net_account (w_AccountID r) es)) (\<lambda>ledgerTotal.
       check_rows es rs (walletsChecked + 1)
         (if walletTotal \<noteq> ledgerTotal
          then mismatches @ [\<lparr>mm_wallet_id = w_ID r, mm_wallet_total = walletTotal, mm_ledger_total = ledgerTotal,
                              mm_difference = walletTotal - ledgerTotal\<rparr>]
          else mismatches)))"

definition CheckWalletBalances :: "env \<Rightarrow> (int64 \<times> Mismatch list) M" where
  "CheckWalletBalances E w =
     sql E (\<lambda>u t d. rbind (check_rows (ledger_entries d)
       (delivered (row_break E (tick w)) (takeWhile wallet_row_ok (wallets d))) 0 []) (\<lambda>x. Inr (x, d))) w"

subsection \<open>Worker\<close>

definition ignore :: "'a M \<Rightarrow> unit M" where
  "ignore m = mbind (mtry m) (\<lambda>_. mret ())"

definition imbalance_details :: "int64 \<Rightarrow> int64 \<Rightarrow> string" where
  "imbalance_details dt ct = ''Imbalanced Ledger! Debits: '' @ decimal (sint dt) @ '', Credits: '' @ decimal (sint ct)"

text \<open>
  The keys \<open>expected\<close> and \<open>actual\<close> are not in the map that \<open>CheckWalletBalances\<close> builds, so both
  arguments are \<open>nil\<close>, which \<open>%d\<close> renders as \<open>%!d(<nil>)\<close>.
\<close>

definition mismatch_details :: "Mismatch \<Rightarrow> string" where
  "mismatch_details m = ''Expected %!d(<nil>), got %!d(<nil>)''"

fun record_mismatches :: "env \<Rightarrow> string \<Rightarrow> Mismatch list \<Rightarrow> string \<times> int64 \<Rightarrow> (string \<times> int64) M" where
  "record_mismatches E runID [] (status, mismatchesFound) = mret (status, mismatchesFound)"
| "record_mismatches E runID (m # ms) (status, mismatchesFound) =
     mbind (ignore (RecordMismatch E runID ''WALLET'' (mm_wallet_id m) ''BALANCE_MISMATCH'' (mismatch_details m))) (\<lambda>_.
       record_mismatches E runID ms (recon_StatusFailed, mismatchesFound + 1))"

definition run_checks :: "env \<Rightarrow> string \<Rightarrow> int64 \<times> int64 \<times> int64 \<Rightarrow> unit M" where
  "run_checks E runID totals =
     (case totals of (dt, ct, txnCount) \<Rightarrow>
        mbind (if dt \<noteq> ct
               then mbind (ignore (RecordMismatch E runID ''SYSTEM'' ''GLOBAL_LEDGER'' ''IMBALANCED_LEDGER''
                             (imbalance_details dt ct))) (\<lambda>_. mret (recon_StatusFailed, 1))
               else mret (recon_StatusPassed, 0)) (\<lambda>(status, mismatchesFound).
        mbind (mtry (CheckWalletBalances E)) (\<lambda>r.
          case r of
            Inl _ \<Rightarrow> ignore (CompleteRun E runID recon_StatusFailed 0 txnCount mismatchesFound)
          | Inr (walletsChecked, walletMismatches) \<Rightarrow>
              mbind (record_mismatches E runID walletMismatches (status, mismatchesFound)) (\<lambda>(status, mismatchesFound).
                ignore (CompleteRun E runID status walletsChecked txnCount mismatchesFound)))))"

definition RunReconciliation :: "env \<Rightarrow> unit M" where
  "RunReconciliation E =
     mbind (mtry (CreateRun E)) (\<lambda>r.
       case r of
         Inl _ \<Rightarrow> mret ()
       | Inr run \<Rightarrow>
           mbind (mtry (CheckGlobalLedgerBalance E)) (\<lambda>g.
             case g of
               Inl _ \<Rightarrow> ignore (CompleteRun E (run_ID run) recon_StatusFailed 0 0 0)
             | Inr totals \<Rightarrow> run_checks E (run_ID run) totals))"

fun reconciliation_loop :: "env \<Rightarrow> wakeup list \<Rightarrow> unit M" where
  "reconciliation_loop E [] = mret ()"
| "reconciliation_loop E (CtxDone # ws) = mret ()"
| "reconciliation_loop E (Tick # ws) = mbind (RunReconciliation E) (\<lambda>_. reconciliation_loop E ws)"

definition reconciliation_Start :: "env \<Rightarrow> wakeup list \<Rightarrow> unit M" where
  "reconciliation_Start E ws = mbind (RunReconciliation E) (\<lambda>_. reconciliation_loop E ws)"

subsection \<open>Handler\<close>

definition json_of_Run :: "env \<Rightarrow> Run \<Rightarrow> json" where
  "json_of_Run E r = JObject
     [(''id'', JString (run_ID r)), (''status'', JString (run_Status r)),
      (''wallets_checked'', JInt (sint (run_WalletsChecked r))),
      (''ledger_transactions_checked'', JInt (sint (run_LedgerTransactionsChecked r))),
      (''mismatches_found'', JInt (sint (run_MismatchesFound r))),
      (''started_at'', JString (time_MarshalJSON E (run_StartedAt r))),
      (''completed_at'', (case run_CompletedAt r of None \<Rightarrow> JNull | Some t \<Rightarrow> JString (time_MarshalJSON E t)))]"

definition recent_runs :: "db \<Rightarrow> Run list" where
  "recent_runs d = take 20 (sort_key (\<lambda>r. - run_StartedAt r) (reconciliation_runs d))"

text \<open>A \<open>nil\<close> slice is encoded as \<open>null\<close>; again \<open>rows.Err\<close> is not asked.\<close>

definition HandleGetRuns :: "env \<Rightarrow> handler" where
  "HandleGetRuns E rq w =
     (case sql E (\<lambda>u t d. Inr (delivered (row_break E (tick w)) (recent_runs d), d)) w of
        (Inl _, w1) \<Rightarrow> (http_Error (TextBody ''failed to query runs'') 500, w1)
      | (Inr runs, w1) \<Rightarrow>
          (\<lparr>resp_status = 200, resp_body = JsonBody (if runs = [] then JNull else JArray (map (json_of_Run E) runs))\<rparr>, w1))"


section \<open>The verdict of a run\<close>

text \<open>What a run is meant to decide.\<close>

definition wallet_agrees :: "Entry list \<Rightarrow> Wallet \<Rightarrow> bool" where
  "wallet_agrees es r \<longleftrightarrow> sint (w_AvailableBalance r) + sint (w_LockedBalance r) = net_account (w_AccountID r) es"

definition books_agree :: "db \<Rightarrow> bool" where
  "books_agree d \<longleftrightarrow> debits (ledger_entries d) = credits (ledger_entries d) \<and> (\<forall>r \<in> set (wallets d). wallet_agrees (ledger_entries d) r)"

text \<open>How many ledger transactions have entries.\<close>

definition ledger_transaction_count :: "db \<Rightarrow> nat" where
  "ledger_transaction_count d = card (e_TransactionID ` set (ledger_entries d))"

lemma ledger_transaction_count_alt: "length (remdups (map e_TransactionID (ledger_entries d))) = ledger_transaction_count d"
  by (simp add: ledger_transaction_count_def length_remdups_card_conv)

text \<open>Every number of the run fits its column.\<close>

definition books_in_range :: "db \<Rightarrow> bool" where
  "books_in_range d \<longleftrightarrow>
     int64_range (debits (ledger_entries d)) \<and> int64_range (credits (ledger_entries d)) \<and>
     int64_range (int (ledger_transaction_count d)) \<and>
     (\<forall>r \<in> set (wallets d). wallet_row_ok r \<and> int64_range (net_account (w_AccountID r) (ledger_entries d)))"

lemma scan_int64_ok: "int64_range i \<Longrightarrow> scan_int64 i = Inr (word_of_int i)"
  by (simp add: scan_int64_def)

lemma word_of_int64_eq: "int64_range i \<Longrightarrow> int64_range j \<Longrightarrow> (word_of_int i :: int64) = word_of_int j \<longleftrightarrow> i = j"
  by (metis sint_word_of_int64)

lemma check_rows_ok:
  assumes "\<forall>r \<in> set rs. wallet_row_ok r \<and> int64_range (net_account (w_AccountID r) es)"
  shows "\<exists>ms'. check_rows es rs n ms = Inr (n + of_nat (length rs), ms @ ms') \<and>
    map mm_wallet_id ms' = map w_ID (filter (\<lambda>r. \<not> wallet_agrees es r) rs)"
  using assms
proof (induction rs arbitrary: n ms)
  case Nil
  then show ?case by simp
next
  case (Cons r rs)
  then have r: "wallet_row_ok r" "int64_range (net_account (w_AccountID r) es)" by auto
  have eq: "(word_of_int (sint (w_AvailableBalance r) + sint (w_LockedBalance r)) :: int64) \<noteq> word_of_int (net_account (w_AccountID r) es)
      \<longleftrightarrow> \<not> wallet_agrees es r"
    using r by (simp only: wallet_row_ok_def word_of_int64_eq wallet_agrees_def)
  define m where "m = \<lparr>mm_wallet_id = w_ID r,
    mm_wallet_total = word_of_int (sint (w_AvailableBalance r) + sint (w_LockedBalance r)),
    mm_ledger_total = word_of_int (net_account (w_AccountID r) es),
    mm_difference = word_of_int (sint (w_AvailableBalance r) + sint (w_LockedBalance r)) - word_of_int (net_account (w_AccountID r) es)\<rparr>"
  have m: "mm_wallet_id m = w_ID r" by (simp add: m_def)
  have step: "check_rows es (r # rs) n ms = check_rows es rs (n + 1) (if \<not> wallet_agrees es r then ms @ [m] else ms)"
    using r unfolding check_rows.simps wallet_row_ok_def eq [symmetric] m_def by (simp only: scan_int64_ok rbind_Inr)
  from Cons.IH [of "n + 1" "if \<not> wallet_agrees es r then ms @ [m] else ms"] Cons.prems obtain ms' where
    "check_rows es rs (n + 1) (if \<not> wallet_agrees es r then ms @ [m] else ms) =
       Inr (n + 1 + of_nat (length rs), (if \<not> wallet_agrees es r then ms @ [m] else ms) @ ms')"
    "map mm_wallet_id ms' = map w_ID (filter (\<lambda>r. \<not> wallet_agrees es r) rs)" by auto
  with step m show ?case
    by (intro exI [of _ "(if \<not> wallet_agrees es r then [m] else []) @ ms'"]) (auto simp: algebra_simps)
qed

lemma CheckWalletBalances_run:
  assumes "fault_free E" and "row_break E (tick w) = None" and "books_in_range (db w)"
  shows "\<exists>ms. CheckWalletBalances E w = (Inr (of_nat (length (wallets (db w))), ms), w\<lparr>tick := Suc (tick w)\<rparr>) \<and>
    map mm_wallet_id ms = map w_ID (filter (\<lambda>r. \<not> wallet_agrees (ledger_entries (db w)) r) (wallets (db w)))"
proof -
  have tw: "takeWhile wallet_row_ok (wallets (db w)) = wallets (db w)"
    using assms(3) by (simp add: books_in_range_def)
  from check_rows_ok [of "wallets (db w)" "ledger_entries (db w)" 0 "[]"] assms(3) obtain ms where
    "check_rows (ledger_entries (db w)) (wallets (db w)) 0 [] = Inr (of_nat (length (wallets (db w))), ms)"
    "map mm_wallet_id ms = map w_ID (filter (\<lambda>r. \<not> wallet_agrees (ledger_entries (db w)) r) (wallets (db w)))"
    by (auto simp: books_in_range_def)
  then show ?thesis
    using assms(1,2)
    by (intro exI [of _ ms]) (simp add: CheckWalletBalances_def delivered_def sql_Inr_iff fault_free_def tw)
qed

text \<open>Recording a mismatch touches the items only.\<close>

lemma ignore_total: "\<exists>w'. ignore m w = (Inr (), w')"
  by (auto simp: ignore_def mbind_def mtry_def mret_def split: prod.splits)

lemma RecordMismatch_same:
  "always (same (\<lambda>d. d\<lparr>reconciliation_items := []\<rparr>)) (RecordMismatch E a b c e f)"
  unfolding RecordMismatch_def by (rule same.always_sql) (auto simp: same_def run_simps row_simps)

lemma ignore_same: "always (same f) m \<Longrightarrow> always (same f) (ignore m)"
  unfolding ignore_def by (intro same.always_mbind same.always_mtry same.always_mret)

lemma ignore_RecordMismatch:
  "\<exists>w'. ignore (RecordMismatch E a b c e f) w = (Inr (), w') \<and>
     (db w')\<lparr>reconciliation_items := []\<rparr> = (db w)\<lparr>reconciliation_items := []\<rparr>"
proof -
  obtain w' where "ignore (RecordMismatch E a b c e f) w = (Inr (), w')" using ignore_total by blast
  with alwaysD [OF ignore_same [OF RecordMismatch_same] this] show ?thesis by (auto simp: same_def)
qed

lemma record_mismatches_run:
  "\<exists>w'. record_mismatches E i ms (st, n) w =
     (Inr (if ms = [] then st else recon_StatusFailed, n + of_nat (length ms)), w') \<and>
     (db w')\<lparr>reconciliation_items := []\<rparr> = (db w)\<lparr>reconciliation_items := []\<rparr>"
proof (induction ms arbitrary: st n w)
  case Nil
  then show ?case by (simp add: mret_def)
next
  case (Cons m ms)
  from ignore_RecordMismatch obtain w1 where
    w1: "ignore (RecordMismatch E i ''WALLET'' (mm_wallet_id m) ''BALANCE_MISMATCH'' (mismatch_details m)) w = (Inr (), w1)"
      "(db w1)\<lparr>reconciliation_items := []\<rparr> = (db w)\<lparr>reconciliation_items := []\<rparr>" by blast
  from Cons.IH [of recon_StatusFailed "n + 1" w1] w1 show ?case
    by (auto simp: mbind_runI algebra_simps)
qed

lemma complete_run_sel:
  "run_Status (complete_run st a b c t r) = st" "run_WalletsChecked (complete_run st a b c t r) = a"
  "run_LedgerTransactionsChecked (complete_run st a b c t r) = b"
  "run_MismatchesFound (complete_run st a b c t r) = c" "run_ID (complete_run st a b c t r) = run_ID r"
  "run_CompletedAt (complete_run st a b c t r) = Some t"
  by (simp_all add: complete_run_def)

lemma CompleteRun_run:
  assumes "fault_free E" and "uuid_in E i = Some i"
  shows "\<exists>t. CompleteRun E i st a b c w = (Inr (), w\<lparr>db := (db w)\<lparr>reconciliation_runs :=
    update_where run_ID i (complete_run st a b c t) (reconciliation_runs (db w))\<rparr>, tick := Suc (tick w)\<rparr>)"
  using assms by (auto simp: CompleteRun_def sql_run uuid_param_def)


lemma CheckGlobalLedgerBalance_run:
  assumes "fault_free E" and "books_in_range (db w)"
  shows "CheckGlobalLedgerBalance E w =
    (Inr (word_of_int (debits (ledger_entries (db w))), word_of_int (credits (ledger_entries (db w))), of_nat (ledger_transaction_count (db w))),
     w\<lparr>tick := Suc (tick w)\<rparr>)"
  using assms unfolding CheckGlobalLedgerBalance_def
  by (auto simp: sql_Inr_iff fault_free_def scan_int64_ok books_in_range_def ledger_transaction_count_alt)

lemma run_checks_run:
  assumes ff: "fault_free E" and nb: "\<And>n. row_break E n = None" and rg: "books_in_range (db w)" and i: "uuid_in E i = Some i"
    and t: "totals = (word_of_int (debits (ledger_entries (db w))), word_of_int (credits (ledger_entries (db w))), n)"
  shows "\<exists>w' t k. run_checks E i totals w = (Inr (), w') \<and>
    reconciliation_runs (db w') = update_where run_ID i
      (complete_run (if books_agree (db w) then recon_StatusPassed else recon_StatusFailed)
         (of_nat (length (wallets (db w)))) n k t) (reconciliation_runs (db w)) \<and>
    k = (if debits (ledger_entries (db w)) = credits (ledger_entries (db w)) then 0 else 1) +
      of_nat (length (filter (\<lambda>r. \<not> wallet_agrees (ledger_entries (db w)) r) (wallets (db w))))"
proof -
  let ?dt = "debits (ledger_entries (db w))" and ?ct = "credits (ledger_entries (db w))"
  let ?first = "if (word_of_int ?dt :: int64) \<noteq> word_of_int ?ct
    then mbind (ignore (RecordMismatch E i ''SYSTEM'' ''GLOBAL_LEDGER'' ''IMBALANCED_LEDGER''
                             (imbalance_details (word_of_int ?dt) (word_of_int ?ct)))) (\<lambda>_. mret (recon_StatusFailed, 1))
    else mret (recon_StatusPassed, 0 :: int64)"
  have eq: "(word_of_int ?dt :: int64) = word_of_int ?ct \<longleftrightarrow> ?dt = ?ct"
    using rg by (simp add: books_in_range_def word_of_int64_eq)
  obtain w1 where w1: "?first w = (Inr (if ?dt = ?ct then (recon_StatusPassed, 0) else (recon_StatusFailed, 1)), w1)"
    and fr1: "(db w1)\<lparr>reconciliation_items := []\<rparr> = (db w)\<lparr>reconciliation_items := []\<rparr>"
  proof (cases "?dt = ?ct")
    case True
    then show thesis by (intro that [of w]) (simp_all add: mret_def)
  next
    case False
    from ignore_RecordMismatch obtain w1 where
      "ignore (RecordMismatch E i ''SYSTEM'' ''GLOBAL_LEDGER'' ''IMBALANCED_LEDGER'' (imbalance_details (word_of_int ?dt) (word_of_int ?ct))) w = (Inr (), w1)"
      "(db w1)\<lparr>reconciliation_items := []\<rparr> = (db w)\<lparr>reconciliation_items := []\<rparr>" by blast
    with False eq show thesis by (intro that [of w1]) (simp_all add: mbind_def mret_def)
  qed
  from fr1 have same1: "wallets (db w1) = wallets (db w)" "ledger_entries (db w1) = ledger_entries (db w)"
    "reconciliation_runs (db w1) = reconciliation_runs (db w)"
    by (metis db.select_convs db.update_convs db.surjective)+
  have "books_in_range (db w1)" using rg same1 by (simp add: books_in_range_def ledger_transaction_count_def)
  from CheckWalletBalances_run [OF ff nb this] obtain ms where
    ck: "CheckWalletBalances E w1 = (Inr (of_nat (length (wallets (db w))), ms), w1\<lparr>tick := Suc (tick w1)\<rparr>)"
    and ms: "map mm_wallet_id ms = map w_ID (filter (\<lambda>r. \<not> wallet_agrees (ledger_entries (db w)) r) (wallets (db w)))"
    by (auto simp: same1)
  let ?m = "length (filter (\<lambda>r. \<not> wallet_agrees (ledger_entries (db w)) r) (wallets (db w)))"
  let ?st = "if ?dt = ?ct then recon_StatusPassed else recon_StatusFailed" and ?k = "if ?dt = ?ct then 0 else 1 :: int64"
  from ms have len: "length ms = ?m" by (metis length_map)
  from record_mismatches_run [of E i ms ?st ?k "w1\<lparr>tick := Suc (tick w1)\<rparr>"] obtain w2 where
    rm: "record_mismatches E i ms (?st, ?k) (w1\<lparr>tick := Suc (tick w1)\<rparr>) =
      (Inr (if ms = [] then ?st else recon_StatusFailed, ?k + of_nat ?m), w2)"
    and fr2: "(db w2)\<lparr>reconciliation_items := []\<rparr> = (db w1)\<lparr>reconciliation_items := []\<rparr>"
    by (auto simp: len)
  from fr2 same1(3) have runs2: "reconciliation_runs (db w2) = reconciliation_runs (db w)"
    by (metis db.select_convs(11) db.update_convs(12) db.surjective)
  have "ms = [] \<longleftrightarrow> (\<forall>r \<in> set (wallets (db w)). wallet_agrees (ledger_entries (db w)) r)"
    using len by (metis (no_types, lifting) filter_empty_conv length_0_conv)
  then have verdict: "(if ms = [] then ?st else recon_StatusFailed) = (if books_agree (db w) then recon_StatusPassed else recon_StatusFailed)"
    by (simp add: books_agree_def)
  from CompleteRun_run [OF ff i] obtain t where
    cr: "CompleteRun E i (if books_agree (db w) then recon_StatusPassed else recon_StatusFailed) (of_nat (length (wallets (db w)))) n (?k + of_nat ?m) w2 =
      (Inr (), w2\<lparr>db := (db w2)\<lparr>reconciliation_runs := update_where run_ID i
        (complete_run (if books_agree (db w) then recon_StatusPassed else recon_StatusFailed) (of_nat (length (wallets (db w)))) n (?k + of_nat ?m) t)
        (reconciliation_runs (db w2))\<rparr>, tick := Suc (tick w2)\<rparr>)" (is "_ = (Inr (), ?w3)") by blast
  have "run_checks E i totals w = (Inr (), ?w3)"
    using w1 ck rm cr unfolding run_checks_def t verdict
    by (simp add: mbind_def [of ?first] mbind_def mtry_def ignore_def mret_def verdict split: if_splits)
  then show ?thesis by (intro exI [of _ ?w3] exI [of _ t] exI [of _ "?k + of_nat ?m"]) (simp add: runs2)
qed


lemma CreateRun_run:
  assumes "fault_free E" and "gen_random_uuid E (tick w) \<notin> run_ID ` set (reconciliation_runs (db w))"
  shows "\<exists>r0. CreateRun E w = (Inr r0, w\<lparr>db := (db w)\<lparr>reconciliation_runs := reconciliation_runs (db w) @ [r0]\<rparr>, tick := Suc (tick w)\<rparr>) \<and>
    run_ID r0 = gen_random_uuid E (tick w)"
  using assms by (auto simp: CreateRun_def mbind_def sql_run sql_insert_run_def returning_def insert_defs checked.simps mret_def)

lemma RunReconciliation_run:
  assumes ff: "fault_free E" and nb: "\<And>n. row_break E n = None" and rg: "books_in_range (db w)"
    and fresh: "gen_random_uuid E (tick w) \<notin> run_ID ` set (reconciliation_runs (db w))"
    and i: "uuid_in E (gen_random_uuid E (tick w)) = Some (gen_random_uuid E (tick w))"
  shows "\<exists>w' r. RunReconciliation E w = (Inr (), w') \<and> reconciliation_runs (db w') = reconciliation_runs (db w) @ [r] \<and>
    run_Status r = (if books_agree (db w) then recon_StatusPassed else recon_StatusFailed) \<and>
    run_WalletsChecked r = of_nat (length (wallets (db w))) \<and>
    run_LedgerTransactionsChecked r = of_nat (ledger_transaction_count (db w)) \<and> run_CompletedAt r \<noteq> None \<and>
    run_MismatchesFound r = (if debits (ledger_entries (db w)) = credits (ledger_entries (db w)) then 0 else 1) +
      of_nat (length (filter (\<lambda>r. \<not> wallet_agrees (ledger_entries (db w)) r) (wallets (db w))))"
proof -
  let ?i = "gen_random_uuid E (tick w)"
  from CreateRun_run [OF ff fresh] obtain r0 where
    c: "CreateRun E w = (Inr r0, w\<lparr>db := (db w)\<lparr>reconciliation_runs := reconciliation_runs (db w) @ [r0]\<rparr>, tick := Suc (tick w)\<rparr>)"
      (is "_ = (_, ?w1)") and r0: "run_ID r0 = ?i" by blast
  let ?n = "of_nat (ledger_transaction_count (db w)) :: int64"
  have count: "ledger_transaction_count (db ?w1) = ledger_transaction_count (db w)" by (simp add: ledger_transaction_count_def)
  then have rg1: "books_in_range (db ?w1)" using rg by (simp add: books_in_range_def)
  from count CheckGlobalLedgerBalance_run [OF ff rg1] have
    g: "CheckGlobalLedgerBalance E ?w1 =
      (Inr (word_of_int (debits (ledger_entries (db w))), word_of_int (credits (ledger_entries (db w))), ?n), ?w1\<lparr>tick := Suc (tick ?w1)\<rparr>)"
    by simp
  let ?w2 = "?w1\<lparr>tick := Suc (tick ?w1)\<rparr>"
  have rg2: "books_in_range (db ?w2)" using rg1 by simp
  from run_checks_run [OF ff nb rg2 i refl, of ?n] obtain w' t k where
    rc: "run_checks E ?i (word_of_int (debits (ledger_entries (db w))), word_of_int (credits (ledger_entries (db w))), ?n) ?w2 = (Inr (), w')"
    and runs: "reconciliation_runs (db w') = update_where run_ID ?i
      (complete_run (if books_agree (db ?w2) then recon_StatusPassed else recon_StatusFailed) (of_nat (length (wallets (db w)))) ?n k t)
      (reconciliation_runs (db w) @ [r0])"
    and k: "k = (if debits (ledger_entries (db w)) = credits (ledger_entries (db w)) then 0 else 1) +
      of_nat (length (filter (\<lambda>r. \<not> wallet_agrees (ledger_entries (db w)) r) (wallets (db w))))"
    by auto
  have ba: "books_agree ((db w)\<lparr>reconciliation_runs := x\<rparr>) = books_agree (db w)" for x by (simp add: books_agree_def)
  have "update_where run_ID ?i f (reconciliation_runs (db w) @ [r0]) = reconciliation_runs (db w) @ [f r0]" for f
    using update_where_none [OF fresh, of f] r0 by (simp add: update_where_def)
  with runs have "reconciliation_runs (db w') = reconciliation_runs (db w) @
      [complete_run (if books_agree (db w) then recon_StatusPassed else recon_StatusFailed) (of_nat (length (wallets (db w)))) ?n k t r0]"
    by (simp add: ba)
  moreover have "RunReconciliation E w = (Inr (), w')"
    using rc by (simp add: RunReconciliation_def mbind_def mtry_def c g r0)
  ultimately show ?thesis
    unfolding k by (intro exI [of _ w'] exI conjI) (assumption | rule complete_run_sel | simp add: complete_run_sel)+
qed

section \<open>Properties\<close>

text \<open>
  C26: the verdict. With the database available, the whole result read and all totals within
  \<open>BIGINT\<close>, a reconciliation adds one run; its status is \<open>PASSED\<close> exactly when total debits equal
  total credits and every wallet equals the net of its ledger entries; the numbers of wallets, of ledger
  transactions and of mismatches it reports are the true ones, and it is marked as completed.
\<close>

theorem reconciliation_verdict:
  assumes "fault_free E" and "\<And>n. row_break E n = None" and "books_in_range (db w)"
    and "gen_random_uuid E (tick w) \<notin> run_ID ` set (reconciliation_runs (db w))"
    and "uuid_in E (gen_random_uuid E (tick w)) = Some (gen_random_uuid E (tick w))"
  shows "\<exists>w' r. RunReconciliation E w = (Inr (), w') \<and> reconciliation_runs (db w') = reconciliation_runs (db w) @ [r] \<and>
    run_Status r = (if books_agree (db w) then ''PASSED'' else ''FAILED'') \<and>
    run_WalletsChecked r = of_nat (length (wallets (db w))) \<and>
    run_LedgerTransactionsChecked r = of_nat (card (e_TransactionID ` set (ledger_entries (db w)))) \<and> run_CompletedAt r \<noteq> None \<and>
    run_MismatchesFound r = (if debits (ledger_entries (db w)) = credits (ledger_entries (db w)) then 0 else 1) +
      of_nat (length (filter (\<lambda>x. sint (w_AvailableBalance x) + sint (w_LockedBalance x) \<noteq>
        net_account (w_AccountID x) (ledger_entries (db w))) (wallets (db w))))"
  using RunReconciliation_run [OF assms]
  unfolding recon_StatusPassed_def recon_StatusFailed_def wallet_agrees_def ledger_transaction_count_def .

definition demo_recon :: "world \<Rightarrow> string list" where
  "demo_recon w = map run_Status (reconciliation_runs (db (snd (RunReconciliation demo_env w))))"

theorem reconciliation_verdict_witness:
  "demo_recon demo_world = [''PASSED''] \<and>
   map run_LedgerTransactionsChecked (reconciliation_runs (db (snd (RunReconciliation demo_env demo_world)))) = [2]"
proof -
  have "books_in_range (db demo_world)" "books_agree (db demo_world)"
    "gen_random_uuid demo_env (tick demo_world) \<notin> run_ID ` set (reconciliation_runs (db demo_world))"
    "uuid_in demo_env (gen_random_uuid demo_env (tick demo_world)) = Some (gen_random_uuid demo_env (tick demo_world))"
    "reconciliation_runs (db demo_world) = []" "card (e_TransactionID ` set (ledger_entries (db demo_world))) = 2" by code_simp+
  moreover have "fault_free demo_env" "\<And>n. row_break demo_env n = None" by (simp_all add: fault_free_def demo_env_def)
  ultimately show ?thesis
    using reconciliation_verdict [of demo_env demo_world] by (auto simp: demo_recon_def)
qed

text \<open>
  A broken result passes. When the result of the wallet query breaks off before its first row, the
  run checks no wallet and is recorded as \<open>PASSED\<close>, although both wallets of this state disagree with
  the ledger.
\<close>

definition demo_broken :: world where
  "demo_broken = demo_world\<lparr>db := demo_db\<lparr>ledger_transactions := [], ledger_entries := []\<rparr>\<rparr>"

lemma reconciliation_broken_result:
  "case RunReconciliation (demo_env\<lparr>row_break := (\<lambda>n. Some 0)\<rparr>) demo_broken of (r, w') \<Rightarrow>
     \<not> books_agree (db demo_broken) \<and>
     map (\<lambda>x. (run_Status x, run_WalletsChecked x)) (reconciliation_runs (db w')) = [(''PASSED'', 0)] \<and>
     map (\<lambda>x. (run_Status x, run_WalletsChecked x)) (reconciliation_runs (db (snd (RunReconciliation demo_env demo_broken)))) = [(''FAILED'', 2)]"
  by code_simp

text \<open>
  The report of a mismatch does not contain the two balances: in the concrete state every
  mismatch is recorded with the same text.
\<close>

lemma reconciliation_report_text:
  "map it_Details (reconciliation_items (db (snd (RunReconciliation demo_env demo_broken)))) =
     [JString ''Expected %!d(<nil>), got %!d(<nil>)'', JString ''Expected %!d(<nil>), got %!d(<nil>)'']"
  by code_simp

end
