(* ===== verification/Server.thy ===== *)
theory Server
  imports Auth_Correctness Wallet_Handlers Transfer_Handler Reconciliation
begin

text \<open>
  The HTTP surface: \<open>internal/config\<close>, and the route table and middleware stack that
  \<open>internal/server/server.go\<close> builds from the handlers' \<open>RegisterRoutes\<close>. The properties say which requests
  need a token, which need a role, and what an unauthenticated client can reach.
\<close>

section \<open>Configuration\<close>

record Config =
  cfg_Env :: string
  cfg_ServerPort :: string
  cfg_DatabaseURL :: string
  cfg_RedisURL :: string
  cfg_KafkaBroker :: string
  cfg_JWTSecret :: string

text \<open>\<open>vars\<close> are the environment variables, after a \<open>.env\<close> file has been read into them.\<close>

definition getEnv :: "(string \<Rightarrow> string option) \<Rightarrow> string \<Rightarrow> string \<Rightarrow> string" where
  "getEnv vars key defaultVal = (case vars key of Some v \<Rightarrow> v | None \<Rightarrow> defaultVal)"

text \<open>\<open>Inl\<close> is \<open>log.Fatal\<close>.\<close>

definition LoadConfig :: "(string \<Rightarrow> string option) \<Rightarrow> error + Config" where
  "LoadConfig vars =
     (let cfg = \<lparr>cfg_Env = getEnv vars ''ENV'' ''development'',
                 cfg_ServerPort = getEnv vars ''SERVER_PORT'' ''8080'',
                 cfg_DatabaseURL = getEnv vars ''DATABASE_URL'' '''',
                 cfg_RedisURL = getEnv vars ''REDIS_URL'' ''redis://localhost:6379/0'',
                 cfg_KafkaBroker = getEnv vars ''KAFKA_BROKER'' ''localhost:9092'',
                 cfg_JWTSecret = getEnv vars ''JWT_SECRET'' ''super-secret-key''\<rparr>
      in if cfg_DatabaseURL cfg = '''' then Inl (ErrorsNew ''DATABASE_URL environment variable is required'') else Inr cfg)"

section \<open>Routes\<close>

text \<open>
  What chi and its companion packages decide: the methods it knows, the address \<open>middleware.RealIP\<close>
  derives, the answer of \<open>cors.Handler\<close> to a preflight request, the pattern it reports for the metrics; and the
  handler of the Prometheus client.
\<close>

record http_lib =
  chi_method :: "string \<Rightarrow> bool"
  real_ip :: "request \<Rightarrow> string"
  cors_preflight :: "request \<Rightarrow> response option"
  route_pattern :: "request \<Rightarrow> world \<Rightarrow> string"
  promhttp_handler :: handler

definition not_found :: handler where
  "not_found rq w = (http_Error (TextBody ''404 page not found'') 404, w)"

definition by_method :: "(string \<times> handler) list \<Rightarrow> handler" where
  "by_method hs rq w =
     (case map_of hs (rq_method rq) of
        None \<Rightarrow> (http_Error NoBody 405, w)
      | Some h \<Rightarrow> h rq w)"

definition with_id :: "string \<Rightarrow> handler \<Rightarrow> handler" where
  "with_id i h rq w = h (rq\<lparr>rq_id := i\<rparr>) w"

text \<open>
  A subrouter gets the path below its mount point; its route \<open>/\<close> is reached with and without the trailing
  slash. A parameter does not match an empty last segment.
\<close>

fun wallet_routes :: "env \<Rightarrow> string list \<Rightarrow> handler" where
  "wallet_routes E [] = by_method [(''POST'', HandleCreateWallet E), (''GET'', HandleGetWallets E)]"
| "wallet_routes E [i] =
     (if i = '''' then by_method [(''POST'', HandleCreateWallet E), (''GET'', HandleGetWallets E)]
      else by_method [(''GET'', with_id i (HandleGetWallet E))])"
| "wallet_routes E [i, op] =
     (if op = ''balance'' then by_method [(''GET'', with_id i (HandleGetBalance E))]
      else if op = ''transactions'' then by_method [(''GET'', with_id i (HandleGetTransactions E))]
      else if op = ''freeze'' then by_method [(''POST'', RequireRole [RoleSystem, RoleAdmin] (with_id i (HandleFreezeWallet E)))]
      else if op = ''unfreeze'' then by_method [(''POST'', RequireRole [RoleSystem, RoleAdmin] (with_id i (HandleUnfreezeWallet E)))]
      else not_found)"
| "wallet_routes E _ = not_found"

definition transfer_routes :: "env \<Rightarrow> string list \<Rightarrow> handler" where
  "transfer_routes E path = (if path \<in> {[], ['''']} then by_method [(''POST'', HandleTransfer E)] else not_found)"

definition payment_routes :: "env \<Rightarrow> string \<Rightarrow> string list \<Rightarrow> handler" where
  "payment_routes E secret path =
     (if path \<in> {[], ['''']} then by_method [(''POST'', HandleCreatePayment E)]
      else if path = [''demo-fund''] then by_method [(''POST'', HandleDemoFund E)]
      else if path = [''webhook''] then by_method [(''POST'', HandleWebhook E secret)]
      else not_found)"

definition reconciliation_routes :: "env \<Rightarrow> string list \<Rightarrow> handler" where
  "reconciliation_routes E path =
     (if path = [''runs''] then by_method [(''GET'', RequireRole [RoleSystem, RoleAdmin] (HandleGetRuns E))] else not_found)"

definition auth_routes :: "authlib \<Rightarrow> env \<Rightarrow> string \<Rightarrow> string list \<Rightarrow> handler" where
  "auth_routes L E secret path =
     (if path = [''register''] then by_method [(''POST'', HandleRegister L E secret)]
      else if path = [''login''] then by_method [(''POST'', HandleLogin L E secret)]
      else not_found)"

definition HandleHealth :: handler where
  "HandleHealth rq w = (\<lparr>resp_status = 200, resp_body = TextBody ''OK''\<rparr>, w)"

definition HandleReady :: "env \<Rightarrow> handler" where
  "HandleReady E rq w =
     (case sql E (\<lambda>u t d. Inr ((), d)) w of
        (Inl _, w1) \<Rightarrow> (http_Error (TextBody ''Database unavailable'') 503, w1)
      | (Inr _, w1) \<Rightarrow> (\<lparr>resp_status = 200, resp_body = TextBody ''READY''\<rparr>, w1))"

text \<open>The group behind \<open>AuthMiddleware\<close>: the middleware wraps the mounted subrouters, so that it also runs for paths they do not know.\<close>

definition authenticated :: "authlib \<Rightarrow> env \<Rightarrow> Config \<Rightarrow> string \<Rightarrow> string list \<Rightarrow> handler" where
  "authenticated L E cfg mount path =
     AuthMiddleware L E (cfg_JWTSecret cfg)
       (if mount = ''wallets'' then wallet_routes E path
        else if mount = ''transfers'' then transfer_routes E path
        else if mount = ''payments'' then payment_routes E (cfg_JWTSecret cfg) path
        else reconciliation_routes E path)"

definition api_routes :: "authlib \<Rightarrow> env \<Rightarrow> Config \<Rightarrow> string list \<Rightarrow> handler" where
  "api_routes L E cfg path =
     (case path of
        [] \<Rightarrow> not_found
      | mount # rest \<Rightarrow>
          (if mount = ''auth'' then auth_routes L E (cfg_JWTSecret cfg) rest
           else if mount \<in> {''wallets'', ''transfers'', ''payments'', ''reconciliation''} then authenticated L E cfg mount rest
           else if path = [''webhooks'', ''payment-provider''] then by_method [(''POST'', HandleWebhook E (cfg_JWTSecret cfg))]
           else not_found))"

definition routes :: "http_lib \<Rightarrow> authlib \<Rightarrow> env \<Rightarrow> Config \<Rightarrow> handler" where
  "routes C L E cfg rq w =
     (if \<not> chi_method C (rq_method rq) then (http_Error NoBody 405, w)
      else if rq_path rq = [''metrics''] then by_method [(''GET'', promhttp_handler C)] rq w
      else if rq_path rq = [''health''] then by_method [(''GET'', HandleHealth)] rq w
      else if rq_path rq = [''ready''] then by_method [(''GET'', HandleReady E)] rq w
      else if take 2 (rq_path rq) = [''api'', ''v1''] then api_routes L E cfg (drop 2 (rq_path rq)) rq w
      else not_found rq w)"

text \<open>
  The middleware stack. \<open>RequestID\<close> and \<open>Logger\<close> change nothing the handlers see; \<open>Recoverer\<close> and
  \<open>Timeout\<close> act on panics and on the clock, which are not modelled. \<open>hasRedis\<close> is \<open>rdb != nil\<close>.
\<close>

definition cors_Handler :: "http_lib \<Rightarrow> handler \<Rightarrow> handler" where
  "cors_Handler C h rq w = (case cors_preflight C rq of Some resp \<Rightarrow> (resp, w) | None \<Rightarrow> h rq w)"

definition NewServer :: "http_lib \<Rightarrow> authlib \<Rightarrow> env \<Rightarrow> Config \<Rightarrow> bool \<Rightarrow> handler" where
  "NewServer C L E cfg hasRedis rq =
     MetricsMiddleware E (route_pattern C)
       (cors_Handler C (if hasRedis then RateLimiter E 100 (routes C L E cfg) else routes C L E cfg))
       (rq\<lparr>rq_remote_addr := real_ip C rq, rq_claims := None\<rparr>)"


section \<open>The middlewares and the database\<close>

lemma Allow_db: "Allow E key limit window w = (r, w') \<Longrightarrow> db w' = db w"
  by (auto simp: Allow_def mbind_def mwrap_def redis_call_def mfail_def mret_def Let_def
      split: prod.splits sum.splits option.splits stmt_failure.splits if_splits)

lemma RateLimiter_cases:
  obtains (limited) "db (snd (RateLimiter E limit h rq w)) = db w" "resp_status (fst (RateLimiter E limit h rq w)) = 429"
    | (passed) w1 where "RateLimiter E limit h rq w = h rq w1" "db w1 = db w"
proof -
  obtain r w1 where a: "Allow E (''ratelimit:ip:'' @ client_ip rq) limit 60 w = (r, w1)" by (meson surj_pair)
  from Allow_db [OF a] have w1: "db w1 = db w" .
  show thesis
  proof (cases "r = Inl ErrRateLimitExceeded")
    case True
    with a w1 show thesis by (intro limited) (simp_all add: RateLimiter_def http_Error_def)
  next
    case False
    with a w1 show thesis by (intro passed [of w1]) (auto simp: RateLimiter_def split: sum.splits)
  qed
qed

lemma MetricsMiddleware_db [simp]: "db (snd (MetricsMiddleware E p h rq w)) = db (snd (h rq (w\<lparr>tick := Suc (tick w)\<rparr>)))"
  by (simp add: MetricsMiddleware_def Let_def split: prod.splits)

lemma MetricsMiddleware_resp [simp]: "fst (MetricsMiddleware E p h rq w) = fst (h rq (w\<lparr>tick := Suc (tick w)\<rparr>))"
  by (simp add: MetricsMiddleware_def Let_def split: prod.splits)

text \<open>What the handlers get to see of a request.\<close>

definition routed :: "http_lib \<Rightarrow> request \<Rightarrow> request" where
  "routed C rq = rq\<lparr>rq_remote_addr := real_ip C rq, rq_claims := None\<rparr>"

lemma routed_sel [simp]:
  "rq_method (routed C rq) = rq_method rq" "rq_path (routed C rq) = rq_path rq" "rq_header (routed C rq) = rq_header rq"
  "rq_body (routed C rq) = rq_body rq"
  by (simp_all add: routed_def)

text \<open>A request is stopped by the stack, without an effect on the database, or reaches the route table.\<close>

lemma NewServer_cases:
  obtains (stopped) "db (snd (NewServer C L E cfg hasRedis rq w)) = db w"
    | (reached) w1 where "db w1 = db w" "db (snd (NewServer C L E cfg hasRedis rq w)) = db (snd (routes C L E cfg (routed C rq) w1))"
proof (cases "cors_preflight C (routed C rq)")
  case (Some resp)
  with stopped show thesis by (simp add: NewServer_def cors_Handler_def routed_def)
next
  case None
  show thesis
  proof (cases hasRedis)
    case False
    with None reached [of "w\<lparr>tick := Suc (tick w)\<rparr>"] show thesis by (simp add: NewServer_def cors_Handler_def routed_def)
  next
    case True
    show thesis
    proof (cases rule: RateLimiter_cases [of E 100 "routes C L E cfg" "routed C rq" "w\<lparr>tick := Suc (tick w)\<rparr>"])
      case limited
      with None True stopped show thesis by (simp add: NewServer_def cors_Handler_def routed_def)
    next
      case (passed w1)
      with None True reached [of w1] show thesis by (simp add: NewServer_def cors_Handler_def routed_def)
    qed
  qed
qed

section \<open>Without a token\<close>

definition no_valid_token :: "authlib \<Rightarrow> env \<Rightarrow> string \<Rightarrow> request \<Rightarrow> bool" where
  "no_valid_token L E secret rq \<longleftrightarrow>
     (\<forall>n tok c. rq_header rq ''Authorization'' = ''Bearer '' @ tok \<longrightarrow> ValidateToken L (time_Now E n) tok secret \<noteq> Inr c)"

lemma AuthMiddleware_no_token:
  assumes "no_valid_token L E secret rq"
  shows "resp_status (fst (AuthMiddleware L E secret h rq w)) = 401 \<and> db (snd (AuthMiddleware L E secret h rq w)) = db w"
proof (cases "\<exists>tok. strings_Split (CHR '' '') (rq_header rq ''Authorization'') = [''Bearer'', tok]")
  case False
  then have "length (strings_Split (CHR '' '') (rq_header rq ''Authorization'')) \<noteq> 2 \<or>
      strings_Split (CHR '' '') (rq_header rq ''Authorization'') ! 0 \<noteq> ''Bearer''"
    by (auto simp: length_Suc_conv numeral_2_eq_2)
  then show ?thesis by (auto simp: AuthMiddleware_def Let_def http_Error_def)
next
  case True
  then obtain tok where sp: "strings_Split (CHR '' '') (rq_header rq ''Authorization'') = [''Bearer'', tok]" ..
  from strings_Split_two [OF sp] have h: "rq_header rq ''Authorization'' = ''Bearer '' @ tok" by simp
  with assms obtain e where "ValidateToken L (time_Now E (tick w)) tok secret = Inl e"
    unfolding no_valid_token_def by (cases "ValidateToken L (time_Now E (tick w)) tok secret") auto
  with sp h show ?thesis by (simp add: AuthMiddleware_def Let_def http_Error_def)
qed

lemma HandleLogin_db: "db (snd (HandleLogin L E secret rq w)) = db w"
proof -
  have "db w' = db w" if "auth_Login L E secret req w = (r, w')" for req r w'
  proof -
    obtain q w1 where q: "GetUserByEmail E (lr_Email req) w = (q, w1)" by (meson surj_pair)
    then obtain q' where "sql E (\<lambda>u t d. case row_with u_Email (lr_Email req) (users d) of None \<Rightarrow> Inl ErrNoRows | Some r \<Rightarrow> Inr (r, d)) w = (q', w1)"
      by (auto simp: GetUserByEmail_def mwrap_def split: prod.splits sum.splits)
    then have "w1 = w\<lparr>tick := Suc (tick w)\<rparr>" by (rule sql_query) (auto split: option.splits)
    with that q show ?thesis
      by (auto simp: auth_Login_def mbind_def mwrap_def GenerateToken_def mret_def mfail_def split: sum.splits if_splits)
  qed
  then show ?thesis
    by (auto simp: HandleLogin_def http_Error_def split: sum.splits prod.splits)
qed

lemma HandleReady_db: "db (snd (HandleReady E rq w)) = db w"
proof -
  obtain r w1 where "sql E (\<lambda>u t d. Inr ((), d)) w = (r, w1)" by (meson surj_pair)
  moreover from this have "w1 = w\<lparr>tick := Suc (tick w)\<rparr>" by (rule sql_query) auto
  ultimately show ?thesis by (auto simp: HandleReady_def split: sum.splits)
qed

lemma by_method_cases:
  obtains (none) "by_method hs rq w = (http_Error NoBody 405, w)" | (some) h where "(rq_method rq, h) \<in> set hs" "by_method hs rq w = h rq w"
  by (cases "map_of hs (rq_method rq)") (auto simp: by_method_def dest: map_of_SomeD)

lemma api_routes_no_token:
  assumes "no_valid_token L E (cfg_JWTSecret cfg) rq"
  shows "db (snd (api_routes L E cfg path rq w)) = db w \<or>
    (path = [''auth'', ''register''] \<and> rq_method rq = ''POST'' \<and>
       db (snd (api_routes L E cfg path rq w)) = db (snd (HandleRegister L E (cfg_JWTSecret cfg) rq w))) \<or>
    (path = [''webhooks'', ''payment-provider''] \<and> rq_method rq = ''POST'' \<and>
       db (snd (api_routes L E cfg path rq w)) = db (snd (HandleWebhook E (cfg_JWTSecret cfg) rq w)))"
  using AuthMiddleware_no_token [OF assms]
  by (auto simp: api_routes_def not_found_def authenticated_def auth_routes_def by_method_def HandleLogin_db split: list.splits)


text \<open>
  Documented of the Prometheus handler: it reads the metrics and leaves the database alone.
\<close>

definition prom_reads :: "http_lib \<Rightarrow> bool" where
  "prom_reads C \<longleftrightarrow> (\<forall>rq w. db (snd (promhttp_handler C rq w)) = db w)"

lemma routes_other:
  assumes "prom_reads C"
  obtains (unchanged) "db (snd (routes C L E cfg rq w)) = db w"
    | (api) "take 2 (rq_path rq) = [''api'', ''v1'']" "routes C L E cfg rq w = api_routes L E cfg (drop 2 (rq_path rq)) rq w"
proof (cases "chi_method C (rq_method rq) \<and> rq_path rq \<notin> {[''metrics''], [''health''], [''ready'']} \<and> take 2 (rq_path rq) = [''api'', ''v1'']")
  case True
  then show thesis by (intro api) (simp_all add: routes_def)
next
  case False
  with assms show thesis
    by (intro unchanged) (auto simp: routes_def by_method_def not_found_def HandleHealth_def HandleReady_db prom_reads_def)
qed

text \<open>
  C20: what can be done without a token. A request without a token that is valid at some time changes the
  database only by registering a user or as a webhook that carries the HMAC of its body under the
  configured secret; every other path, wallet, transfer, payment and reconciliation included, leaves the database as it is.
\<close>

theorem unauthenticated_surface:
  assumes "prom_reads C" and "no_valid_token L E (cfg_JWTSecret cfg) rq"
  shows "db (snd (NewServer C L E cfg hasRedis rq w)) = db w \<or>
    (rq_path rq = [''api'', ''v1'', ''auth'', ''register''] \<and> rq_method rq = ''POST'' \<and>
       (\<exists>req u. user_added E req u (db w) (db (snd (NewServer C L E cfg hasRedis rq w))))) \<or>
    (rq_path rq = [''api'', ''v1'', ''webhooks'', ''payment-provider''] \<and> rq_method rq = ''POST'' \<and>
       (\<exists>payload. rq_body rq = Some payload \<and> rq_header rq ''X-Webhook-Signature'' = hmac_sha256_hex E (cfg_JWTSecret cfg) payload))"
proof (cases rule: NewServer_cases [of C L E cfg hasRedis rq w])
  case stopped
  then show ?thesis by simp
next
  case (reached w1)
  let ?rq = "routed C rq"
  have tok: "no_valid_token L E (cfg_JWTSecret cfg) ?rq" using assms(2) by (simp add: no_valid_token_def)
  from assms(1) show ?thesis
  proof (cases rule: routes_other [of C L E cfg ?rq w1])
    case unchanged
    with reached show ?thesis by simp
  next
    case api
    have path: "rq_path rq = [''api'', ''v1''] @ drop 2 (rq_path rq)"
      using api(1) append_take_drop_id [of 2 "rq_path rq"] by simp
    from api_routes_no_token [OF tok, of "drop 2 (rq_path rq)" w1] reached api(2) path
    consider "db (snd (NewServer C L E cfg hasRedis rq w)) = db w"
      | "rq_path rq = [''api'', ''v1'', ''auth'', ''register'']" "rq_method rq = ''POST''"
        "db (snd (NewServer C L E cfg hasRedis rq w)) = db (snd (HandleRegister L E (cfg_JWTSecret cfg) ?rq w1))"
      | "rq_path rq = [''api'', ''v1'', ''webhooks'', ''payment-provider'']" "rq_method rq = ''POST''"
        "db (snd (NewServer C L E cfg hasRedis rq w)) = db (snd (HandleWebhook E (cfg_JWTSecret cfg) ?rq w1))"
      by auto
    then show ?thesis
    proof cases
      case 1
      then show ?thesis by simp
    next
      case 2
      with HandleRegister_effect [of L E "cfg_JWTSecret cfg" ?rq w1, OF surjective_pairing] reached(1)
      show ?thesis by auto
    next
      case 3
      show ?thesis
      proof (cases "\<exists>payload. rq_body rq = Some payload \<and> rq_header rq ''X-Webhook-Signature'' = hmac_sha256_hex E (cfg_JWTSecret cfg) payload")
        case True
        with 3 show ?thesis by blast
      next
        case False
        then have "snd (HandleWebhook E (cfg_JWTSecret cfg) ?rq w1) = w1"
          by (intro HandleWebhook_unsigned [THEN conjunct1]) auto
        with 3 reached(1) show ?thesis by simp
      qed
    qed
  qed
qed

definition demo_http :: http_lib where
  "demo_http = \<lparr>chi_method = (\<lambda>m. m \<in> {''GET'', ''POST'', ''PUT'', ''DELETE'', ''OPTIONS''}), real_ip = rq_remote_addr,
     cors_preflight = (\<lambda>rq. None), route_pattern = (\<lambda>rq w. ''''), promhttp_handler = (\<lambda>rq w. (http_Error NoBody 200, w))\<rparr>"

definition demo_config :: Config where
  "demo_config = \<lparr>cfg_Env = ''test'', cfg_ServerPort = ''8080'', cfg_DatabaseURL = ''postgres://db'', cfg_RedisURL = '''',
     cfg_KafkaBroker = '''', cfg_JWTSecret = ''key''\<rparr>"

text \<open>A transfer without a token changes nothing.\<close>

theorem unauthenticated_surface_witness:
  "db (snd (NewServer demo_http demo_authlib demo_env demo_config True (demo_request ''key-2'') demo_world)) = demo_db"
proof -
  have "prom_reads demo_http" by (simp add: prom_reads_def demo_http_def)
  moreover have "no_valid_token demo_authlib demo_env (cfg_JWTSecret demo_config) (demo_request ''key-2'')"
    by (simp add: no_valid_token_def demo_request_def)
  ultimately show ?thesis
    using unauthenticated_surface [of demo_http demo_authlib demo_env demo_config "demo_request ''key-2''" True demo_world]
    by (simp add: demo_request_def demo_world_def)
qed

section \<open>Configuration\<close>

text \<open>
  The configuration. The service starts only with a database URL; every other setting has a default,
  the signing secret included: without \<open>JWT_SECRET\<close> tokens and webhooks are signed with a secret that is in
  the source.
\<close>

lemma config_defaults:
  "LoadConfig vars = Inl (ErrorsNew ''DATABASE_URL environment variable is required'') \<and> (vars ''DATABASE_URL'' = None \<or> vars ''DATABASE_URL'' = Some '''') \<or>
   (\<exists>cfg. LoadConfig vars = Inr cfg \<and> vars ''DATABASE_URL'' = Some (cfg_DatabaseURL cfg) \<and> cfg_DatabaseURL cfg \<noteq> '''' \<and>
      cfg_JWTSecret cfg = (case vars ''JWT_SECRET'' of None \<Rightarrow> ''super-secret-key'' | Some s \<Rightarrow> s))"
  by (auto simp: LoadConfig_def getEnv_def Let_def split: option.splits)

end
