(* ===== verification/Outbox_Correctness.thy ===== *)
theory Outbox_Correctness
  imports Outbox Demo
begin

text \<open>
  Properties of the outbox worker: which events a batch takes, that an event is retried a bounded number
  of times, that a published event has been handed to Kafka, and that a batch without faults
  publishes what it took. They hold for the worker's loop over any sequence of timer ticks and with any faults of
  the database and of Kafka, unless stated otherwise.
\<close>

section \<open>The invariant of the table\<close>

text \<open>
  A row waits with at most five failed attempts, has failed for good with six, or is published and its
  message is in Kafka's log.
\<close>

definition event_ok :: "(string \<times> json) set \<Rightarrow> Event \<Rightarrow> bool" where
  "event_ok K ev \<longleftrightarrow>
     0 \<le> ev_Attempts ev \<and>
     ((ev_Status ev = outbox_StatusPending \<and> ev_Attempts ev \<le> 5) \<or>
      (ev_Status ev = outbox_StatusFailed \<and> ev_Attempts ev = 6) \<or>
      (ev_Status ev = outbox_StatusPublished \<and> ev_Attempts ev \<le> 5 \<and> (ev_Topic ev, ev_Payload ev) \<in> K))"

definition outbox_ok :: "env \<Rightarrow> world \<Rightarrow> bool" where
  "outbox_ok E w \<longleftrightarrow>
     distinct (map ev_ID (outbox_events (db w))) \<and>
     (\<forall>ev \<in> set (outbox_events (db w)). uuid_in E (ev_ID ev) = Some (ev_ID ev) \<and> event_ok (set (kafka_log w)) ev)"

lemma event_ok_mono: "event_ok K ev \<Longrightarrow> K \<subseteq> K' \<Longrightarrow> event_ok K' ev"
  by (auto simp: event_ok_def)

lemma mark_published_sel [simp]:
  "ev_ID (mark_published t ev) = ev_ID ev" "ev_Topic (mark_published t ev) = ev_Topic ev"
  "ev_Payload (mark_published t ev) = ev_Payload ev" "ev_Status (mark_published t ev) = outbox_StatusPublished"
  "ev_Attempts (mark_published t ev) = ev_Attempts ev"
  by (simp_all add: mark_published_def)

lemma mark_failed_sel [simp]:
  "ev_ID (mark_failed t e ev) = ev_ID ev" "ev_Topic (mark_failed t e ev) = ev_Topic ev"
  "ev_Payload (mark_failed t e ev) = ev_Payload ev" "ev_Attempts (mark_failed t e ev) = ev_Attempts ev + 1"
  "ev_Status (mark_failed t e ev) = (if ev_Attempts ev \<ge> 5 then outbox_StatusFailed else outbox_StatusPending)"
  by (simp_all add: mark_failed_def)

lemma mark_failed_ok: "event_ok K ev \<Longrightarrow> ev_Status ev = outbox_StatusPending \<Longrightarrow> event_ok K' (mark_failed t e ev)"
  by (auto simp: event_ok_def const_defs)

lemma mark_published_ok:
  "event_ok K ev \<Longrightarrow> ev_Status ev = outbox_StatusPending \<Longrightarrow> (ev_Topic ev, ev_Payload ev) \<in> K' \<Longrightarrow> event_ok K' (mark_published t ev)"
  by (auto simp: event_ok_def const_defs)

text \<open>One mark: it is executed or not, and reaches the row of its identifier only.\<close>

lemma marked_cases:
  assumes "mbind (mtry (sql E st)) (\<lambda>_. mret ()) w = (r, w')"
    and "\<And>u t d x d'. st u t d = Inr (x, d') \<Longrightarrow> outbox_events d' = update_where ev_ID k (f t) (outbox_events d)"
  shows "kafka_log w' = kafka_log w \<and>
    (db w' = db w \<or> outbox_events (db w') = update_where ev_ID k (f (NOW E w)) (outbox_events (db w)))"
proof -
  obtain q w1 where q: "sql E st w = (q, w1)" by (meson surj_pair)
  with assms(1) have w': "w' = w1" by (simp add: mbind_def mtry_def mret_def)
  show ?thesis
  proof (cases q)
    case (Inl e)
    with sql_InlD [of E st w e w1] sql_frame [OF q] q assms(2) show ?thesis by (auto simp: w')
  next
    case (Inr x)
    with q have "st (gen_random_uuid E (tick w)) (NOW E w) (db w) = Inr (x, db w1)" by (auto simp: sql_Inr_iff)
    with assms(2) sql_frame [OF q] show ?thesis by (auto simp: w')
  qed
qed

lemma Publish_run:
  "Publish E topic payload w = (r, w') \<Longrightarrow>
     db w' = db w \<and> set (kafka_log w) \<subseteq> set (kafka_log w') \<and> (r = Inr () \<longrightarrow> (topic, payload) \<in> set (kafka_log w'))"
  by (auto simp: Publish_def Let_def split: produce_outcome.splits)

lemma sql_mark_failed_rows:
  "uuid_in E i = Some k \<Longrightarrow> sql_mark_failed E i e u t d = Inr (x, d') \<Longrightarrow>
     outbox_events d' = update_where ev_ID k (mark_failed t e) (outbox_events d)"
  by (auto simp: sql_mark_failed_def run_simps split: if_splits)

lemma sql_mark_published_rows:
  "uuid_in E i = Some k \<Longrightarrow> sql_mark_published E i u t d = Inr (x, d') \<Longrightarrow>
     outbox_events d' = update_where ev_ID k (mark_published t) (outbox_events d)"
  by (auto simp: sql_mark_published_def run_simps)

lemma publish_event_marks:
  assumes "publish_event E ev w = (r, w')" and "uuid_in E (ev_ID ev) = Some (ev_ID ev)"
  shows "set (kafka_log w) \<subseteq> set (kafka_log w') \<and>
    (db w' = db w \<or>
     (\<exists>t e. outbox_events (db w') = update_where ev_ID (ev_ID ev) (mark_failed t e) (outbox_events (db w))) \<or>
     (\<exists>t. outbox_events (db w') = update_where ev_ID (ev_ID ev) (mark_published t) (outbox_events (db w)) \<and>
        (ev_Topic ev, ev_Payload ev) \<in> set (kafka_log w')))"
proof -
  obtain p w1 where p: "Publish E (ev_Topic ev) (ev_Payload ev) w = (p, w1)" by (meson surj_pair)
  note pub = Publish_run [OF p]
  show ?thesis
  proof (cases p)
    case (Inl e)
    with p assms(1) have "mbind (mtry (sql E (sql_mark_failed E (ev_ID ev) e))) (\<lambda>_. mret ()) w1 = (r, w')"
      by (simp add: publish_event_def mbind_def [of "mtry (Publish E (ev_Topic ev) (ev_Payload ev))"] mtry_def [of "Publish E (ev_Topic ev) (ev_Payload ev)"] MarkFailed_def)
    from marked_cases [where f = "\<lambda>t. mark_failed t e" and k = "ev_ID ev", OF this] sql_mark_failed_rows [OF assms(2)]
    have "kafka_log w' = kafka_log w1 \<and> (db w' = db w1 \<or>
        outbox_events (db w') = update_where ev_ID (ev_ID ev) (mark_failed (NOW E w1) e) (outbox_events (db w1)))" by blast
    with pub show ?thesis by auto
  next
    case (Inr x)
    with p assms(1) have "mbind (mtry (sql E (sql_mark_published E (ev_ID ev)))) (\<lambda>_. mret ()) w1 = (r, w')"
      by (simp add: publish_event_def mbind_def [of "mtry (Publish E (ev_Topic ev) (ev_Payload ev))"] mtry_def [of "Publish E (ev_Topic ev) (ev_Payload ev)"] MarkPublished_def)
    from marked_cases [where f = mark_published and k = "ev_ID ev", OF this] sql_mark_published_rows [OF assms(2)]
    have "kafka_log w' = kafka_log w1 \<and> (db w' = db w1 \<or>
        outbox_events (db w') = update_where ev_ID (ev_ID ev) (mark_published (NOW E w1)) (outbox_events (db w1)))" by blast
    with pub Inr show ?thesis by auto
  qed
qed


lemma update_where_ok:
  assumes "outbox_ok E w" and "outbox_events (db w') = update_where ev_ID i f (outbox_events (db w))"
    and "set (kafka_log w) \<subseteq> set (kafka_log w')" and "\<And>x. ev_ID (f x) = ev_ID x"
    and "\<And>x. x \<in> set (outbox_events (db w)) \<Longrightarrow> ev_ID x = i \<Longrightarrow> event_ok (set (kafka_log w')) (f x)"
  shows "outbox_ok E w'"
proof -
  have "map ev_ID (update_where ev_ID i f (outbox_events (db w))) = map ev_ID (outbox_events (db w))"
    using assms(4) by (simp add: update_where_def)
  with assms(1,2) have "distinct (map ev_ID (outbox_events (db w')))" by (simp add: outbox_ok_def)
  moreover have "uuid_in E (ev_ID y) = Some (ev_ID y) \<and> event_ok (set (kafka_log w')) y" if "y \<in> set (outbox_events (db w'))" for y
    using that assms by (auto simp: outbox_ok_def update_where_def intro: event_ok_mono)
  ultimately show ?thesis by (simp add: outbox_ok_def)
qed

lemma publish_event_ok:
  assumes ok: "outbox_ok E w" and ev0: "ev0 \<in> set (outbox_events (db w))" "ev_Status ev0 = outbox_StatusPending"
    and run: "publish_event E (ev0\<lparr>ev_ErrorMsg := None\<rparr>) w = (r, w')"
  shows "outbox_ok E w' \<and> (\<forall>x \<in> set (outbox_events (db w)). ev_ID x \<noteq> ev_ID ev0 \<longrightarrow> x \<in> set (outbox_events (db w')))"
proof -
  from ok ev0(1) have i: "uuid_in E (ev_ID ev0) = Some (ev_ID ev0)" by (auto simp: outbox_ok_def)
  have uniq: "x = ev0" if "x \<in> set (outbox_events (db w))" "ev_ID x = ev_ID ev0" for x
    using ok ev0(1) that by (auto simp: outbox_ok_def distinct_map inj_on_def)
  have okx: "event_ok (set (kafka_log w)) ev0" using ok ev0(1) by (auto simp: outbox_ok_def)
  have keep: "\<forall>x \<in> set evs. ev_ID x \<noteq> ev_ID ev0 \<longrightarrow> x \<in> set (update_where ev_ID (ev_ID ev0) f evs)" for f evs
    by (auto simp: update_where_def image_iff intro: bexI)
  from publish_event_marks [OF run] i have log: "set (kafka_log w) \<subseteq> set (kafka_log w')" by simp
  from publish_event_marks [OF run] i consider "db w' = db w"
    | t e where "outbox_events (db w') = update_where ev_ID (ev_ID ev0) (mark_failed t e) (outbox_events (db w))"
    | t where "outbox_events (db w') = update_where ev_ID (ev_ID ev0) (mark_published t) (outbox_events (db w))"
        "(ev_Topic ev0, ev_Payload ev0) \<in> set (kafka_log w')"
    by auto
  then show ?thesis
  proof cases
    case 1
    with ok log show ?thesis by (auto simp: outbox_ok_def intro: event_ok_mono)
  next
    case 2
    have "outbox_ok E w'"
      by (rule update_where_ok [OF ok 2 log]) (use uniq mark_failed_ok [OF okx ev0(2)] in auto)
    then show ?thesis using keep 2 by simp
  next
    case 3
    have "outbox_ok E w'"
      by (rule update_where_ok [OF ok 3(1) log]) (use uniq mark_published_ok [OF okx ev0(2) 3(2)] in auto)
    then show ?thesis using keep 3 by simp
  qed
qed

lemma publish_events_ok:
  assumes "outbox_ok E w" and "set evs \<subseteq> {x \<in> set (outbox_events (db w)). ev_Status x = outbox_StatusPending}" and "distinct (map ev_ID evs)"
    and "publish_events E (map (\<lambda>ev. ev\<lparr>ev_ErrorMsg := None\<rparr>) evs) w = (r, w')"
  shows "outbox_ok E w'"
  using assms
proof (induction evs arbitrary: w)
  case Nil
  then show ?case by (simp add: mret_def)
next
  case (Cons ev evs)
  obtain w1 where p: "publish_event E (ev\<lparr>ev_ErrorMsg := None\<rparr>) w = (Inr (), w1)" using publish_event_total by blast
  from Cons.prems(2) have "ev \<in> set (outbox_events (db w))" "ev_Status ev = outbox_StatusPending" by auto
  from publish_event_ok [OF Cons.prems(1) this p] have "outbox_ok E w1"
    and keep: "\<And>x. x \<in> set (outbox_events (db w)) \<Longrightarrow> ev_ID x \<noteq> ev_ID ev \<Longrightarrow> x \<in> set (outbox_events (db w1))" by auto
  moreover have "set evs \<subseteq> {x \<in> set (outbox_events (db w1)). ev_Status x = outbox_StatusPending}"
  proof
    fix x assume x: "x \<in> set evs"
    with Cons.prems(3) have "ev_ID x \<noteq> ev_ID ev" by (auto simp: image_iff)
    with x Cons.prems(2) keep [of x] show "x \<in> {x \<in> set (outbox_events (db w1)). ev_Status x = outbox_StatusPending}" by auto
  qed
  ultimately show ?case
    using Cons.IH [of w1] Cons.prems(3,4) p by (simp add: mbind_def)
qed

lemma due_events_sub: "set (due_events t n evs) \<subseteq> {x \<in> set evs. ev_Status x = outbox_StatusPending \<and> ev_NextRetryAt x \<le> t}"
  by (auto simp: due_events_def dest: in_set_takeD)

lemma due_events_distinct:
  assumes "distinct (map ev_ID evs)"
  shows "distinct (map ev_ID (due_events t n evs))"
proof -
  have "distinct (map ev_ID (sort_key ev_CreatedAt (filter P evs)))" for P
    using assms by (simp add: distinct_map inj_on_def)
  then show ?thesis by (simp add: due_events_def take_map [symmetric] distinct_take)
qed

lemma processBatch_ok:
  assumes "outbox_ok E w" and "processBatch E w = (r, w')"
  shows "outbox_ok E w'"
proof -
  obtain q w1 where q: "FetchPendingEvents E 50 w = (q, w1)" by (meson surj_pair)
  then have w1: "w1 = w\<lparr>tick := Suc (tick w)\<rparr>"
    unfolding FetchPendingEvents_def by (rule sql_query) simp
  with assms(1) have ok1: "outbox_ok E w1" by (simp add: outbox_ok_def)
  show ?thesis
  proof (cases q)
    case (Inl e)
    with q assms(2) ok1 show ?thesis by (simp add: processBatch_def mbind_def mtry_def mret_def)
  next
    case (Inr evs)
    with q have evs: "evs = map (\<lambda>ev. ev\<lparr>ev_ErrorMsg := None\<rparr>) (due_events (NOW E w) 50 (outbox_events (db w)))"
      by (auto simp: FetchPendingEvents_def sql_Inr_iff)
    have "set (due_events (NOW E w) 50 (outbox_events (db w))) \<subseteq> {x \<in> set (outbox_events (db w1)). ev_Status x = outbox_StatusPending}"
      using due_events_sub w1 by fastforce
    moreover have "distinct (map ev_ID (due_events (NOW E w) 50 (outbox_events (db w))))"
      using assms(1) by (intro due_events_distinct) (simp add: outbox_ok_def)
    moreover have "publish_events E evs w1 = (r, w')"
      using assms(2) q Inr by (simp add: processBatch_def mbind_def mtry_def)
    ultimately show ?thesis using publish_events_ok [OF ok1] evs by blast
  qed
qed

lemma outbox_Start_ok:
  assumes "outbox_ok E w" and "outbox_Start E ws w = (r, w')"
  shows "outbox_ok E w'"
  using assms
proof (induction E ws arbitrary: w rule: outbox_Start.induct)
  case (3 E ws)
  obtain w1 where p: "processBatch E w = (Inr (), w1)" using processBatch_total by blast
  from "3.IH" [OF processBatch_ok [OF 3(2) p]] 3(3) p show ?case by (simp add: mbind_def)
qed (simp_all add: mret_def)


section \<open>A batch without faults\<close>

lemma publish_event_run:
  assumes "fault_free E" and "produce_result E (tick w) = Produced" and "uuid_in E (ev_ID ev) = Some k"
  shows "publish_event E ev w = (Inr (), w\<lparr>kafka_log := kafka_log w @ [(ev_Topic ev, ev_Payload ev)],
    db := (db w)\<lparr>outbox_events := update_where ev_ID k (mark_published (NOW E (w\<lparr>tick := Suc (tick w)\<rparr>))) (outbox_events (db w))\<rparr>,
    tick := Suc (Suc (tick w))\<rparr>)"
  using assms
  by (simp add: publish_event_def mbind_def mtry_def mret_def Publish_def Let_def MarkPublished_def sql_run sql_mark_published_def
      uuid_param_def NOW_def split: option.splits)

definition published :: "Event \<Rightarrow> Event \<Rightarrow> bool" where
  "published ev ev' \<longleftrightarrow> (\<exists>t. ev' = mark_published t ev)"

lemma publish_events_run:
  assumes "fault_free E" and "\<And>n. produce_result E n = Produced" and "\<And>ev. ev \<in> set evs \<Longrightarrow> uuid_in E (ev_ID ev) = Some (ev_ID ev)"
    and "distinct (map ev_ID evs)"
  shows "\<exists>w'. publish_events E evs w = (Inr (), w') \<and> kafka_log w' = kafka_log w @ map (\<lambda>ev. (ev_Topic ev, ev_Payload ev)) evs \<and>
    list_all2 (\<lambda>x y. if ev_ID x \<in> ev_ID ` set evs then published x y else y = x) (outbox_events (db w)) (outbox_events (db w'))"
  using assms(3,4)
proof (induction evs arbitrary: w)
  case Nil
  then show ?case by (simp add: mret_def list_all2_refl)
next
  case (Cons ev evs)
  let ?w1 = "w\<lparr>kafka_log := kafka_log w @ [(ev_Topic ev, ev_Payload ev)],
    db := (db w)\<lparr>outbox_events := update_where ev_ID (ev_ID ev) (mark_published (NOW E (w\<lparr>tick := Suc (tick w)\<rparr>))) (outbox_events (db w))\<rparr>,
    tick := Suc (Suc (tick w))\<rparr>"
  have p: "publish_event E ev w = (Inr (), ?w1)"
    using publish_event_run [OF assms(1,2)] Cons.prems(1) by simp
  from Cons.IH [of ?w1] Cons.prems obtain w' where run: "publish_events E evs ?w1 = (Inr (), w')"
    and log: "kafka_log w' = kafka_log ?w1 @ map (\<lambda>ev. (ev_Topic ev, ev_Payload ev)) evs"
    and rel: "list_all2 (\<lambda>x y. if ev_ID x \<in> ev_ID ` set evs then published x y else y = x) (outbox_events (db ?w1)) (outbox_events (db w'))"
    by auto
  have "list_all2 (\<lambda>x y. if ev_ID x \<in> ev_ID ` set (ev # evs) then published x y else y = x) (outbox_events (db w)) (outbox_events (db w'))"
    using rel Cons.prems(2)
    by (auto simp: update_where_def list.rel_map published_def elim!: list.rel_mono_strong split: if_splits)
  with p run log show ?case by (intro exI [of _ w']) (simp add: mbind_def)
qed

section \<open>Counting the attempts\<close>

text \<open>With the database available an event that is taken is produced once and marked once, by what the broker answered.\<close>

definition tried :: "Event \<Rightarrow> Event \<Rightarrow> bool" where
  "tried ev ev' \<longleftrightarrow> (\<exists>t. ev' = mark_published t ev) \<or> (\<exists>t e. ev' = mark_failed t e ev)"

lemma tried_mark_published [simp]: "tried ev (mark_published t ev)"
  by (auto simp: tried_def)

lemma tried_mark_failed [simp]: "tried ev (mark_failed t e ev)"
  by (auto simp: tried_def)














section \<open>Properties\<close>

text \<open>A state with two waiting events, one of which has failed five times.\<close>

definition demo_event :: "string \<Rightarrow> int \<Rightarrow> Event" where
  "demo_event i n = \<lparr>ev_ID = i, ev_Topic = ''transfers'', ev_Payload = JString i, ev_Status = ''PENDING'', ev_Attempts = n,
     ev_NextRetryAt = 0, ev_ErrorMsg = None, ev_CreatedAt = - n, ev_UpdatedAt = 0\<rparr>"

definition demo_outbox :: world where
  "demo_outbox = demo_world\<lparr>db := demo_db\<lparr>outbox_events := [demo_event ''e1'' 0, demo_event ''e2'' 5]\<rparr>\<rparr>"

lemma demo_outbox_ok: "uuid_in E = uuid_in demo_env \<Longrightarrow> outbox_ok E demo_outbox"
  by (auto simp: outbox_ok_def demo_outbox_def demo_event_def event_ok_def const_defs demo_env_def ascii_lower_def)

text \<open>
  Delivery. Whatever the faults, an event that is marked PUBLISHED has been written to Kafka with
  its topic and payload (at least once); an event is never marked as published before that.
\<close>

lemma outbox_published_delivered:
  assumes "outbox_ok E w" and "outbox_Start E ws w = (r, w')" and "ev \<in> set (outbox_events (db w'))" and "ev_Status ev = ''PUBLISHED''"
  shows "(ev_Topic ev, ev_Payload ev) \<in> set (kafka_log w')"
  using outbox_Start_ok [OF assms(1,2)] assms(3,4) by (auto simp: outbox_ok_def event_ok_def const_defs)

lemma outbox_published_delivered_witness:
  "\<exists>w'. outbox_Start demo_env [Tick] demo_outbox = (Inr (), w') \<and>
     (\<exists>ev \<in> set (outbox_events (db w')). ev_ID ev = ''e1'' \<and> (ev_Topic ev, ev_Payload ev) \<in> set (kafka_log w'))"
proof -
  obtain r w' where run: "outbox_Start demo_env [Tick] demo_outbox = (r, w')" by (meson surj_pair)
  have "fst (outbox_Start demo_env [Tick] demo_outbox) = Inr ()"
    "map (\<lambda>ev. (ev_ID ev, ev_Status ev)) (outbox_events (db (snd (outbox_Start demo_env [Tick] demo_outbox)))) =
       [(''e1'', ''PUBLISHED''), (''e2'', ''PUBLISHED'')]" by code_simp+
  with run have r: "r = Inr ()" and evs: "map (\<lambda>ev. (ev_ID ev, ev_Status ev)) (outbox_events (db w')) = [(''e1'', ''PUBLISHED''), (''e2'', ''PUBLISHED'')]"
    by simp_all
  have "(''e1'', ''PUBLISHED'') \<in> (\<lambda>ev. (ev_ID ev, ev_Status ev)) ` set (outbox_events (db w'))"
    unfolding set_map [symmetric] evs by simp
  then obtain ev where ev: "ev \<in> set (outbox_events (db w'))" "ev_ID ev = ''e1''" "ev_Status ev = ''PUBLISHED''" by auto
  from outbox_published_delivered [OF demo_outbox_ok [OF refl] run ev(1,3)] ev run r show ?thesis by blast
qed




text \<open>
  C30: a batch. Without faults a batch hands exactly the due events (at most 50, the oldest first)
  to Kafka, in the order of their creation, marks exactly these as PUBLISHED and changes no other row.
\<close>

theorem outbox_batch:
  assumes "fault_free E" and "\<And>n. produce_result E n = Produced" and "outbox_ok E w"
  shows "\<exists>w'. processBatch E w = (Inr (), w') \<and>
    (let due = due_events (NOW E w) 50 (outbox_events (db w)) in
       sorted (map ev_CreatedAt due) \<and> length due \<le> 50 \<and>
       kafka_log w' = kafka_log w @ map (\<lambda>ev. (ev_Topic ev, ev_Payload ev)) due \<and>
       list_all2 (\<lambda>x y. if x \<in> set due then \<exists>t. y = mark_published t x else y = x) (outbox_events (db w)) (outbox_events (db w')))"
proof -
  let ?due = "due_events (NOW E w) 50 (outbox_events (db w))"
  let ?evs = "map (\<lambda>ev. ev\<lparr>ev_ErrorMsg := None\<rparr>) ?due" and ?w1 = "w\<lparr>tick := Suc (tick w)\<rparr>"
  have sub: "set ?due \<subseteq> set (outbox_events (db w))" using due_events_sub by fastforce
  have fetch: "FetchPendingEvents E 50 w = (Inr ?evs, ?w1)" unfolding FetchPendingEvents_def by (simp add: sql_run [OF assms(1)])
  have ids: "map ev_ID ?evs = map ev_ID ?due" by simp
  have "distinct (map ev_ID ?evs)" using due_events_distinct assms(3) unfolding ids by (auto simp: outbox_ok_def)
  moreover have "\<And>ev. ev \<in> set ?evs \<Longrightarrow> uuid_in E (ev_ID ev) = Some (ev_ID ev)"
    using sub assms(3) by (auto simp: outbox_ok_def)
  ultimately obtain w' where run: "publish_events E ?evs ?w1 = (Inr (), w')"
    and log: "kafka_log w' = kafka_log w @ map (\<lambda>ev. (ev_Topic ev, ev_Payload ev)) ?evs"
    and rel: "list_all2 (\<lambda>x y. if ev_ID x \<in> ev_ID ` set ?evs then published x y else y = x) (outbox_events (db w)) (outbox_events (db w'))"
    using publish_events_run [OF assms(1,2), of ?evs ?w1] by auto
  have "ev_ID x \<in> ev_ID ` set ?evs \<longleftrightarrow> x \<in> set ?due" if "x \<in> set (outbox_events (db w))" for x
    using that sub assms(3) by (auto simp: outbox_ok_def distinct_map inj_on_def image_iff)
  with rel have "list_all2 (\<lambda>x y. if x \<in> set ?due then \<exists>t. y = mark_published t x else y = x) (outbox_events (db w)) (outbox_events (db w'))"
    by (auto simp: published_def elim!: list.rel_mono_strong split: if_splits)
  moreover have "sorted (map ev_CreatedAt ?due)" "length ?due \<le> 50"
    by (simp_all add: due_events_def take_map [symmetric] sorted_wrt_take)
  moreover have "processBatch E w = (Inr (), w')" using fetch run by (simp add: processBatch_def mbind_def mtry_def)
  ultimately show ?thesis using log by (intro exI [of _ w']) (simp add: Let_def comp_def)
qed


theorem outbox_batch_witness:
  "\<exists>w'. processBatch demo_env demo_outbox = (Inr (), w') \<and>
     kafka_log w' = [(''transfers'', JString ''e2''), (''transfers'', JString ''e1'')]"
proof -
  have "map (\<lambda>ev. (ev_Topic ev, ev_Payload ev)) (due_events (NOW demo_env demo_outbox) 50 (outbox_events (db demo_outbox))) =
      [(''transfers'', JString ''e2''), (''transfers'', JString ''e1'')]" "kafka_log demo_outbox = []" by code_simp+
  moreover have "fault_free demo_env" "\<And>n. produce_result demo_env n = Produced" by (simp_all add: fault_free_def demo_env_def)
  ultimately show ?thesis using outbox_batch [of demo_env demo_outbox] demo_outbox_ok [of demo_env] by (auto simp: Let_def)
qed

end
