(* ===== verification/System.thy ===== *)
theory System
  imports Server Outbox_Correctness "HOL-Library.Sublist"
begin

text \<open>
  The running system: requests served one after the other, interleaved with the batches of the outbox
  worker and with reconciliation runs. The locale states what the server relies on of the service
  operations for a relation between the databases before and after; from it follows the relation
  for every request and for every reachable state. The theories above interpret it: the tables of record only
  grow, the schema holds, and the books are in order.
\<close>

section \<open>Steps of the system\<close>

text \<open>
  The environment answers per interaction (faults, clocks, identifiers), so that one environment covers a
  whole run. Requests and worker runs are atomic here: their interleaving inside the database is not modelled.
\<close>

inductive system_step :: "http_lib \<Rightarrow> authlib \<Rightarrow> env \<Rightarrow> Config \<Rightarrow> bool \<Rightarrow> world \<Rightarrow> world \<Rightarrow> bool"
  for C L E cfg hasRedis where
    request: "system_step C L E cfg hasRedis w (snd (NewServer C L E cfg hasRedis rq w))"
  | outbox_tick: "system_step C L E cfg hasRedis w (snd (processBatch E w))"
  | reconciliation_tick: "system_step C L E cfg hasRedis w (snd (RunReconciliation E w))"

inductive reachable :: "http_lib \<Rightarrow> authlib \<Rightarrow> env \<Rightarrow> Config \<Rightarrow> bool \<Rightarrow> world \<Rightarrow> world \<Rightarrow> bool"
  for C L E cfg hasRedis w0 where
    initial: "reachable C L E cfg hasRedis w0 w0"
  | step: "reachable C L E cfg hasRedis w0 w \<Longrightarrow> system_step C L E cfg hasRedis w w' \<Longrightarrow> reachable C L E cfg hasRedis w0 w'"

inductive_cases system_stepE: "system_step C L E cfg hasRedis w w'"

section \<open>What the server relies on\<close>

text \<open>
  \<open>request_contract\<close> is what requests and reconciliation runs need; \<open>service_contract\<close> adds the batches of the outbox
  worker and covers every step of the system.
\<close>

locale request_contract = db_relation R for R :: "db \<Rightarrow> db \<Rightarrow> bool" +
  fixes L :: authlib and E :: env and Q :: "JWTClaims \<Rightarrow> bool"
  assumes create_wallet: "R (db w) (db (snd (HandleCreateWallet E rq w)))"
    and set_status: "Q c \<Longrightarrow> c_Role c \<in> {RoleSystem, RoleAdmin} \<Longrightarrow> R (db w) (db (snd (UpdateWalletStatus E i s w)))"
    and transfer: "R (db w) (db (snd (HandleTransfer E rq w)))"
    and create_payment: "R (db w) (db (snd (CreatePayment E wid amount currency w)))"
    and webhook: "R (db w) (db (snd (ProcessWebhook E provider payload w)))"
    and register: "R (db w) (db (snd (HandleRegister L E secret rq w)))"
    and reconciliation: "R (db w) (db (snd (RunReconciliation E w)))"
begin

text \<open>A handler keeps the relation for every request whose claims, if it has been given any, satisfy \<open>Q\<close>.\<close>

definition allowed :: "request \<Rightarrow> bool" where
  "allowed rq \<longleftrightarrow> (\<forall>c. rq_claims rq = Some c \<longrightarrow> Q c)"

definition keeps :: "handler \<Rightarrow> bool" where
  "keeps h \<longleftrightarrow> (\<forall>rq w. allowed rq \<longrightarrow> R (db w) (db (snd (h rq w))))"

lemma keepsD: "keeps h \<Longrightarrow> allowed rq \<Longrightarrow> R (db w) (db (snd (h rq w)))"
  by (simp add: keeps_def)

lemma keeps_same: "(\<And>rq w. db (snd (h rq w)) = db w) \<Longrightarrow> keeps h"
  by (simp add: keeps_def R_refl)

lemma keeps_freeze:
  assumes "Q c" and "c_Role c \<in> {RoleSystem, RoleAdmin}"
  shows "keeps (HandleFreezeWallet E)" and "keeps (HandleUnfreezeWallet E)"
proof -
  have "db (snd (set_status_response p)) = db (snd p)" for p
    by (auto simp: set_status_response_def split: prod.splits sum.splits if_splits)
  then show "keeps (HandleFreezeWallet E)" "keeps (HandleUnfreezeWallet E)"
    using set_status [OF assms]
    by (simp_all add: keeps_def HandleFreezeWallet_def HandleUnfreezeWallet_def walletService_FreezeWallet_def walletService_UnfreezeWallet_def)
qed

lemma keeps_create_payment: "keeps (HandleCreatePayment E)"
  unfolding keeps_def
proof (intro allI impI)
  fix rq w
  have "R (db w) (db w1)" if "CreatePayment E a b c w = (r, w1)" for a b c r w1
    using create_payment [of w a b c] that by simp
  then show "R (db w) (db (snd (HandleCreatePayment E rq w)))"
    by (auto simp: HandleCreatePayment_def http_Error_def R_refl split: option.splits sum.splits prod.splits)
qed

lemma keeps_webhook: "keeps (HandleWebhook E secret)"
  unfolding keeps_def
proof (intro allI impI)
  fix rq w
  have "R (db w) (db w1)" if "ProcessWebhook E a b w = (r, w1)" for a b r w1
    using webhook [of w a b] that by simp
  then show "R (db w) (db (snd (HandleWebhook E secret rq w)))"
    by (auto simp: HandleWebhook_def http_Error_def Let_def R_refl split: option.splits sum.splits prod.splits)
qed

lemma keeps_demo_fund: "keeps (HandleDemoFund E)"
  unfolding keeps_def
proof (intro allI impI)
  fix rq w
  have one: "R (db w) (db w1)" if "CreatePayment E a b c w = (r, w1)" for a b c r w1
    using create_payment [of w a b c] that by simp
  have "R (db w) (db w2)" if "CreatePayment E a b c w = (r, w1)" "ProcessWebhook E p q w1 = (r', w2)" for a b c r w1 p q r' w2
    using webhook [of w1 p q] that R_trans [OF one [OF that(1)]] by simp
  with one show "R (db w) (db (snd (HandleDemoFund E rq w)))"
    by (auto simp: HandleDemoFund_def http_Error_def R_refl split: option.splits sum.splits prod.splits)
qed

lemma keeps_runs: "keeps (HandleGetRuns E)"
proof (rule keeps_same)
  fix rq w
  obtain r w1 where s: "sql E (\<lambda>u t d. Inr (delivered (row_break E (tick w)) (recent_runs d), d)) w = (r, w1)" by (meson surj_pair)
  then have "w1 = w\<lparr>tick := Suc (tick w)\<rparr>" by (rule sql_query) auto
  with s show "db (snd (HandleGetRuns E rq w)) = db w" by (auto simp: HandleGetRuns_def split: sum.splits)
qed

lemma keeps_by_method: "list_all (\<lambda>(m, h). keeps h) hs \<Longrightarrow> keeps (by_method hs)"
  by (auto simp: keeps_def by_method_def list_all_iff R_refl split: option.splits dest!: map_of_SomeD)

lemma keeps_with_id: "keeps h \<Longrightarrow> keeps (with_id i h)"
  by (simp add: keeps_def with_id_def allowed_def)

lemma keeps_not_found: "keeps not_found"
  by (rule keeps_same) (simp add: not_found_def)

lemma keeps_RequireRole:
  assumes "\<And>c. Q c \<Longrightarrow> c_Role c \<in> set roles \<Longrightarrow> keeps h"
  shows "keeps (RequireRole roles h)"
  using assms by (auto simp: keeps_def RequireRole_def R_refl allowed_def list_ex_iff split: option.splits)

text \<open>What the tokens a request could carry allow.\<close>

definition admits :: "string \<Rightarrow> request \<Rightarrow> bool" where
  "admits secret rq \<longleftrightarrow>
     (\<forall>n tok c. rq_header rq ''Authorization'' = ''Bearer '' @ tok \<longrightarrow> ValidateToken L (time_Now E n) tok secret = Inr c \<longrightarrow> Q c)"

lemma AuthMiddleware_R:
  assumes h: "keeps h" and rq: "admits secret rq"
  shows "R (db w) (db (snd (AuthMiddleware L E secret h rq w)))"
proof (cases "\<exists>tok c. strings_Split (CHR '' '') (rq_header rq ''Authorization'') = [''Bearer'', tok] \<and>
    ValidateToken L (time_Now E (tick w)) tok secret = Inr c")
  case True
  then obtain tok c where sp: "strings_Split (CHR '' '') (rq_header rq ''Authorization'') = [''Bearer'', tok]"
    and v: "ValidateToken L (time_Now E (tick w)) tok secret = Inr c" by blast
  from strings_Split_two [OF sp] have hd: "rq_header rq ''Authorization'' = ''Bearer '' @ tok" by simp
  with rq v have "allowed (rq\<lparr>rq_claims := Some c\<rparr>)" by (auto simp: allowed_def admits_def)
  from keepsD [OF h this, of "w\<lparr>tick := Suc (tick w)\<rparr>"] sp v hd show ?thesis
    by (simp add: AuthMiddleware_def Let_def)
next
  case False
  then have "db (snd (AuthMiddleware L E secret h rq w)) = db w"
    by (auto simp: AuthMiddleware_def Let_def http_Error_def length_Suc_conv numeral_2_eq_2 split: sum.splits)
  then show ?thesis by (simp add: R_refl)
qed

lemmas keeps_reads = keeps_same [of "HandleGetWallet E", OF reads_keep_db(1)] keeps_same [of "HandleGetBalance E", OF reads_keep_db(2)]
  keeps_same [of "HandleGetTransactions E", OF reads_keep_db(3)] keeps_same [of "HandleGetWallets E", OF reads_keep_db(4)]
  keeps_same [of "HandleLogin L E secret" for secret, OF HandleLogin_db]

lemma keeps_writes: "keeps (HandleCreateWallet E)" "keeps (HandleTransfer E)" "keeps (HandleRegister L E secret)"
  using create_wallet transfer register by (simp_all add: keeps_def)

lemmas keeps_rules = keeps_by_method keeps_with_id keeps_not_found keeps_reads keeps_writes
  keeps_create_payment keeps_webhook keeps_demo_fund keeps_runs

lemma keeps_wallet_routes: "keeps (wallet_routes E path)"
proof -
  have "keeps (RequireRole [RoleSystem, RoleAdmin] (with_id i (HandleFreezeWallet E)))"
    "keeps (RequireRole [RoleSystem, RoleAdmin] (with_id i (HandleUnfreezeWallet E)))" for i
    by (rule keeps_RequireRole, rule keeps_with_id, erule keeps_freeze, simp)+
  then show ?thesis
    by (cases "(E, path)" rule: wallet_routes.cases) (simp_all add: keeps_rules)
qed

lemma keeps_reconciliation_routes: "keeps (reconciliation_routes E path)"
proof -
  have "keeps (RequireRole [RoleSystem, RoleAdmin] (HandleGetRuns E))" by (rule keeps_RequireRole) (rule keeps_runs)
  then show ?thesis by (simp add: reconciliation_routes_def keeps_rules)
qed

lemma api_routes_R:
  assumes "admits (cfg_JWTSecret cfg) rq" and "allowed rq"
  shows "R (db w) (db (snd (api_routes L E cfg path rq w)))"
proof -
  have "R (db w) (db (snd (authenticated L E cfg mount rest rq w)))" for mount rest
    unfolding authenticated_def
    by (rule AuthMiddleware_R [OF _ assms(1)])
      (simp add: transfer_routes_def payment_routes_def keeps_rules keeps_wallet_routes keeps_reconciliation_routes)
  moreover have "R (db w) (db (snd (h rq w)))" if "keeps h" for h using keepsD [OF that assms(2)] .
  ultimately show ?thesis
    by (auto simp: api_routes_def auth_routes_def keeps_rules split: list.split)
qed

text \<open>Every request.\<close>

lemma server:
  assumes "prom_reads C" and "admits (cfg_JWTSecret cfg) rq"
  shows "R (db w) (db (snd (NewServer C L E cfg hasRedis rq w)))"
proof (cases rule: NewServer_cases [of C L E cfg hasRedis rq w])
  case stopped
  then show ?thesis by (simp add: R_refl)
next
  case (reached w1)
  from assms(1) show ?thesis
  proof (cases rule: routes_other [of C L E cfg "routed C rq" w1])
    case unchanged
    with reached show ?thesis by (simp add: R_refl)
  next
    case api
    have "admits (cfg_JWTSecret cfg) (routed C rq)" "allowed (routed C rq)"
      using assms(2) by (simp_all add: admits_def allowed_def) (simp add: routed_def)
    with reached api api_routes_R [of cfg "routed C rq" w1 "drop 2 (rq_path rq)"] show ?thesis by simp
  qed
qed

end

locale service_contract = request_contract R L E Q for R L E Q +
  assumes batch: "R (db w) (db (snd (processBatch E w)))"
begin

text \<open>Every reachable state.\<close>

lemma reachable_R:
  assumes "reachable C L E cfg hasRedis w0 w" and "prom_reads C" and "\<And>c. Q c"
  shows "R (db w0) (db w)"
  using assms(1)
proof (induction rule: reachable.induct)
  case initial
  show ?case by (rule R_refl)
next
  case (step w w')
  from step(2) have "R (db w) (db w')"
    by (cases rule: system_stepE) (auto intro: server [OF assms(2)] batch reconciliation simp: admits_def assms(3))
  with step.IH show ?case by (rule R_trans)
qed

end

end
