(* ===== verification/Table_Contract.thy ===== *)
theory Table_Contract
  imports System
begin

text \<open>
  The contract between the tables and the services. What every insert and every update the code issues keeps of a
  relation between two databases, every operation of the services keeps, and so does every run of the
  system. Two interpretations: the tables of record only grow, and the constraints of the schema
  (\<open>db/migrations\<close>) hold in every reachable state.
\<close>

section \<open>From the tables to the services\<close>

lemmas stmt_defs = sql_insert_user_def sql_insert_account_def sql_insert_wallet_def sql_insert_transfer_def
  sql_insert_ledger_transaction_def sql_insert_ledger_entry_def sql_insert_outbox_event_def sql_insert_key_def sql_complete_key_def
  sql_insert_payment_def sql_insert_webhook_def sql_update_payment_def sql_mark_published_def sql_insert_run_def Let_def

text \<open>
  \<open>statement_contract\<close> has the inserts and updates of requests and reconciliation runs; the event a request inserts is
  waiting, has not been tried and has a generated identifier. \<open>table_contract\<close> adds the marks of the outbox worker.
\<close>

locale statement_contract = db_relation R for R :: "db \<Rightarrow> db \<Rightarrow> bool" +
  fixes L :: authlib and E :: env and Q :: "JWTClaims \<Rightarrow> bool"
  assumes ins_users: "insert_users user d = Inr d' \<Longrightarrow> R d d'"
    and ins_accounts: "insert_accounts acct d = Inr d' \<Longrightarrow> R d d'"
    and ins_wallets: "insert_wallets wl d = Inr d' \<Longrightarrow> R d d'"
    and ins_ledger_transactions: "insert_ledger_transactions lt d = Inr d' \<Longrightarrow> R d d'"
    and ins_ledger_entries: "insert_ledger_entries e d = Inr d' \<Longrightarrow> R d d'"
    and ins_idempotency_keys: "insert_idempotency_keys ik d = Inr d' \<Longrightarrow> R d d'"
    and ins_transfers: "insert_transfers tr d = Inr d' \<Longrightarrow> R d d'"
    and ins_payments: "insert_payments pay d = Inr d' \<Longrightarrow> R d d'"
    and ins_webhook_events: "insert_webhook_events we d = Inr d' \<Longrightarrow> R d d'"
    and ins_outbox_events: "insert_outbox_events ev d = Inr d' \<Longrightarrow> ev_Status ev = outbox_StatusPending \<Longrightarrow> ev_Attempts ev = 0 \<Longrightarrow>
      ev_ID ev \<in> range (gen_random_uuid E) \<Longrightarrow> R d d'"
    and ins_reconciliation_runs: "insert_reconciliation_runs run d = Inr d' \<Longrightarrow> R d d'"
    and ins_reconciliation_items: "insert_reconciliation_items it d = Inr d' \<Longrightarrow> R d d'"
    and upd_balance: "add_available_balance delta k d = Inr d' \<Longrightarrow> R d d'"
    and upd_wallet_status: "Q cl \<Longrightarrow> c_Role cl \<in> {RoleSystem, RoleAdmin} \<Longrightarrow>
      R d (d\<lparr>wallets := update_where w_ID k (\<lambda>r. r\<lparr>w_Status := st, w_UpdatedAt := t\<rparr>) (wallets d)\<rparr>)"
    and upd_payment_status:
      "R d (d\<lparr>payments := update_where p_ID k (\<lambda>p. p\<lparr>p_Status := st, p_UpdatedAt := t\<rparr>) (payments d)\<rparr>)"
    and upd_key: "R d (d\<lparr>idempotency_keys := update_where ik_Key key (complete_key pl code) (idempotency_keys d)\<rparr>)"
    and upd_run:
      "R d (d\<lparr>reconciliation_runs := update_where run_ID k (complete_run st n1 n2 n3 t) (reconciliation_runs d)\<rparr>)"
begin

lemmas control = always_mbind always_mret always_mfail always_mtry always_mwrap always_mmetrics
  always_if always_case_prod always_case_sum R_refl

lemma inserts:
  "always R (sql E (sql_insert_user E usr))"
  "always R (sql E (sql_insert_account E ty cur))"
  "always R (sql E (sql_insert_wallet E owner acc cur))"
  "always R (sql E (sql_insert_transfer E tr'))"
  "always R (sql E (sql_insert_ledger_transaction E txn))"
  "always R (sql E (sql_insert_ledger_entry E e'))"
  "always R (sql E (sql_insert_outbox_event E topic pl'))"
  "always R (sql E (sql_insert_key E key' pl'))"
  "always R (sql E (sql_insert_payment E p'))"
  "always R (sql E (sql_insert_webhook E pr wh body'))"
  "always R (sql E sql_insert_run)"
  by (rule always_sql, auto simp: stmt_defs run_simps intro: ins_users ins_accounts ins_wallets ins_transfers
      ins_ledger_transactions ins_ledger_entries ins_outbox_events ins_idempotency_keys ins_payments
      ins_webhook_events ins_reconciliation_runs)+

lemma queries:
  "always R (sql E (sql_select_wallet E i))"
  "always R (sql E (sql_lock_wallet E i))"
  "always R (sql E (sql_select_key key'))"
  "always R (sql E (sql_lock_payment ref))"
  by (rule always_sql, simp add: run_simps R_refl)+

lemma updates:
  "always R (sql E (sql_complete_key E key' pl' code'))"
  "always R (sql E (sql_update_payment E st' i))"
  "always R (sql E (sql_add_balance E delta' i))"
  by (rule always_sql, auto simp: sql_complete_key_def sql_update_payment_def sql_add_balance_def run_simps
      intro: upd_key upd_payment_status upd_balance split: if_splits)+

lemma wallet_status:
  assumes "Q cl" and "c_Role cl \<in> {RoleSystem, RoleAdmin}"
  shows "always R (sql E (sql_update_wallet_status E st' i))"
  by (rule always_sql) (auto simp: sql_update_wallet_status_def run_simps intro: upd_wallet_status [OF assms])

lemmas statements = inserts queries updates

lemma run_statements:
  "always R (CreateRun E)" "always R (CompleteRun E i st' a' b' c')" "always R (RecordMismatch E i x y z details)"
  "always R (CheckGlobalLedgerBalance E)"
proof -
  show "always R (CreateRun E)" unfolding CreateRun_def by (intro control statements)
  show "always R (CompleteRun E i st' a' b' c')"
    unfolding CompleteRun_def by (rule always_sql) (auto simp: run_simps intro: upd_run)
  show "always R (RecordMismatch E i x y z details)"
    unfolding RecordMismatch_def by (rule always_sql) (auto simp: run_simps intro: ins_reconciliation_items)
  show "always R (CheckGlobalLedgerBalance E)"
    unfolding CheckGlobalLedgerBalance_def by (rule always_sql) (auto simp: run_simps R_refl)
qed

lemma entries: "always R (insert_entries E txid es)"
proof (induction es)
  case Nil
  show ?case by (simp add: always_mret)
next
  case (Cons x es)
  then show ?case unfolding insert_entries.simps by (intro control statements)
qed

lemma ledger: "always R (CreateTransaction E txn)"
  unfolding CreateTransaction_def by (intro control statements entries)

lemma event: "always R (InsertEvent E topic pl')"
  unfolding InsertEvent_def by (rule statements)

lemma execute_transfer: "always R (ExecuteTransfer E req key')"
proof -
  have "always R (transfer_body E req key')"
    unfolding transfer_body_def transfer_locked_def lock_wallets_def update_balances_def record_transfer_def Let_def
    by (intro control statements ledger event always_mclock)
  then have "always R (transfer_run E req key')"
    unfolding transfer_run_def by (intro control always_withTx always_on_success)
  then show ?thesis by (force simp: always_def ExecuteTransfer_def split: prod.splits sum.splits)
qed

lemma create_wallet_account: "always R (CreateWalletAndAccount E owner ty cur)"
  unfolding CreateWalletAndAccount_def
  by (rule always_withTx, rule always_on_success) (intro control statements)

lemma acquire: "always R (TryAcquire E key' pl')"
  unfolding TryAcquire_def by (intro control statements)

lemma completed: "R (db w) (db (complete_ignored E key' pl' code' w))"
  unfolding complete_ignored_def Complete_def by (rule always_snd) (rule statements)

lemma payment: "always R (CreatePayment E wid amount cur)"
proof -
  have "always R (ProcessPayment E amount cur)"
    by (auto simp: always_def ProcessPayment_def Let_def R_refl)
  then show ?thesis unfolding CreatePayment_def Let_def by (intro control statements)
qed

lemma process_webhook: "always R (ProcessWebhook E provider payload)"
proof -
  have "always R (webhook_body E provider wh j)" for wh j
    unfolding webhook_body_def insert_webhook_def lock_payment_def advance_payment_def settle_webhook_def credit_payment_def
    by (intro control statements ledger event)
  then show ?thesis
    by (auto simp: ProcessWebhook_def split: option.splits sum.splits intro: always_mfail always_withTx always_on_success)
qed

lemma ignored: "always R m \<Longrightarrow> always R (ignore m)"
  unfolding ignore_def by (intro control)

lemma mismatches: "always R (record_mismatches E i ms q)"
proof (induction ms arbitrary: q)
  case Nil
  show ?case by (cases q) (simp add: always_mret)
next
  case (Cons m ms)
  then show ?case
    by (cases q) (simp only: record_mismatches.simps, intro control ignored run_statements)
qed

lemma wallet_check: "always R (CheckWalletBalances E)"
proof
  fix w r w'
  assume "CheckWalletBalances E w = (r, w')"
  then have "w' = w\<lparr>tick := Suc (tick w)\<rparr>"
    unfolding CheckWalletBalances_def by (rule sql_query) (auto simp: run_simps)
  then show "R (db w) (db w')" by (simp add: R_refl)
qed

lemma reconcile: "always R (RunReconciliation E)"
  unfolding RunReconciliation_def run_checks_def
  by (intro control ignored run_statements mismatches wallet_check)

lemma register_user: "always R (auth_Register L E secret req)"
proof -
  have "always R (mbind (CreateUser E usr) (\<lambda>user. mbind (GenerateToken L E user secret n) (\<lambda>token. mret \<lparr>ar_Token = token, ar_User = user\<rparr>)))" for usr n
  proof -
    have "always R (GenerateToken L E user secret n)" for user by (auto simp: always_def GenerateToken_def R_refl)
    then show ?thesis unfolding CreateUser_def by (intro control statements)
  qed
  note k = alwaysD [OF this, of _ _ "w\<lparr>tick := t\<rparr>" for w t, simplified]
  show ?thesis
    by (rule alwaysI) (auto simp: auth_Register_def Let_def R_refl split: sum.splits dest: k)
qed

lemma handle_transfer: "R (db w) (db (snd (HandleTransfer E rq w)))"
proof -
  obtain resp w' where run: "HandleTransfer E rq w = (resp, w')" by (meson surj_pair)
  then have "R (db w) (db w')"
  proof (cases rule: HandleTransfer_cases)
    case refused
    then show ?thesis by (simp add: R_refl)
  next
    case (not_acquired req r)
    then show ?thesis by (rule alwaysD [OF acquire])
  next
    case (acquired claims req w1)
    have a: "R (db w) (db w1)" using alwaysD [OF acquire acquired(3)] .
    obtain r1 w2 where g: "GetWalletByID E (tr_SourceWalletID req) w1 = (r1, w2)" by (meson surj_pair)
    then have w2: "db w2 = db w1" by (auto dest: GetWalletByID_reads)
    obtain r2 w3 where x: "ExecuteTransfer E req (rq_header rq ''Idempotency-Key'') w2 = (r2, w3)" by (meson surj_pair)
    have "R (db w1) (db w')"
      using acquired(4) g x w2 completed [of w2] R_trans [OF alwaysD [OF execute_transfer x] completed [of w3]]
      by (auto simp: transfer_acquired_def split: if_splits sum.splits)
    with a show ?thesis by (rule R_trans)
  qed
  with run show ?thesis by simp
qed

end

sublocale statement_contract \<subseteq> request_contract R L E Q
proof
  fix w :: world and c rq i s wid amount currency provider payload secret
  have c: "R (db w) (db w')" if "walletService_CreateWallet E req a b w = (r, w')" for req a b r w'
  proof -
    have "always R (walletService_CreateWallet E req a b)"
      unfolding walletService_CreateWallet_def Let_def by (intro control create_wallet_account)
    then show ?thesis using that by (rule alwaysD)
  qed
  show "R (db w) (db (snd (HandleCreateWallet E rq w)))"
    by (auto simp: HandleCreateWallet_def http_Error_def R_refl c split: option.splits sum.splits prod.splits)
  show "R (db w) (db (snd (UpdateWalletStatus E i s w)))" if "Q c" "c_Role c \<in> {RoleSystem, RoleAdmin}"
    unfolding UpdateWalletStatus_def by (rule always_snd) (intro control wallet_status [OF that])
  show "R (db w) (db (snd (HandleTransfer E rq w)))" by (rule handle_transfer)
  show "R (db w) (db (snd (CreatePayment E wid amount currency w)))" by (rule always_snd [OF payment])
  show "R (db w) (db (snd (ProcessWebhook E provider payload w)))" by (rule always_snd [OF process_webhook])
  show "R (db w) (db (snd (HandleRegister L E secret rq w)))"
    by (auto simp: HandleRegister_def http_Error_def R_refl split: sum.splits prod.splits dest: alwaysD [OF register_user])
  show "R (db w) (db (snd (RunReconciliation E w)))" by (rule always_snd [OF reconcile])
qed

locale table_contract = statement_contract R L E Q for R L E Q +
  assumes upd_published: "R d (d\<lparr>outbox_events := update_where ev_ID k (mark_published t) (outbox_events d)\<rparr>)"
    and upd_failed: "R d (d\<lparr>outbox_events := update_where ev_ID k (mark_failed t err) (outbox_events d)\<rparr>)"
begin

lemma marks: "always R (sql E (sql_mark_published E i))" "always R (sql E (sql_mark_failed E i err'))"
  by (rule always_sql, auto simp: sql_mark_published_def sql_mark_failed_def run_simps
      intro: upd_published upd_failed split: if_splits)+

lemma publish: "always R (publish_events E evs)"
proof (induction evs)
  case Nil
  show ?case by (simp add: always_mret)
next
  case (Cons ev evs)
  have "always R (Publish E topic pl')" for topic pl'
    by (auto simp: always_def Publish_def Let_def R_refl split: produce_outcome.splits)
  with Cons show ?case
    unfolding publish_events.simps publish_event_def MarkFailed_def MarkPublished_def by (intro control marks)
qed

lemma outbox_worker: "always R (processBatch E)"
proof -
  have "always R (FetchPendingEvents E n)" for n
    unfolding FetchPendingEvents_def by (rule always_sql) (simp add: R_refl)
  then show ?thesis unfolding processBatch_def by (intro control publish)
qed

end

sublocale table_contract \<subseteq> service_contract R L E Q
  by unfold_locales (rule always_snd [OF outbox_worker])

section \<open>The tables of record only grow\<close>

text \<open>
  No step changes or removes a row of the ledger, a transfer, a user, an account or a processed
  webhook event, and no wallet changes its owner, account or currency.
\<close>

definition wallet_identity :: "Wallet \<Rightarrow> string \<times> string \<times> string \<times> string" where
  "wallet_identity r = (w_ID r, w_OwnerID r, w_AccountID r, w_Currency r)"

definition append_only :: "db \<Rightarrow> db \<Rightarrow> bool" where
  "append_only d d' \<longleftrightarrow>
     prefix (ledger_entries d) (ledger_entries d') \<and> prefix (ledger_transactions d) (ledger_transactions d') \<and>
     prefix (transfers d) (transfers d') \<and> prefix (users d) (users d') \<and> prefix (accounts d) (accounts d') \<and>
     prefix (webhook_events d) (webhook_events d') \<and>
     prefix (map wallet_identity (wallets d)) (map wallet_identity (wallets d'))"

interpretation grow: table_contract append_only L E "\<lambda>_. True" for L E
  by unfold_locales (auto simp: append_only_def row_simps wallet_identity_def map_update_where split: option.splits)

text \<open>
  C11: immutability of the record. Whatever requests arrive and whatever fails, every ledger
  transaction and entry, transfer, user, account and processed webhook event that exists at some time is still there, unchanged
  and in its place, at any later time, and every wallet keeps its owner, account and currency.
\<close>

theorem record_immutable:
  assumes "reachable C L E cfg hasRedis w0 w" and "prom_reads C"
  shows "\<exists>es ls ts us as hs. ledger_entries (db w) = ledger_entries (db w0) @ es \<and> ledger_transactions (db w) = ledger_transactions (db w0) @ ls \<and>
    transfers (db w) = transfers (db w0) @ ts \<and> users (db w) = users (db w0) @ us \<and> accounts (db w) = accounts (db w0) @ as \<and>
    webhook_events (db w) = webhook_events (db w0) @ hs \<and>
    (\<forall>i < length (wallets (db w0)). i < length (wallets (db w)) \<and>
       w_ID (wallets (db w) ! i) = w_ID (wallets (db w0) ! i) \<and> w_OwnerID (wallets (db w) ! i) = w_OwnerID (wallets (db w0) ! i) \<and>
       w_AccountID (wallets (db w) ! i) = w_AccountID (wallets (db w0) ! i) \<and> w_Currency (wallets (db w) ! i) = w_Currency (wallets (db w0) ! i))"
proof -
  have g: "append_only (db w0) (db w)" by (rule grow.reachable_R [OF assms TrueI])
  then have pre: "prefix (map wallet_identity (wallets (db w0))) (map wallet_identity (wallets (db w)))" by (simp add: append_only_def)
  have "i < length (wallets (db w)) \<and> wallet_identity (wallets (db w) ! i) = wallet_identity (wallets (db w0) ! i)"
    if i: "i < length (wallets (db w0))" for i
  proof -
    from pre obtain zs where zs: "map wallet_identity (wallets (db w)) = map wallet_identity (wallets (db w0)) @ zs" by (auto elim: prefixE)
    with i have len: "i < length (wallets (db w))" by (metis length_append length_map trans_less_add1)
    with zs i show ?thesis by (metis length_map nth_append nth_map)
  qed
  then have ids: "\<forall>i < length (wallets (db w0)). i < length (wallets (db w)) \<and>
       w_ID (wallets (db w) ! i) = w_ID (wallets (db w0) ! i) \<and> w_OwnerID (wallets (db w) ! i) = w_OwnerID (wallets (db w0) ! i) \<and>
       w_AccountID (wallets (db w) ! i) = w_AccountID (wallets (db w0) ! i) \<and> w_Currency (wallets (db w) ! i) = w_Currency (wallets (db w0) ! i)"
    by (simp add: wallet_identity_def)
  from g show ?thesis unfolding append_only_def using ids by (elim conjE prefixE) blast
qed


theorem record_immutable_witness:
  "\<exists>es. ledger_entries (db (snd (NewServer demo_http demo_authlib demo_env demo_config True demo_http_request demo_outbox))) = ledger_entries (db demo_outbox) @ es"
proof -
  have "reachable demo_http demo_authlib demo_env demo_config True demo_outbox
      (snd (NewServer demo_http demo_authlib demo_env demo_config True demo_http_request demo_outbox))"
    by (rule reachable.step [OF reachable.initial system_step.request])
  moreover have "prom_reads demo_http" by (simp add: prom_reads_def demo_http_def)
  ultimately show ?thesis using record_immutable by blast
qed

section \<open>The schema\<close>

text \<open>
  The constraints of \<open>db/migrations\<close>: primary keys and unique indexes, foreign keys, and the \<open>CHECK\<close>
  constraints.
\<close>

definition unique_columns :: "db \<Rightarrow> bool" where
  "unique_columns d \<longleftrightarrow>
     distinct (map u_ID (users d)) \<and> distinct (map u_Email (users d)) \<and> distinct (map a_ID (accounts d)) \<and>
     distinct (map w_ID (wallets d)) \<and> distinct (map lt_ID (ledger_transactions d)) \<and>
     distinct (map e_ID (ledger_entries d)) \<and> distinct (map ik_Key (idempotency_keys d)) \<and>
     distinct (map t_ID (transfers d)) \<and> distinct (map p_ID (payments d)) \<and>
     distinct (map p_ProviderReference (payments d)) \<and> distinct (map we_ID (webhook_events d)) \<and>
     distinct (map (\<lambda>x. (we_Provider x, we_EventID x)) (webhook_events d)) \<and>
     distinct (map ev_ID (outbox_events d)) \<and> distinct (map run_ID (reconciliation_runs d)) \<and>
     distinct (map it_ID (reconciliation_items d))"

definition references_resolve :: "db \<Rightarrow> bool" where
  "references_resolve d \<longleftrightarrow>
     set (map w_OwnerID (wallets d)) \<subseteq> set (map u_ID (users d)) \<and>
     set (map w_AccountID (wallets d)) \<subseteq> set (map a_ID (accounts d)) \<and>
     set (map e_TransactionID (ledger_entries d)) \<subseteq> set (map lt_ID (ledger_transactions d)) \<and>
     set (map e_AccountID (ledger_entries d)) \<subseteq> set (map a_ID (accounts d)) \<and>
     set (map t_SourceWalletID (transfers d)) \<subseteq> set (map w_ID (wallets d)) \<and>
     set (map t_DestinationWalletID (transfers d)) \<subseteq> set (map w_ID (wallets d)) \<and>
     set (map t_IdempotencyKey (transfers d)) \<subseteq> set (map ik_Key (idempotency_keys d)) \<and>
     set (map p_WalletID (payments d)) \<subseteq> set (map w_ID (wallets d)) \<and>
     set (map it_RunID (reconciliation_items d)) \<subseteq> set (map run_ID (reconciliation_runs d))"

definition checks_hold :: "db \<Rightarrow> bool" where
  "checks_hold d \<longleftrightarrow>
     list_all (\<lambda>r. 0 \<le> sint (w_AvailableBalance r) \<and> 0 \<le> sint (w_LockedBalance r)) (wallets d) \<and>
     list_all (\<lambda>x. 0 < sint (e_Amount x)) (ledger_entries d) \<and>
     list_all (\<lambda>x. 0 < sint (t_Amount x) \<and> t_SourceWalletID x \<noteq> t_DestinationWalletID x) (transfers d) \<and>
     list_all (\<lambda>x. 0 < sint (p_Amount x)) (payments d)"

definition schema_ok :: "db \<Rightarrow> bool" where
  "schema_ok d \<longleftrightarrow> unique_columns d \<and> references_resolve d \<and> checks_hold d"

lemma list_all_map_update:
  "(\<And>x. P (g x) = P x) \<Longrightarrow> list_all P (update_where key k g rs) = list_all P rs"
  by (induction rs) simp_all

lemma list_all_update_where: "list_all P rs \<Longrightarrow> (\<And>x. P x \<Longrightarrow> P (g x)) \<Longrightarrow> list_all P (update_where key k g rs)"
  by (auto simp: update_where_def list_all_iff)


lemma schema_inserts:
  "insert_users user d = Inr d' \<Longrightarrow> schema_ok d \<Longrightarrow> schema_ok d'"
  "insert_accounts acct d = Inr d' \<Longrightarrow> schema_ok d \<Longrightarrow> schema_ok d'"
  "insert_wallets wl d = Inr d' \<Longrightarrow> schema_ok d \<Longrightarrow> schema_ok d'"
  "insert_ledger_transactions lt d = Inr d' \<Longrightarrow> schema_ok d \<Longrightarrow> schema_ok d'"
  "insert_ledger_entries e d = Inr d' \<Longrightarrow> schema_ok d \<Longrightarrow> schema_ok d'"
  "insert_idempotency_keys ik d = Inr d' \<Longrightarrow> schema_ok d \<Longrightarrow> schema_ok d'"
  "insert_transfers tr d = Inr d' \<Longrightarrow> schema_ok d \<Longrightarrow> schema_ok d'"
  "insert_payments pay d = Inr d' \<Longrightarrow> schema_ok d \<Longrightarrow> schema_ok d'"
  "insert_webhook_events we d = Inr d' \<Longrightarrow> schema_ok d \<Longrightarrow> schema_ok d'"
  "insert_outbox_events ev d = Inr d' \<Longrightarrow> schema_ok d \<Longrightarrow> schema_ok d'"
  "insert_reconciliation_runs run d = Inr d' \<Longrightarrow> schema_ok d \<Longrightarrow> schema_ok d'"
  "insert_reconciliation_items it d = Inr d' \<Longrightarrow> schema_ok d \<Longrightarrow> schema_ok d'"
  by (simp_all add: row_simps schema_ok_def unique_columns_def references_resolve_def checks_hold_def subset_insertI2)

lemma schema_balance:
  assumes "add_available_balance delta k d = Inr d'" and "schema_ok d"
  shows "schema_ok d'"
  using assms
  by (auto simp: row_simps schema_ok_def unique_columns_def references_resolve_def checks_hold_def map_update_where
      sint_add_word64 simp del: set_map intro!: list_all_update_where split: option.splits)

lemma schema_updates:
  "schema_ok (d\<lparr>wallets := update_where w_ID k (\<lambda>r. r\<lparr>w_Status := st, w_UpdatedAt := t\<rparr>) (wallets d)\<rparr>) = schema_ok d"
  "schema_ok (d\<lparr>payments := update_where p_ID k (\<lambda>p. p\<lparr>p_Status := st, p_UpdatedAt := t\<rparr>) (payments d)\<rparr>) = schema_ok d"
  "schema_ok (d\<lparr>outbox_events := update_where ev_ID k (mark_published t) (outbox_events d)\<rparr>) = schema_ok d"
  "schema_ok (d\<lparr>outbox_events := update_where ev_ID k (mark_failed t err) (outbox_events d)\<rparr>) = schema_ok d"
  "schema_ok (d\<lparr>idempotency_keys := update_where ik_Key key (complete_key pl code) (idempotency_keys d)\<rparr>) = schema_ok d"
  "schema_ok (d\<lparr>reconciliation_runs := update_where run_ID k (complete_run st n1 n2 n3 t) (reconciliation_runs d)\<rparr>) = schema_ok d"
  by (simp_all add: schema_ok_def unique_columns_def references_resolve_def checks_hold_def map_update_where
      mark_published_def mark_failed_def complete_key_def complete_run_def list_all_map_update del: set_map)

interpretation schema: table_contract "preserves schema_ok" L E "\<lambda>_. True" for L E
  by unfold_locales (auto simp: preserves_def schema_updates intro: schema_inserts schema_balance)

lemma empty_schema: "schema_ok empty_db"
  by (simp add: schema_ok_def unique_columns_def references_resolve_def checks_hold_def empty_db_def)

text \<open>
  C12: the schema as an invariant. In every state the system reaches from an empty database, whatever requests
  arrive and whatever fails, keys are unique (identifiers, e-mails, idempotency keys,
  provider references, the events of a provider), every reference names an existing row, no
  balance is negative, and amounts are positive.
\<close>

theorem schema_invariant:
  assumes "db w0 = empty_db" and "reachable C L E cfg hasRedis w0 w" and "prom_reads C"
  shows "schema_ok (db w)"
  using schema.reachable_R [OF assms(2,3) TrueI] empty_schema by (simp add: preserves_def assms(1))

theorem schema_invariant_witness:
  "schema_ok (db (snd (NewServer demo_http demo_authlib demo_env demo_config True demo_http_request (demo_world\<lparr>db := empty_db\<rparr>))))"
proof -
  have "reachable demo_http demo_authlib demo_env demo_config True (demo_world\<lparr>db := empty_db\<rparr>)
      (snd (NewServer demo_http demo_authlib demo_env demo_config True demo_http_request (demo_world\<lparr>db := empty_db\<rparr>)))"
    by (rule reachable.step [OF reachable.initial system_step.request])
  moreover have "prom_reads demo_http" by (simp add: prom_reads_def demo_http_def)
  ultimately show ?thesis using schema_invariant [of "demo_world\<lparr>db := empty_db\<rparr>"] by simp
qed


section \<open>Who changes the status of a wallet\<close>

text \<open>
  The wallets of before are still there with their status; new ones are active. Only the two handlers behind
  \<open>RequireRole\<close> change a status, so that the contract holds for every request whose tokens carry
  another role.
\<close>

definition status_kept :: "db \<Rightarrow> db \<Rightarrow> bool" where
  "status_kept d d' \<longleftrightarrow>
     (\<exists>rs. map (\<lambda>r. (w_ID r, w_Status r)) (wallets d') = map (\<lambda>r. (w_ID r, w_Status r)) (wallets d) @ rs)"

definition not_administrator :: "JWTClaims \<Rightarrow> bool" where
  "not_administrator c \<longleftrightarrow> c_Role c \<noteq> ''SYSTEM'' \<and> c_Role c \<noteq> ''ADMIN''"

interpretation status: table_contract status_kept L E not_administrator for L E
  by unfold_locales
    (auto simp: status_kept_def row_simps map_update_where not_administrator_def RoleSystem_def RoleAdmin_def split: option.splits)

text \<open>
  C21: only administrators freeze. A request none of whose tokens is valid for a user of the role SYSTEM or
  ADMIN leaves every wallet with the status it has, whatever its path, body and headers are and whatever fails.
\<close>

theorem status_needs_administrator:
  assumes "prom_reads C"
    and "\<And>n tok c. rq_header rq ''Authorization'' = ''Bearer '' @ tok \<Longrightarrow>
       ValidateToken L (time_Now E n) tok (cfg_JWTSecret cfg) = Inr c \<Longrightarrow> c_Role c \<noteq> ''SYSTEM'' \<and> c_Role c \<noteq> ''ADMIN''"
  shows "\<exists>rs. map (\<lambda>r. (w_ID r, w_Status r)) (wallets (db (snd (NewServer C L E cfg hasRedis rq w)))) =
    map (\<lambda>r. (w_ID r, w_Status r)) (wallets (db w)) @ rs"
proof -
  have "status.admits L E (cfg_JWTSecret cfg) rq"
    using assms(2) by (auto simp: status.admits_def not_administrator_def)
  from status.server [OF assms(1) this] show ?thesis by (simp add: status_kept_def)
qed

text \<open>Alice, whose role is USER, asks to freeze the wallet of Bob.\<close>

definition freeze_request :: request where
  "freeze_request = demo_http_request\<lparr>rq_method := ''POST'', rq_path := [''api'', ''v1'', ''wallets'', ''wallet-b'', ''freeze'']\<rparr>"

theorem status_needs_administrator_witness:
  "resp_status (fst (NewServer demo_http demo_authlib demo_env demo_config False freeze_request (demo_world\<lparr>tick := 7\<rparr>))) = 403 \<and>
   (\<exists>rs. map (\<lambda>r. (w_ID r, w_Status r)) (wallets (db (snd (NewServer demo_http demo_authlib demo_env demo_config False freeze_request (demo_world\<lparr>tick := 7\<rparr>))))) =
      map (\<lambda>r. (w_ID r, w_Status r)) (wallets demo_db) @ rs)"
proof -
  have "prom_reads demo_http" by (simp add: prom_reads_def demo_http_def)
  moreover have "c_Role c \<noteq> ''SYSTEM'' \<and> c_Role c \<noteq> ''ADMIN''"
    if "ValidateToken demo_authlib t tok (cfg_JWTSecret demo_config) = Inr c" for t tok c
    using that by (auto simp: ValidateToken_def demo_authlib_def authlib_for_def demo_claims_def split: option.splits signing_method.splits if_splits)
  moreover have "resp_status (fst (NewServer demo_http demo_authlib demo_env demo_config False freeze_request (demo_world\<lparr>tick := 7\<rparr>))) = 403" by code_simp
  ultimately show ?thesis
    using status_needs_administrator [of demo_http freeze_request demo_authlib demo_env demo_config False "demo_world\<lparr>tick := 7\<rparr>"]
    by (auto simp: demo_world_def)
qed

end
