(* ===== verification/System_Books.thy ===== *)
theory System_Books
  imports Table_Contract
begin

text \<open>
  The books of the whole system. The invariant joins the invariants of the components; every operation
  of the service keeps it, so that it holds in every reachable state: no negative balance, a balanced
  ledger, wallets that equal the net of their ledger entries, each payment booked once if it
  succeeded, and a money supply that equals the payments that succeeded.
\<close>

section \<open>The invariant\<close>

definition succeeded_total :: "db \<Rightarrow> int" where
  "succeeded_total d = sum_list (map (\<lambda>p. if p_Status p = StatusSucceeded then sint (p_Amount p) else 0) (payments d))"

definition books_inv :: "env \<Rightarrow> db \<Rightarrow> bool" where
  "books_inv E d \<longleftrightarrow>
     balances_nonneg d \<and> ledger_balanced d \<and> wallet_ledger_inv E d \<and> payment_inv E d \<and>
     platform_account \<notin> w_AccountID ` set (wallets d) \<and>
     e_AccountID ` set (ledger_entries d) \<subseteq> a_ID ` set (accounts d) \<and>
     w_AccountID ` set (wallets d) \<subseteq> a_ID ` set (accounts d) \<and>
     total_available d = succeeded_total d"

text \<open>The tables it speaks of.\<close>

definition core :: "db \<Rightarrow> Wallet list \<times> LedgerTransactionRow list \<times> Entry list \<times> Payment list \<times> Account list" where
  "core d = (wallets d, ledger_transactions d, ledger_entries d, payments d, accounts d)"

lemma books_inv_core: "core d = core d' \<Longrightarrow> books_inv E d = books_inv E d'"
  by (simp add: core_def books_inv_def balances_nonneg_def ledger_balanced_def wallet_ledger_inv_def payment_inv_def
      payment_ids_canonical_def credits_of_def total_available_def succeeded_total_def)

text \<open>Documented of PostgreSQL: the laws used for payments, and that the nil UUID is its own canonical form.\<close>

definition pg_laws :: "env \<Rightarrow> bool" where
  "pg_laws E \<longleftrightarrow> pg_ok E \<and> uuid_in E platform_account = Some platform_account"

lemma pg_lawsD: "pg_laws E \<Longrightarrow> uuid_canonical E" "pg_laws E \<Longrightarrow> varchar_exact E" "pg_laws E \<Longrightarrow> uuid_generated E"
  "pg_laws E \<Longrightarrow> uuid_in E platform_account = Some platform_account"
  by (simp_all add: pg_laws_def pg_ok_def)

lemma wallet_ids_of_books: "books_inv E d \<Longrightarrow> wallet_ids_distinct d"
  by (simp add: books_inv_def wallet_ledger_inv_def wallet_ids_distinct_def)

section \<open>The operations\<close>

lemma transfer_applied_payment_inv:
  assumes "transfer_applied E req key s r d d'" and "payment_inv E d"
  shows "payment_inv E d'"
proof -
  from assms(1) obtain lrow where tabs: "ledger_transactions d' = ledger_transactions d @ [lrow]"
    "lt_ReferenceType lrow = TxTypeTransfer" "payments d' = payments d"
    by (auto simp: transfer_applied_def)
  moreover have "TxTypeTransfer \<noteq> TxTypePayment" by (simp add: const_defs)
  ultimately show ?thesis
    using assms(2) by (auto simp: payment_inv_def payment_ids_canonical_def credits_of_def)
qed

lemma transfer_applied_books:
  assumes app: "transfer_applied E req key s r d d'" and inv: "books_inv E d"
  shows "books_inv E d'"
proof -
  from app obtain lrow e1 e2 where
    tabs: "ledger_transactions d' = ledger_transactions d @ [lrow]" "lt_ReferenceType lrow = TxTypeTransfer"
      "ledger_entries d' = ledger_entries d @ [e1, e2]" "payments d' = payments d" "accounts d' = accounts d"
      "e_AccountID e1 \<in> a_ID ` set (accounts d)" "e_AccountID e2 \<in> a_ID ` set (accounts d)"
    by (auto simp: transfer_applied_def)
  have acc: "w_AccountID ` set (wallets d') = w_AccountID ` set (wallets d)"
  proof -
    have "map w_AccountID (wallets d') = map w_AccountID (wallets d)"
      using app by (auto simp: transfer_applied_def move_funds_def update_where_def)
    then show ?thesis by (metis set_map)
  qed
  have "payment_inv E d'"
    using transfer_applied_payment_inv [OF app] inv by (simp add: books_inv_def)
  moreover have "succeeded_total d' = succeeded_total d" using tabs by (simp add: succeeded_total_def)
  ultimately show ?thesis
    using inv transfer_applied_nonneg [OF app] transfer_applied_balanced [OF app] transfer_applied_wallet_ledger [OF app]
      transfer_applied_total [OF app wallet_ids_of_books [OF inv]] tabs
    by (simp add: books_inv_def acc)
qed

lemma wallet_created_books:
  assumes laws: "pg_laws E" and cr: "wallet_created E owner ty cur a r d d'" and inv: "books_inv E d"
  shows "books_inv E d'"
proof -
  from cr laws have a: "w_AccountID r = a_ID a" "uuid_in E (a_ID a) = Some (a_ID a)" "a_ID a \<noteq> platform_account"
    by (auto simp: wallet_created_def pg_laws_def pg_ok_def uuid_generated_def)
  from cr have new: "a_ID a \<notin> a_ID ` set (accounts d)" "w_ID r \<notin> w_ID ` set (wallets d)"
    and bal: "w_AvailableBalance r = 0" "w_LockedBalance r = 0"
    and tabs: "wallets d' = wallets d @ [r]" "accounts d' = accounts d @ [a]" "ledger_entries d' = ledger_entries d"
      "ledger_transactions d' = ledger_transactions d" "payments d' = payments d"
    by (auto simp: wallet_created_def)
  from inv new(1) have fresh: "a_ID a \<notin> e_AccountID ` set (ledger_entries d)" by (auto simp: books_inv_def)
  then have "filter (\<lambda>e. e_AccountID e = a_ID a) (ledger_entries d) = []" by (auto simp: filter_empty_conv image_iff)
  then have net: "net_account (a_ID a) (ledger_entries d) = 0" by (simp add: net_account_def)
  from inv new(1) have "a_ID a \<notin> w_AccountID ` set (wallets d)" by (auto simp: books_inv_def)
  then have "wallet_ledger_inv E d'"
    using inv new(2) a bal net by (auto simp: books_inv_def wallet_ledger_inv_def tabs)
  moreover have "balances_nonneg d'" using inv bal by (auto simp: books_inv_def balances_nonneg_def tabs)
  moreover have "ledger_balanced d'" "payment_inv E d'" "total_available d' = total_available d" "succeeded_total d' = succeeded_total d"
    using inv bal by (simp_all add: books_inv_def ledger_balanced_def payment_inv_def payment_ids_canonical_def credits_of_def
        total_available_def succeeded_total_def tabs)
  ultimately show ?thesis using inv a by (auto simp: books_inv_def tabs)
qed


lemma set_status_books:
  assumes inv: "books_inv E d" and ws: "wallets d' = update_where w_ID k (\<lambda>r. r\<lparr>w_Status := s, w_UpdatedAt := t\<rparr>) (wallets d)"
    and rest: "ledger_transactions d' = ledger_transactions d" "ledger_entries d' = ledger_entries d" "payments d' = payments d" "accounts d' = accounts d"
  shows "books_inv E d'"
proof -
  let ?f = "\<lambda>r. if w_ID r = k then r\<lparr>w_Status := s, w_UpdatedAt := t\<rparr> else r"
  have maps: "map w_ID (wallets d') = map w_ID (wallets d)" "map w_AccountID (wallets d') = map w_AccountID (wallets d)"
    "map (\<lambda>r. sint (w_AvailableBalance r)) (wallets d') = map (\<lambda>r. sint (w_AvailableBalance r)) (wallets d)"
    by (simp_all add: ws update_where_def)
  have sets: "w_AccountID ` set (wallets d') = w_AccountID ` set (wallets d)" using maps(2) by (metis set_map)
  have row: "\<exists>x \<in> set (wallets d). w_AvailableBalance y = w_AvailableBalance x \<and> w_LockedBalance y = w_LockedBalance x \<and> w_AccountID y = w_AccountID x"
    if "y \<in> set (wallets d')" for y
    using that by (force simp: ws update_where_def split: if_splits)
  have "balances_nonneg d'" using inv row by (force simp: books_inv_def balances_nonneg_def)
  moreover have "wallet_ledger_inv E d'"
    using inv row maps rest(2) by (force simp: books_inv_def wallet_ledger_inv_def)
  moreover have "total_available d' = total_available d" using maps(3) by (simp add: total_available_def)
  moreover have "ledger_balanced d'" "payment_inv E d'" "succeeded_total d' = succeeded_total d"
    using inv rest by (simp_all add: books_inv_def ledger_balanced_def payment_inv_def payment_ids_canonical_def credits_of_def succeeded_total_def)
  ultimately show ?thesis using inv rest sets by (simp add: books_inv_def)
qed

lemma UpdateWalletStatus_books:
  assumes "books_inv E (db w)"
  shows "books_inv E (db (snd (UpdateWalletStatus E i s w)))"
proof -
  have "always (preserves (books_inv E)) (UpdateWalletStatus E i s)"
    unfolding UpdateWalletStatus_def
    by (intro preserves.always_mbind preserves.always_sql always_if preserves.always_mfail preserves.always_mret)
      (auto simp: preserves_def sql_update_wallet_status_def run_simps intro: set_status_books)
  from always_snd [OF this] assms show ?thesis by (auto simp: preserves_def)
qed

lemma CreatePayment_books:
  assumes laws: "pg_laws E" and inv: "books_inv E (db w)"
  shows "books_inv E (db (snd (CreatePayment E wid amount currency w)))"
proof -
  obtain r w' where run: "CreatePayment E wid amount currency w = (r, w')" by (meson surj_pair)
  have ok: "pg_ok E" using laws by (simp add: pg_laws_def)
  from inv have pinv: "payment_inv E (db w)" by (simp add: books_inv_def)
  have "books_inv E (db w')"
    using run
  proof (cases rule: CreatePayment_cases)
    case unchanged
    with inv show ?thesis by simp
  next
    case (created row)
    have "p_Status row \<noteq> StatusSucceeded"
      using created(8) varchar_exactD [OF pg_lawsD(2) [OF laws], of 50 payments_StatusFailed "p_Status row"]
        varchar_exactD [OF pg_lawsD(2) [OF laws], of 50 StatusProcessing "p_Status row"]
      by (auto simp: const_defs)
    then have "succeeded_total (db w') = succeeded_total (db w)" using created(1) by (simp add: succeeded_total_def)
    with inv CreatePayment_payment_inv [OF run ok pinv] created(1) show ?thesis
      by (simp add: books_inv_def balances_nonneg_def ledger_balanced_def wallet_ledger_inv_def total_available_def)
  qed
  with run show ?thesis by simp
qed

lemma webhook_applied_succeeded:
  assumes app: "webhook_applied E provider event p wl d d'" and vx: "varchar_exact E" and inv: "payment_inv E d"
  shows "succeeded_total d' = succeeded_total d + (if wh_Status event = StatusSucceeded then sint (p_Amount p) else 0)"
proof -
  from inv have can: "payment_ids_canonical E d" and dist: "distinct (map p_ID (payments d))" by (auto simp: payment_inv_def)
  note r = webhook_applied_resolved [OF app vx can]
  from r(3) obtain t where pay: "payments d' = update_where p_ID (p_ID p) (\<lambda>x. x\<lparr>p_Status := wh_Status event, p_UpdatedAt := t\<rparr>) (payments d)" ..
  from isValidTransition_status [OF r(2)] have "p_Status p \<noteq> StatusSucceeded" by simp
  with sum_update_where [OF dist row_with_distinct [OF dist r(1)], of "\<lambda>p. if p_Status p = StatusSucceeded then sint (p_Amount p) else 0"]
  show ?thesis by (simp add: succeeded_total_def pay)
qed

lemma webhook_applied_accounts:
  assumes "webhook_applied E provider event p wl d d'" and "books_inv E d"
  shows "accounts d' = accounts d" "w_AccountID ` set (wallets d') = w_AccountID ` set (wallets d)"
    "e_AccountID ` set (ledger_entries d') \<subseteq> a_ID ` set (accounts d)"
proof -
  show "accounts d' = accounts d" by (rule webhook_applied_tables [OF assms(1)])
  note bk = webhook_applied_books [OF assms(1)]
  from bk have mem: "wl \<in> set (wallets d)" by (auto dest: row_with_SomeD)
  have wl: "w_AccountID wl \<in> a_ID ` set (accounts d)" "uuid_in E (w_AccountID wl) = Some (w_AccountID wl)"
    using assms(2) mem by (auto simp: books_inv_def wallet_ledger_inv_def)
  have cred: "w_AccountID ` set (wallets d1) = w_AccountID ` set (wallets d) \<and> e_AccountID ` set (ledger_entries d1) \<subseteq> a_ID ` set (accounts d)"
    if "payment_credited E p wl d d1" for d1
  proof -
    from that have "map w_AccountID (wallets d1) = map w_AccountID (wallets d)"
      by (auto simp: payment_credited_def update_where_def)
    then have "w_AccountID ` set (wallets d1) = w_AccountID ` set (wallets d)" by (metis set_map)
    moreover from that wl obtain e1 e2 where "ledger_entries d1 = ledger_entries d @ [e1, e2]"
      "e_AccountID e1 \<in> a_ID ` set (accounts d)" "e_AccountID e2 \<in> a_ID ` set (accounts d)"
      by (auto simp: payment_credited_def credit_rows_def)
    moreover have "e_AccountID ` set (ledger_entries d) \<subseteq> a_ID ` set (accounts d)" using assms(2) by (simp add: books_inv_def)
    ultimately show ?thesis by simp
  qed
  show "w_AccountID ` set (wallets d') = w_AccountID ` set (wallets d)" "e_AccountID ` set (ledger_entries d') \<subseteq> a_ID ` set (accounts d)"
  proof -
    have old: "e_AccountID ` set (ledger_entries d) \<subseteq> a_ID ` set (accounts d)" using assms(2) by (simp add: books_inv_def)
    from bk consider "same_books d d'" | d1 where "payment_credited E p wl d d1" "same_books d1 d'" by (auto split: if_splits)
    then have "w_AccountID ` set (wallets d') = w_AccountID ` set (wallets d) \<and> e_AccountID ` set (ledger_entries d') \<subseteq> a_ID ` set (accounts d)"
    proof cases
      case 1
      with old show ?thesis by (simp add: same_books_def)
    next
      case 2
      from cred [OF 2(1)] 2(2) show ?thesis by (simp add: same_books_def)
    qed
    then show "w_AccountID ` set (wallets d') = w_AccountID ` set (wallets d)" "e_AccountID ` set (ledger_entries d') \<subseteq> a_ID ` set (accounts d)"
      by simp_all
  qed
qed

lemma webhook_applied_books_kept:
  assumes laws: "pg_laws E" and inv: "books_inv E d" and app: "webhook_applied E provider event p wl d d'"
  shows "books_inv E d'"
proof -
  from inv have pinv: "payment_inv E d" by (simp add: books_inv_def)
  have vx: "varchar_exact E" using pg_lawsD(2) [OF laws] .
  have bk: "balances_nonneg d' \<and> ledger_balanced d' \<and> wallet_ledger_inv E d'"
    using webhook_applied_books_inv [OF app pg_lawsD(4) [OF laws]] inv by (simp add: books_inv_def)
  have "total_available d' = total_available d + (if wh_Status event = StatusSucceeded then sint (p_Amount p) else 0)"
    using webhook_applied_books [OF app] payment_credited_total [of E p wl d] wallet_ids_of_books [OF inv]
    by (auto dest: same_books_inv(1) split: if_splits)
  with bk webhook_applied_accounts [OF app inv] webhook_applied_payment_inv [OF app vx pinv]
    webhook_applied_succeeded [OF app vx pinv] inv
  show ?thesis by (simp add: books_inv_def)
qed

lemma ProcessWebhook_books_inv:
  assumes laws: "pg_laws E" and inv: "books_inv E (db w)"
  shows "books_inv E (db (snd (ProcessWebhook E provider payload w)))"
proof -
  obtain r w' where run: "ProcessWebhook E provider payload w = (r, w')" by (meson surj_pair)
  from inv have "payment_ids_canonical E (db w)" by (auto simp: books_inv_def payment_inv_def)
  with run have "books_inv E (db w')"
    using inv webhook_applied_books_kept [OF laws inv] by (cases rule: ProcessWebhook_cases) auto
  with run show ?thesis by simp
qed


lemma key_core: "key_taken E key p d d' \<Longrightarrow> core d' = core d" "key_completed key d d' \<Longrightarrow> core d' = core d"
  by (auto simp: key_taken_def key_completed_def core_def)

lemma complete_ignored_core: "core (db (complete_ignored E key pl st w)) = core (db w)"
  unfolding complete_ignored_def using Complete_db [of E key pl st w, OF surjective_pairing] key_core(2) by auto

lemma TryAcquire_core: "TryAcquire E key p w = (r, w') \<Longrightarrow> core (db w') = core (db w)"
  using idemRepo.acquire_any [of E key p w r w'] key_core(1) by auto

lemma HandleTransfer_books:
  assumes canon: "uuid_canonical E" and inv: "books_inv E (db w)"
  shows "books_inv E (db (snd (HandleTransfer E rq w)))"
proof -
  obtain resp w' where run: "HandleTransfer E rq w = (resp, w')" by (meson surj_pair)
  then have "books_inv E (db w')"
  proof (cases rule: HandleTransfer_cases)
    case refused
    with inv show ?thesis by simp
  next
    case (not_acquired req r)
    from books_inv_core [OF TryAcquire_core [OF this]] inv show ?thesis by simp
  next
    case (acquired claims req w1)
    from books_inv_core [OF TryAcquire_core [OF acquired(3)]] inv have inv1: "books_inv E (db w1)" by simp
    from canon acquired(4) show ?thesis
    proof (cases rule: transfer_acquired_cases)
      case (unchanged w2 pl st)
      with inv1 books_inv_core [OF complete_ignored_core] show ?thesis by simp
    next
      case (applied w2 pl st s r x)
      from transfer_applied_books [OF applied(2) inv1] books_inv_core [OF complete_ignored_core] applied(1) show ?thesis by simp
    qed
  qed
  with run show ?thesis by simp
qed

text \<open>The workers touch the outbox and the reconciliation tables only.\<close>

lemmas same_control = same.always_mbind same.always_mret same.always_mfail same.always_mtry same.always_mwrap same.always_mmetrics
  always_if always_case_prod always_case_sum

lemma publish_events_core: "always (same core) (publish_events E evs)"
proof (induction evs)
  case Nil
  show ?case by (simp add: same.always_mret)
next
  case (Cons ev evs)
  have "always (same core) (Publish E topic pl)" for topic pl
    by (auto simp: always_def Publish_def Let_def same_def split: produce_outcome.splits)
  moreover have "always (same core) (MarkFailed E i e)" "always (same core) (MarkPublished E i)" for i e
    unfolding MarkFailed_def MarkPublished_def
    by (rule same.always_sql, auto simp: same_def core_def sql_mark_failed_def sql_mark_published_def run_simps split: if_splits)+
  ultimately show ?case using Cons unfolding publish_events.simps publish_event_def by (intro same_control)
qed

lemma processBatch_core: "always (same core) (processBatch E)"
proof -
  have "always (same core) (FetchPendingEvents E n)" for n
    unfolding FetchPendingEvents_def by (rule same.always_sql) (simp add: same_def)
  then show ?thesis unfolding processBatch_def by (intro same_control publish_events_core)
qed

lemma audit_statements_core:
  "always (same core) (CheckGlobalLedgerBalance E)" "always (same core) (CreateRun E)"
  "always (same core) (CompleteRun E i st x y z)" "always (same core) (RecordMismatch E i u v t details)"
  "always (same core) (CheckWalletBalances E)"
proof -
  show "always (same core) (CheckGlobalLedgerBalance E)"
    unfolding CheckGlobalLedgerBalance_def by (rule same.always_sql) (auto simp: run_simps same_def)
  show "always (same core) (CreateRun E)"
    unfolding CreateRun_def
    by (intro same_control same.always_sql) (auto simp: sql_insert_run_def same_def core_def run_simps row_simps)
  show "always (same core) (CompleteRun E i st x y z)"
    unfolding CompleteRun_def by (rule same.always_sql) (auto simp: same_def core_def run_simps)
  show "always (same core) (RecordMismatch E i u v t details)"
    unfolding RecordMismatch_def by (rule same.always_sql) (auto simp: same_def core_def run_simps row_simps)
  show "always (same core) (CheckWalletBalances E)"
  proof
    fix w r w'
    assume "CheckWalletBalances E w = (r, w')"
    then have "w' = w\<lparr>tick := Suc (tick w)\<rparr>"
      unfolding CheckWalletBalances_def by (rule sql_query) (auto simp: run_simps)
    then show "same core (db w) (db w')" by (simp add: same_def)
  qed
qed

lemma RunReconciliation_core: "always (same core) (RunReconciliation E)"
proof -
  have "always (same core) (record_mismatches E i ms p)" for i ms p
  proof (induction ms arbitrary: p)
    case Nil
    show ?case by (cases p) (simp add: same.always_mret)
  next
    case (Cons m ms)
    have "always (same core) (ignore (RecordMismatch E i x y z details))" for x y z details
      unfolding ignore_def by (intro same_control audit_statements_core)
    with Cons show ?case by (cases p) (simp only: record_mismatches.simps, intro same_control)
  qed
  then show ?thesis
    unfolding RunReconciliation_def run_checks_def ignore_def by (intro same_control audit_statements_core)
qed

lemma HandleRegister_core: "core (db (snd (HandleRegister L E secret rq w))) = core (db w)"
  using HandleRegister_effect [of L E secret rq w, OF surjective_pairing] by (auto simp: user_added_def core_def)

section \<open>Every reachable state\<close>

definition system_ok :: "env \<Rightarrow> db \<Rightarrow> bool" where
  "system_ok E d \<longleftrightarrow> pg_laws E \<and> books_inv E d"

interpretation books: service_contract "preserves (system_ok E)" L E "\<lambda>_. True" for E L
proof
  fix w :: world and c rq i s wid amount currency provider payload secret
  have frame: "preserves (system_ok E) (db w) d'" if "core d' = core (db w)" for d'
    using books_inv_core [OF that] by (simp add: preserves_def system_ok_def)
  show "preserves (system_ok E) (db w) (db (snd (HandleCreateWallet E rq w)))"
    using HandleCreateWallet_effect [of E rq w, OF surjective_pairing] wallet_created_books [of E _ _ _ _ _ "db w"]
    by (auto simp: preserves_def system_ok_def)
  show "preserves (system_ok E) (db w) (db (snd (UpdateWalletStatus E i s w)))"
    using UpdateWalletStatus_books by (simp add: preserves_def system_ok_def)
  show "preserves (system_ok E) (db w) (db (snd (HandleTransfer E rq w)))"
    using HandleTransfer_books pg_lawsD(1) by (simp add: preserves_def system_ok_def)
  show "preserves (system_ok E) (db w) (db (snd (CreatePayment E wid amount currency w)))"
    using CreatePayment_books by (simp add: preserves_def system_ok_def)
  show "preserves (system_ok E) (db w) (db (snd (ProcessWebhook E provider payload w)))"
    using ProcessWebhook_books_inv by (simp add: preserves_def system_ok_def)
  show "preserves (system_ok E) (db w) (db (snd (HandleRegister L E secret rq w)))"
    by (rule frame) (rule HandleRegister_core)
  show "preserves (system_ok E) (db w) (db (snd (processBatch E w)))"
    by (rule frame) (use always_snd [OF processBatch_core] in \<open>simp add: same_def\<close>)
  show "preserves (system_ok E) (db w) (db (snd (RunReconciliation E w)))"
    by (rule frame) (use always_snd [OF RunReconciliation_core] in \<open>simp add: same_def\<close>)
qed


definition fresh_start :: "db \<Rightarrow> bool" where
  "fresh_start d \<longleftrightarrow> wallets d = [] \<and> ledger_transactions d = [] \<and> ledger_entries d = [] \<and> payments d = []"

lemma fresh_books: "fresh_start d \<Longrightarrow> books_inv E d"
  by (simp add: fresh_start_def books_inv_def balances_nonneg_def ledger_balanced_def of_transaction_def wallet_ledger_inv_def
      payment_inv_def payment_ids_canonical_def total_available_def succeeded_total_def)

lemma books_kept:
  assumes "pg_laws E" and "prom_reads C" and "reachable C L E cfg hasRedis w0 w" and "books_inv E (db w0)"
  shows "books_inv E (db w)"
  using books.reachable_R [OF assms(3,2) TrueI] assms(1,4) by (simp add: preserves_def system_ok_def)

lemma reachable_books:
  assumes "pg_laws E" and "prom_reads C" and "fresh_start (db w0)" and "reachable C L E cfg hasRedis w0 w"
  shows "books_inv E (db w)"
  by (rule books_kept [OF assms(1,2,4) fresh_books [OF assms(3)]])

text \<open>The invariant in the terms of the tables.\<close>

lemma books_invD:
  assumes "books_inv E d"
  shows "(\<forall>r \<in> set (wallets d). 0 \<le> sint (w_AvailableBalance r) \<and> 0 \<le> sint (w_LockedBalance r) \<and>
       sint (w_AvailableBalance r) + sint (w_LockedBalance r) = net_account (w_AccountID r) (ledger_entries d)) \<and>
    debits (ledger_entries d) = credits (ledger_entries d) \<and>
    (\<forall>p \<in> set (payments d). credits_of (p_ID p) d = (if p_Status p = ''SUCCEEDED'' then 1 else 0)) \<and>
    sum_list (map (\<lambda>r. sint (w_AvailableBalance r)) (wallets d)) =
      sum_list (map (\<lambda>p. if p_Status p = ''SUCCEEDED'' then sint (p_Amount p) else 0) (payments d))"
  using assms ledger_balanced_total
  by (simp add: books_inv_def balances_nonneg_def wallet_ledger_inv_def payment_inv_def total_available_def succeeded_total_def
      StatusSucceeded_def)

text \<open>
  C1: the books of the system. Start with no wallets, payments or ledger, and let any requests
  arrive, workers run and faults happen (lost connections, failed commits, lost acknowledgements): in
  every reachable state no balance is negative, each wallet equals the net of the ledger entries of its account, total debits
  equal total credits, a payment is booked exactly once if it succeeded and never otherwise, and
  the sum of all balances is the sum of the payments that succeeded. Transfers create no money.
\<close>

theorem system_books:
  assumes "pg_laws E" and "prom_reads C" and "fresh_start (db w0)" and "reachable C L E cfg hasRedis w0 w"
  shows "(\<forall>r \<in> set (wallets (db w)). 0 \<le> sint (w_AvailableBalance r) \<and> 0 \<le> sint (w_LockedBalance r) \<and>
       sint (w_AvailableBalance r) + sint (w_LockedBalance r) = net_account (w_AccountID r) (ledger_entries (db w))) \<and>
    debits (ledger_entries (db w)) = credits (ledger_entries (db w)) \<and>
    (\<forall>p \<in> set (payments (db w)). credits_of (p_ID p) (db w) = (if p_Status p = ''SUCCEEDED'' then 1 else 0)) \<and>
    sum_list (map (\<lambda>r. sint (w_AvailableBalance r)) (wallets (db w))) =
      sum_list (map (\<lambda>p. if p_Status p = ''SUCCEEDED'' then sint (p_Amount p) else 0) (payments (db w)))"
  by (rule books_invD [OF reachable_books [OF assms]])

definition fresh_world :: world where
  "fresh_world = demo_world\<lparr>db := empty_db\<lparr>users := users demo_db\<rparr>\<rparr>"

definition open_wallet :: request where
  "open_wallet = demo_http_request\<lparr>rq_method := ''POST'', rq_path := [''api'', ''v1'', ''wallets''], rq_body := Some currency_body\<rparr>"

lemma demo_env_laws: "pg_laws demo_env"
proof -
  have "uuid_in demo_env platform_account = Some platform_account" by code_simp
  with demo_pg_ok show ?thesis
    by (simp add: pg_laws_def pg_ok_def uuid_canonical_def varchar_exact_def uuid_generated_def demo_env_def)
qed

definition served_world :: world where
  "served_world = snd (NewServer demo_http demo_authlib demo_env demo_config True open_wallet (fresh_world\<lparr>tick := 7\<rparr>))"

lemma served_reachable: "reachable demo_http demo_authlib demo_env demo_config True (fresh_world\<lparr>tick := 7\<rparr>) served_world"
  unfolding served_world_def by (rule reachable.step [OF reachable.initial system_step.request])

theorem system_books_witness:
  "length (wallets (db served_world)) = 1 \<and> 0 \<le> sint (w_AvailableBalance (wallets (db served_world) ! 0)) \<and>
   debits (ledger_entries (db served_world)) = credits (ledger_entries (db served_world))"
proof -
  have "prom_reads demo_http" by (simp add: prom_reads_def demo_http_def)
  moreover have "fresh_start (db (fresh_world\<lparr>tick := 7\<rparr>))" by (simp add: fresh_start_def fresh_world_def empty_db_def)
  moreover have "length (wallets (db served_world)) = 1" by code_simp
  ultimately show ?thesis using system_books [OF demo_env_laws _ _ served_reachable] by (simp add: nth_mem)
qed



end
