(* ===== verification/Concurrency.thy ===== *)
theory Concurrency
  imports Transfer_Correctness
begin

text \<open>
  Transfers that run at the same time. Each request is a session that advances statement by statement through
  \<open>ExecuteTransfer\<close>; \<open>SELECT ... FOR UPDATE\<close> takes the row lock of the wallet it returns and waits while another
  transaction holds it, and the end of the transaction releases its locks. What follows the two locks reads only
  locked rows and is one step, up to the commit. Any other transaction of the system may run in between, as
  long as it leaves locked rows alone. Shown are: a session that is not interrupted is \<open>ExecuteTransfer\<close>;
  every interleaving applies the transfers one after the other; transfers that name their wallets in
  canonical form never deadlock; every schedule ends.
\<close>

section \<open>Sessions and row locks\<close>

text \<open>The constructors follow a call of \<open>ExecuteTransfer\<close>; the time is the start of its transaction.\<close>

datatype session =
    Requested CreateTransferRequest string
  | Begun time CreateTransferRequest string
  | HoldsFirst time CreateTransferRequest string Wallet
  | HoldsBoth time CreateTransferRequest string Wallet Wallet
  | Finished "error + Transfer"

record conc =
  cw :: world
  lock_owner :: "string \<rightharpoonup> nat"
  sessions :: "session list"

text \<open>The row the next statement of a session has to lock, and whether another session holds it.\<close>

definition wants :: "env \<Rightarrow> session \<Rightarrow> string option" where
  "wants E s =
     (case s of
        Begun t req key \<Rightarrow> uuid_in E (fst (lock_order req))
      | HoldsFirst t req key x \<Rightarrow> uuid_in E (snd (lock_order req))
      | _ \<Rightarrow> None)"

definition blocked :: "env \<Rightarrow> conc \<Rightarrow> nat \<Rightarrow> bool" where
  "blocked E c i =
     (case wants E (sessions c ! i) of
        None \<Rightarrow> False
      | Some k \<Rightarrow> (case lock_owner c k of None \<Rightarrow> False | Some j \<Rightarrow> j \<noteq> i))"

text \<open>The return of \<open>ExecuteTransfer\<close>: locks are released and the deferred metric is counted.\<close>

definition release :: "nat \<Rightarrow> ('k \<rightharpoonup> nat) \<Rightarrow> 'k \<rightharpoonup> nat" where
  "release i own k = (if own k = Some i then None else own k)"

definition finish_session :: "nat \<Rightarrow> conc \<Rightarrow> (error + Transfer) \<times> world \<Rightarrow> conc" where
  "finish_session i c p =
     (case p of (r, w) \<Rightarrow>
        c\<lparr>cw := w\<lparr>tx_start := None, metrics := RecordTransfer (\<not> isl r) (metrics w)\<rparr>,
          lock_owner := release i (lock_owner c),
          sessions := (sessions c)[i := Finished r]\<rparr>)"

definition lock_step :: "env \<Rightarrow> nat \<Rightarrow> time \<Rightarrow> string \<Rightarrow> (Wallet \<Rightarrow> session) \<Rightarrow> conc \<Rightarrow> conc" where
  "lock_step E i t name follow c =
     (case mwrap (ErrorfW (''failed to lock wallet '' @ name)) (sql E (sql_lock_wallet E name)) ((cw c)\<lparr>tx_start := Some t\<rparr>) of
        (Inl e, w) \<Rightarrow> finish_session i c (Inl e, w)
      | (Inr x, w) \<Rightarrow>
          c\<lparr>cw := w\<lparr>tx_start := None\<rparr>, lock_owner := (lock_owner c)(w_ID x \<mapsto> i),
            sessions := (sessions c)[i := follow x]\<rparr>)"

definition begin_step :: "env \<Rightarrow> nat \<Rightarrow> CreateTransferRequest \<Rightarrow> string \<Rightarrow> conc \<Rightarrow> conc" where
  "begin_step E i req key c =
     (let w = cw c; w1 = w\<lparr>tick := Suc (tick w)\<rparr> in
      if tr_SourceWalletID req = tr_DestinationWalletID req then finish_session i c (Inl ErrSameWallet, w)
      else if sint (tr_Amount req) \<le> 0 then finish_session i c (Inl (ErrorsNew ''amount must be positive''), w)
      else case stmt_fault E (tick w) of
             None \<Rightarrow> c\<lparr>cw := w1, sessions := (sessions c)[i := Begun (pg_now E (tick w)) req key]\<rparr>
           | Some (NotExecuted msg) \<Rightarrow> finish_session i c (Inl (DriverError msg), w1)
           | Some (AckLost msg) \<Rightarrow> finish_session i c (Inl (DriverError msg), w1))"

text \<open>One step of session \<open>i\<close>; there is none when it waits for a lock or has returned.\<close>

definition session_step :: "env \<Rightarrow> nat \<Rightarrow> conc \<Rightarrow> conc option" where
  "session_step E i c =
     (if length (sessions c) \<le> i \<or> blocked E c i then None
      else case sessions c ! i of
             Requested req key \<Rightarrow> Some (begin_step E i req key c)
           | Begun t req key \<Rightarrow> Some (lock_step E i t (fst (lock_order req)) (HoldsFirst t req key) c)
           | HoldsFirst t req key x \<Rightarrow> Some (lock_step E i t (snd (lock_order req)) (HoldsBoth t req key x) c)
           | HoldsBoth t req key x y \<Rightarrow>
               Some (finish_session i c
                 (end_tx E (db (cw c)) (transfer_locked E req key (x, y) ((cw c)\<lparr>tx_start := Some t\<rparr>))))
           | Finished r \<Rightarrow> None)"

text \<open>A schedule names the session that moves next.\<close>

fun run_schedule :: "env \<Rightarrow> nat list \<Rightarrow> conc \<Rightarrow> conc option" where
  "run_schedule E [] c = Some c"
| "run_schedule E (i # is) c = (case session_step E i c of None \<Rightarrow> None | Some c' \<Rightarrow> run_schedule E is c')"

text \<open>\<open>other\<close> is a transaction that is not one of the sessions; it waits for the rows they have locked.\<close>

definition respects_locks :: "conc \<Rightarrow> world \<Rightarrow> bool" where
  "respects_locks c w \<longleftrightarrow>
     (\<forall>k \<in> dom (lock_owner c). row_with w_ID k (wallets (db w)) = row_with w_ID k (wallets (db (cw c))))"

inductive conc_step :: "env \<Rightarrow> (world \<Rightarrow> world \<Rightarrow> bool) \<Rightarrow> conc \<Rightarrow> conc \<Rightarrow> bool" for E other where
    session: "session_step E i c = Some c' \<Longrightarrow> conc_step E other c c'"
  | foreign: "other (cw c) w \<Longrightarrow> respects_locks c w \<Longrightarrow> conc_step E other c (c\<lparr>cw := w\<rparr>)"

definition started :: "(CreateTransferRequest \<times> string) list \<Rightarrow> world \<Rightarrow> conc" where
  "started rs w = \<lparr>cw = w, lock_owner = Map.empty, sessions = map (\<lambda>(req, key). Requested req key) rs\<rparr>"

section \<open>One session alone\<close>

lemma withTx_end_tx:
  "withTx E body w =
     (case stmt_fault E (tick w) of
        Some (NotExecuted msg) \<Rightarrow> (Inl (DriverError msg), w\<lparr>tick := Suc (tick w)\<rparr>)
      | Some (AckLost msg) \<Rightarrow> (Inl (DriverError msg), w\<lparr>tick := Suc (tick w)\<rparr>)
      | None \<Rightarrow> end_tx E (db w) (body (tx_begin E w)))"
  by (simp add: withTx_def tx_begin_def split: option.splits)

lemma run_schedule_append:
  "run_schedule E (is @ js) c = (case run_schedule E is c of None \<Rightarrow> None | Some c' \<Rightarrow> run_schedule E js c')"
  by (induction "is" arbitrary: c) (auto split: option.splits)

lemma not_blocked_own: "(\<And>k j. lock_owner c k = Some j \<Longrightarrow> j = i) \<Longrightarrow> \<not> blocked E c i"
  by (auto simp: blocked_def split: option.splits)

lemma tick_tx_start [simp]: "w\<lparr>tx_start := b, tick := a\<rparr> = w\<lparr>tick := a, tx_start := b\<rparr>"
  by (cases w) simp

text \<open>The two outcomes of a lock statement; it changes nothing but the counter.\<close>

lemma lock_stmt_world: "sql E (sql_lock_wallet E name) w = (r, w1) \<Longrightarrow> w1 = w\<lparr>tick := Suc (tick w)\<rparr>"
  by (rule sql_query) (auto simp: run_simps)

lemma lock_step_cases:
  obtains (failed) e where "sql E (sql_lock_wallet E name) ((cw c)\<lparr>tx_start := Some t\<rparr>) =
        (Inl e, (cw c)\<lparr>tick := Suc (tick (cw c)), tx_start := Some t\<rparr>)"
      "lock_step E i t name follow c = finish_session i c
         (Inl (ErrorfW (''failed to lock wallet '' @ name) e), (cw c)\<lparr>tick := Suc (tick (cw c)), tx_start := Some t\<rparr>)"
  | (locked) x where "sql E (sql_lock_wallet E name) ((cw c)\<lparr>tx_start := Some t\<rparr>) =
        (Inr x, (cw c)\<lparr>tick := Suc (tick (cw c)), tx_start := Some t\<rparr>)"
      "lock_step E i t name follow c = c\<lparr>cw := (cw c)\<lparr>tick := Suc (tick (cw c)), tx_start := None\<rparr>,
         lock_owner := (lock_owner c)(w_ID x \<mapsto> i), sessions := (sessions c)[i := follow x]\<rparr>"
proof -
  obtain r w1 where run: "sql E (sql_lock_wallet E name) ((cw c)\<lparr>tx_start := Some t\<rparr>) = (r, w1)" by (meson surj_pair)
  note w1 = lock_stmt_world [OF run]
  show thesis
  proof (cases r)
    case (Inl e)
    with run w1 show thesis by (intro failed) (simp_all add: lock_step_def mwrap_def)
  next
    case (Inr x)
    with run w1 show thesis by (intro locked) (simp_all add: lock_step_def mwrap_def)
  qed
qed

lemma alone_both:
  assumes "i < length (sessions c)" and "sessions c ! i = HoldsBoth t req key x y"
  shows "run_schedule E (replicate 1 i) c = Some (finish_session i c
     (end_tx E (db (cw c)) (transfer_locked E req key (x, y) ((cw c)\<lparr>tx_start := Some t\<rparr>))))"
  using assms by (simp add: session_step_def blocked_def wants_def)

lemma run_schedule_step:
  "session_step E i c = Some c' \<Longrightarrow> run_schedule E (replicate n i) c' = r \<Longrightarrow> run_schedule E (replicate (Suc n) i) c = r"
  by simp

lemma release_own: "(\<And>k j. own k = Some j \<Longrightarrow> j = i) \<Longrightarrow> release i own = Map.empty"
  by (rule ext) (metis option.exhaust release_def)

lemma release_empty [simp]: "release i Map.empty = Map.empty"
  by (rule release_own) simp

lemma finish_tx_start [simp]: "finish_session i c (r, w\<lparr>tx_start := s\<rparr>) = finish_session i c (r, w)"
  by (simp add: finish_session_def)

lemma end_tx_Inl [simp]: "db w = d \<Longrightarrow> end_tx E d (Inl e, w) = (Inl e, w\<lparr>tx_start := None\<rparr>)"
  by (cases w) (auto simp: end_tx_def)

lemma finish_over:
  assumes "\<And>k j. own k = Some j \<Longrightarrow> j = i"
  shows "finish_session i (c\<lparr>cw := v, lock_owner := own, sessions := (sessions c)[i := s]\<rparr>) p =
     (finish_session i c p)\<lparr>lock_owner := Map.empty\<rparr>"
  using release_own [of own i] assms by (auto simp: finish_session_def split: prod.splits intro: conc.equality)

text \<open>From the start of the transaction on.\<close>

lemma alone_begun:
  assumes i: "i < length (sessions c)" and s: "sessions c ! i = Begun t req key" and free: "lock_owner c = Map.empty"
  shows "\<exists>n \<le> 3. run_schedule E (replicate n i) c = Some ((finish_session i c
     (end_tx E (db (cw c)) (transfer_body E req key ((cw c)\<lparr>tx_start := Some t\<rparr>))))\<lparr>lock_owner := Map.empty\<rparr>)"
proof -
  obtain f g where fg: "lock_order req = (f, g)" by (meson surj_pair)
  have step1: "session_step E i c = Some (lock_step E i t f (HoldsFirst t req key) c)"
    using i s free not_blocked_own [of c i E] by (simp add: session_step_def fg)
  show ?thesis
  proof (cases rule: lock_step_cases [where E = E and name = f and c = c and t = t and i = i and follow = "HoldsFirst t req key"])
    case (failed e)
    then have "transfer_body E req key ((cw c)\<lparr>tx_start := Some t\<rparr>) =
        (Inl (ErrorfW (''failed to lock wallet '' @ f) e), (cw c)\<lparr>tick := Suc (tick (cw c)), tx_start := Some t\<rparr>)"
      by (simp add: transfer_body_def lock_wallets_def fg mbind_def mwrap_def)
    with failed step1 free show ?thesis
      by (intro exI [of _ "Suc 0"]) (simp add: end_tx_def finish_session_def)
  next
    case (locked x)
    note first = this
    let ?c1 = "c\<lparr>cw := (cw c)\<lparr>tick := Suc (tick (cw c)), tx_start := None\<rparr>, lock_owner := [w_ID x \<mapsto> i],
         sessions := (sessions c)[i := HoldsFirst t req key x]\<rparr>"
    have "\<not> blocked E ?c1 i" by (rule not_blocked_own) (simp split: if_splits)
    with i have step2: "session_step E i ?c1 = Some (lock_step E i t g (HoldsBoth t req key x) ?c1)"
      by (simp add: session_step_def fg)
    show ?thesis
    proof (cases rule: lock_step_cases [where E = E and name = g and c = ?c1 and t = t and i = i and follow = "HoldsBoth t req key x"])
      case (failed e)
      with first have "transfer_body E req key ((cw c)\<lparr>tx_start := Some t\<rparr>) =
          (Inl (ErrorfW (''failed to lock wallet '' @ g) e), (cw c)\<lparr>tick := Suc (Suc (tick (cw c))), tx_start := Some t\<rparr>)"
        by (simp add: transfer_body_def lock_wallets_def fg mbind_def mwrap_def)
      moreover have "finish_session i ?c1 p = (finish_session i c p)\<lparr>lock_owner := Map.empty\<rparr>" for p
        by (rule finish_over) (simp split: if_splits)
      ultimately show ?thesis using failed(2) step1 step2 first(2) free
        by (intro exI [of _ "Suc (Suc 0)"]) simp
    next
      case (locked y)
      let ?c2 = "c\<lparr>cw := (cw c)\<lparr>tick := Suc (Suc (tick (cw c))), tx_start := None\<rparr>, lock_owner := [w_ID x \<mapsto> i, w_ID y \<mapsto> i],
         sessions := (sessions c)[i := HoldsBoth t req key x y]\<rparr>"
      have body: "transfer_body E req key ((cw c)\<lparr>tx_start := Some t\<rparr>) =
          transfer_locked E req key (x, y) ((cw c)\<lparr>tick := Suc (Suc (tick (cw c))), tx_start := Some t\<rparr>)"
        using first locked by (simp add: transfer_body_def lock_wallets_def fg mbind_def mwrap_def mret_def)
      have "run_schedule E (replicate 1 i) ?c2 = Some (finish_session i ?c2
          (end_tx E (db (cw c)) (transfer_locked E req key (x, y) ((cw ?c2)\<lparr>tx_start := Some t\<rparr>))))"
        using i by (subst alone_both [of i ?c2 t req key x y]) simp_all
      also have "\<dots> = Some ((finish_session i c
          (end_tx E (db (cw c)) (transfer_body E req key ((cw c)\<lparr>tx_start := Some t\<rparr>))))\<lparr>lock_owner := Map.empty\<rparr>)"
        unfolding body by (subst finish_over) (auto split: if_splits)
      finally have last: "run_schedule E (replicate (Suc 0) i) ?c2 = \<dots>" by simp
      have "session_step E i ?c1 = Some ?c2" using step2 locked by simp
      note two = run_schedule_step [OF this last]
      have "session_step E i c = Some ?c1" using step1 first free by simp
      from run_schedule_step [OF this two] show ?thesis by (intro exI [of _ "Suc (Suc (Suc 0))"]) simp
    qed
  qed
qed


lemma finish_free: "lock_owner c = Map.empty \<Longrightarrow> (finish_session i c p)\<lparr>lock_owner := Map.empty\<rparr> = finish_session i c p"
  by (simp add: finish_session_def split: prod.splits)

text \<open>
  The sessions are the code. A session that runs without interruption, with no lock taken by others, returns after
  at most four steps with exactly the result and the state of \<open>ExecuteTransfer\<close>.
\<close>

lemma session_alone:
  assumes "i < length (sessions c)" and "sessions c ! i = Requested req key" and "lock_owner c = Map.empty"
    and "tx_start (cw c) = None"
  shows "\<exists>n \<le> 4. run_schedule E (replicate n i) c =
     Some (c\<lparr>cw := snd (ExecuteTransfer E req key (cw c)),
             sessions := (sessions c)[i := Finished (fst (ExecuteTransfer E req key (cw c)))]\<rparr>)"
proof -
  have step: "session_step E i c = Some (begin_step E i req key c)"
    using assms not_blocked_own [of c i E] by (simp add: session_step_def)
  show ?thesis
  proof (cases "tr_SourceWalletID req \<noteq> tr_DestinationWalletID req \<and> 0 < sint (tr_Amount req) \<and> stmt_fault E (tick (cw c)) = None")
    case True
    let ?w = "tx_begin E (cw c)" and ?t = "pg_now E (tick (cw c))"
    let ?c1 = "c\<lparr>cw := (cw c)\<lparr>tick := Suc (tick (cw c))\<rparr>, sessions := (sessions c)[i := Begun ?t req key]\<rparr>"
    from True have c1: "begin_step E i req key c = ?c1" by (simp add: begin_step_def Let_def)
    have tx: "ExecuteTransfer E req key (cw c) =
        (\<lambda>(r, w). (r, w\<lparr>metrics := RecordTransfer (\<not> isl r) (metrics w)\<rparr>)) (end_tx E (db (cw c)) (transfer_body E req key ?w))"
      using True by (auto simp: ExecuteTransfer_def transfer_run_def withTx_end_tx split: prod.splits sum.splits)
    obtain r w where rw: "end_tx E (db (cw c)) (transfer_body E req key ?w) = (r, w)" by (meson surj_pair)
    then have "tx_start w = None"
      by (auto simp: end_tx_def split: prod.splits sum.splits commit_outcome.splits)
    with tx rw assms(3) have "finish_session i ?c1 (end_tx E (db (cw c)) (transfer_body E req key ?w)) =
        c\<lparr>cw := snd (ExecuteTransfer E req key (cw c)), sessions := (sessions c)[i := Finished (fst (ExecuteTransfer E req key (cw c)))]\<rparr>"
      by (simp add: finish_session_def)
    moreover have "\<exists>n \<le> 3. run_schedule E (replicate n i) ?c1 = Some (finish_session i ?c1
         (end_tx E (db (cw ?c1)) (transfer_body E req key ((cw ?c1)\<lparr>tx_start := Some ?t\<rparr>))))"
      using alone_begun [of i ?c1 ?t req key E] assms by (simp add: finish_free)
    ultimately obtain n where "n \<le> 3" "run_schedule E (replicate n i) ?c1 = Some
        (c\<lparr>cw := snd (ExecuteTransfer E req key (cw c)), sessions := (sessions c)[i := Finished (fst (ExecuteTransfer E req key (cw c)))]\<rparr>)"
      by (auto simp: tx_begin_def)
    with run_schedule_step [OF step [unfolded c1]] show ?thesis by (intro exI [of _ "Suc n"]) simp
  next
    case False
    with assms have "begin_step E i req key c = c\<lparr>cw := snd (ExecuteTransfer E req key (cw c)),
        sessions := (sessions c)[i := Finished (fst (ExecuteTransfer E req key (cw c)))]\<rparr>"
      by (auto simp: begin_step_def finish_session_def ExecuteTransfer_def transfer_run_def mfail_def withTx_end_tx Let_def
          split: option.splits stmt_failure.splits if_splits)
    with step show ?thesis by (intro exI [of _ "Suc 0"]) simp
  qed
qed


lemma session_alone_witness:
  "\<exists>n. \<exists>c. run_schedule demo_env (replicate n 0) (started [(demo_transfer, ''key-1'')] demo_world) = Some c \<and>
     cw c = snd (ExecuteTransfer demo_env demo_transfer ''key-1'' demo_world)"
proof -
  have "\<exists>n \<le> 4. run_schedule demo_env (replicate n 0) (started [(demo_transfer, ''key-1'')] demo_world) =
     Some ((started [(demo_transfer, ''key-1'')] demo_world)\<lparr>cw := snd (ExecuteTransfer demo_env demo_transfer ''key-1'' demo_world),
        sessions := [Finished (fst (ExecuteTransfer demo_env demo_transfer ''key-1'' demo_world))]\<rparr>)"
    using session_alone [of 0 "started [(demo_transfer, ''key-1'')] demo_world" demo_transfer "''key-1''" demo_env]
    by (simp add: started_def demo_world_def)
  then obtain n where "run_schedule demo_env (replicate n 0) (started [(demo_transfer, ''key-1'')] demo_world) =
     Some ((started [(demo_transfer, ''key-1'')] demo_world)\<lparr>cw := snd (ExecuteTransfer demo_env demo_transfer ''key-1'' demo_world),
        sessions := [Finished (fst (ExecuteTransfer demo_env demo_transfer ''key-1'' demo_world))]\<rparr>)" (is "_ = Some ?c") by blast
  then show ?thesis by (intro exI [of _ n] exI [of _ ?c]) simp
qed

lemma run_schedule_conc: "run_schedule E is c = Some c' \<Longrightarrow> (conc_step E other)\<^sup>*\<^sup>* c c'"
proof (induction "is" arbitrary: c)
  case (Cons i "is")
  then obtain c1 where "session_step E i c = Some c1" "run_schedule E is c1 = Some c'" by (auto split: option.splits)
  with Cons.IH [of c1] show ?case by (meson conc_step.session converse_rtranclp_into_rtranclp)
qed simp

section \<open>The locks protect what was read\<close>

definition valid_request :: "CreateTransferRequest \<Rightarrow> bool" where
  "valid_request req \<longleftrightarrow> tr_SourceWalletID req \<noteq> tr_DestinationWalletID req \<and> 0 < sint (tr_Amount req)"

text \<open>What a session has read under its locks is what the table holds.\<close>

definition session_ok :: "env \<Rightarrow> db \<Rightarrow> (string \<rightharpoonup> nat) \<Rightarrow> nat \<Rightarrow> session \<Rightarrow> bool" where
  "session_ok E d own i s \<longleftrightarrow>
     (case s of
        Begun t req key \<Rightarrow> valid_request req
      | HoldsFirst t req key x \<Rightarrow> valid_request req \<and>
          (\<exists>r. x = scan_locked r \<and> uuid_in E (fst (lock_order req)) = Some (w_ID r) \<and>
             row_with w_ID (w_ID r) (wallets d) = Some r \<and> own (w_ID r) = Some i)
      | HoldsBoth t req key x y \<Rightarrow> valid_request req \<and>
          (\<exists>r1 r2. x = scan_locked r1 \<and> y = scan_locked r2 \<and> locked_rows E req r1 r2 d \<and>
             own (w_ID r1) = Some i \<and> own (w_ID r2) = Some i)
      | _ \<Rightarrow> True)"

definition holds_lock :: "session \<Rightarrow> string \<Rightarrow> bool" where
  "holds_lock s k \<longleftrightarrow>
     (case s of
        HoldsFirst t req key x \<Rightarrow> k = w_ID x
      | HoldsBoth t req key x y \<Rightarrow> k = w_ID x \<or> k = w_ID y
      | _ \<Rightarrow> False)"

definition lock_inv :: "env \<Rightarrow> conc \<Rightarrow> bool" where
  "lock_inv E c \<longleftrightarrow>
     (\<forall>i < length (sessions c). session_ok E (db (cw c)) (lock_owner c) i (sessions c ! i)) \<and>
     (\<forall>k j. lock_owner c k = Some j \<longrightarrow> j < length (sessions c) \<and> holds_lock (sessions c ! j) k)"

lemma lock_inv_owner: "lock_inv E c \<Longrightarrow> lock_owner c k = Some j \<Longrightarrow> j < length (sessions c) \<and> holds_lock (sessions c ! j) k"
  by (simp add: lock_inv_def)

lemma lock_inv_session: "lock_inv E c \<Longrightarrow> i < length (sessions c) \<Longrightarrow> session_ok E (db (cw c)) (lock_owner c) i (sessions c ! i)"
  by (simp add: lock_inv_def)

lemma lock_inv_started: "lock_inv E (started rs w)"
  by (auto simp: lock_inv_def started_def session_ok_def split: prod.splits)

text \<open>A session only depends on the rows it owns and on owning them.\<close>

lemma session_ok_frame:
  assumes "session_ok E d own i s"
    and "\<And>k. own k = Some i \<Longrightarrow> own' k = Some i \<and> row_with w_ID k (wallets d') = row_with w_ID k (wallets d)"
  shows "session_ok E d' own' i s"
proof (cases s)
  case (HoldsBoth t req key x y)
  with assms(1) obtain r1 r2 where "x = scan_locked r1" "y = scan_locked r2" "locked_rows E req r1 r2 d"
    "own (w_ID r1) = Some i" "own (w_ID r2) = Some i" "valid_request req" by (auto simp: session_ok_def)
  moreover from this assms(2) have "locked_rows E req r1 r2 d'" "own' (w_ID r1) = Some i" "own' (w_ID r2) = Some i"
    by (simp_all add: locked_rows_def)
  ultimately show ?thesis unfolding session_ok_def HoldsBoth session.case by blast
qed (use assms in \<open>auto simp: session_ok_def\<close>)

lemma move_funds_row:
  "k \<noteq> w_ID s \<Longrightarrow> k \<noteq> w_ID r \<Longrightarrow> row_with w_ID k (move_funds s r a ws) = row_with w_ID k ws"
  by (simp add: move_funds_def row_with_update_where)

text \<open>The end of a session: nothing, or its transfer and only rows it has locked.\<close>

lemma locked_end:
  assumes "uuid_canonical E" and "valid_request req" and "locked_rows E req r1 r2 (db w)"
    and "end_tx E (db w) (transfer_locked E req key (scan_locked r1, scan_locked r2) (w\<lparr>tx_start := Some t\<rparr>)) = (res, w')"
  shows "(db w' = db w \<and> isl res \<or> (\<exists>s r. transfer_applied E req key s r (db w) (db w'))) \<and>
    (\<forall>k. k \<noteq> w_ID r1 \<longrightarrow> k \<noteq> w_ID r2 \<longrightarrow> row_with w_ID k (wallets (db w')) = row_with w_ID k (wallets (db w)))"
proof -
  obtain q w1 where run: "transfer_locked E req key (scan_locked r1, scan_locked r2) (w\<lparr>tx_start := Some t\<rparr>) = (q, w1)"
    by (meson surj_pair)
  have unless: "db w' = db w \<and> isl res \<or> (\<exists>x. q = Inr x \<and> db w' = db w1)"
    using assms(4) run by (cases q) (auto simp: end_tx_def split: commit_outcome.splits)
  have app: "\<exists>s r. transfer_applied E req key s r (db w) (db w1)" if "q = Inr x" for x
    using transfer_locked_Inr [OF assms(1), of req r1 r2 "w\<lparr>tx_start := Some t\<rparr>" key x w1] assms(2,3) run that
    by (auto simp: valid_request_def)
  have rows: "row_with w_ID k (wallets d) = row_with w_ID k (wallets (db w))"
    if "transfer_applied E req key s r (db w) d" "k \<noteq> w_ID r1" "k \<noteq> w_ID r2" for s r d k
  proof -
    from that(1) have "{Some (w_ID s), Some (w_ID r)} = {uuid_in E (fst (lock_order req)), uuid_in E (snd (lock_order req))}"
      by (auto simp: transfer_applied_def transfer_guard_def lock_order_def)
    with assms(3) that(2,3) have "k \<noteq> w_ID s" "k \<noteq> w_ID r" by (auto simp: locked_rows_def doubleton_eq_iff)
    with that(1) show ?thesis by (auto simp: transfer_applied_def move_funds_row)
  qed
  from unless show ?thesis
  proof
    assume "\<exists>x. q = Inr x \<and> db w' = db w1"
    with app rows show ?thesis by metis
  qed simp
qed


lemma finish_sel [simp]:
  "db (cw (finish_session i c (r, w))) = db w" "sessions (finish_session i c (r, w)) = (sessions c)[i := Finished r]"
  "lock_owner (finish_session i c (r, w)) = release i (lock_owner c)"
  by (simp_all add: finish_session_def)

lemma release_Some [simp]: "release i own k = Some j \<longleftrightarrow> own k = Some j \<and> j \<noteq> i"
  by (auto simp: release_def)

lemma lock_inv_finish:
  assumes inv: "lock_inv E c" and i: "i < length (sessions c)"
    and rows: "\<And>k. lock_owner c k \<noteq> Some i \<Longrightarrow> row_with w_ID k (wallets (db w)) = row_with w_ID k (wallets (db (cw c)))"
  shows "lock_inv E (finish_session i c (r, w))"
proof -
  have "session_ok E (db w) (release i (lock_owner c)) j ((sessions c)[i := Finished r] ! j)" if "j < length (sessions c)" for j
  proof (cases "j = i")
    case True
    with i show ?thesis by (simp add: session_ok_def)
  next
    case False
    from inv that have "session_ok E (db (cw c)) (lock_owner c) j (sessions c ! j)" by (simp add: lock_inv_def)
    then show ?thesis using False rows by (auto intro: session_ok_frame)
  qed
  with inv show ?thesis by (auto simp: lock_inv_def)
qed

lemma lock_inv_taken:
  assumes inv: "lock_inv E c" and i: "i < length (sessions c)" and free: "lock_owner c k = None \<or> lock_owner c k = Some i"
    and d: "db w = db (cw c)"
    and s: "session_ok E (db w) ((lock_owner c)(k \<mapsto> i)) i s" "holds_lock s k"
      "\<And>k'. holds_lock (sessions c ! i) k' \<Longrightarrow> holds_lock s k'"
  shows "lock_inv E (c\<lparr>cw := w, lock_owner := (lock_owner c)(k \<mapsto> i), sessions := (sessions c)[i := s]\<rparr>)"
proof -
  have "session_ok E (db w) ((lock_owner c)(k \<mapsto> i)) j ((sessions c)[i := s] ! j)" if "j < length (sessions c)" for j
  proof (cases "j = i")
    case True
    with i s(1) show ?thesis by simp
  next
    case False
    from inv that have "session_ok E (db (cw c)) (lock_owner c) j (sessions c ! j)" by (simp add: lock_inv_def)
    then have "session_ok E (db w) ((lock_owner c)(k \<mapsto> i)) j (sessions c ! j)"
      by (rule session_ok_frame) (use free False d in \<open>auto\<close>)
    with False show ?thesis by simp
  qed
  moreover have "j < length (sessions c) \<and> holds_lock ((sessions c)[i := s] ! j) k'"
    if "((lock_owner c)(k \<mapsto> i)) k' = Some j" for k' j
  proof (cases "k' = k")
    case True
    with that i s(2) show ?thesis by simp
  next
    case False
    with that inv have "j < length (sessions c)" "holds_lock (sessions c ! j) k'" by (auto simp: lock_inv_def)
    with s(3) show ?thesis by (cases "j = i") auto
  qed
  ultimately show ?thesis by (simp add: lock_inv_def)
qed


definition request_of :: "session \<Rightarrow> (CreateTransferRequest \<times> string) option" where
  "request_of s =
     (case s of
        Requested req key \<Rightarrow> Some (req, key)
      | Begun t req key \<Rightarrow> Some (req, key)
      | HoldsFirst t req key x \<Rightarrow> Some (req, key)
      | HoldsBoth t req key x y \<Rightarrow> Some (req, key)
      | Finished r \<Rightarrow> None)"

lemma lock_stmt_row:
  assumes "sql E (sql_lock_wallet E name) w = (Inr x, w1)"
  shows "\<exists>r. x = scan_locked r \<and> uuid_in E name = Some (w_ID r) \<and> row_with w_ID (w_ID r) (wallets (db w)) = Some r"
  using assms by (auto simp: run_simps dest: row_with_SomeD)

lemma not_blockedD:
  "\<not> blocked E c i \<Longrightarrow> wants E (sessions c ! i) = Some k \<Longrightarrow> lock_owner c k = None \<or> lock_owner c k = Some i"
  by (auto simp: blocked_def split: option.splits)

text \<open>What one step does: the invariant stays, the other sessions are untouched, and the database changes by the session's own transfer or not at all.\<close>

definition step_effect :: "env \<Rightarrow> nat \<Rightarrow> conc \<Rightarrow> conc \<Rightarrow> bool" where
  "step_effect E i c c' \<longleftrightarrow>
     (\<exists>req key s'. request_of (sessions c ! i) = Some (req, key) \<and> sessions c' = (sessions c)[i := s'] \<and>
        (request_of s' = Some (req, key) \<and> db (cw c') = db (cw c) \<or>
         (\<exists>r. s' = Finished r \<and> (db (cw c') = db (cw c) \<and> isl r \<or>
            (\<exists>sw dw. transfer_applied E req key sw dw (db (cw c)) (db (cw c')))))))"

lemma begin_step_ok:
  assumes inv: "lock_inv E c" and i: "i < length (sessions c)" and s: "sessions c ! i = Requested req key"
  shows "lock_inv E (begin_step E i req key c) \<and> step_effect E i c (begin_step E i req key c)"
proof -
  have fin: "lock_inv E (finish_session i c (r, w)) \<and> step_effect E i c (finish_session i c (r, w))"
    if "db w = db (cw c)" "isl r" for r w
    using that lock_inv_finish [OF inv i, of w r] s by (auto simp: step_effect_def request_of_def)
  have beg: "lock_inv E (c\<lparr>cw := (cw c)\<lparr>tick := n\<rparr>, sessions := (sessions c)[i := Begun t req key]\<rparr>)" if "valid_request req" for n t
  proof -
    have "lock_owner c k \<noteq> Some i" for k using lock_inv_owner [OF inv, of k i] s by (auto simp: holds_lock_def)
    with inv i that show ?thesis by (auto simp: lock_inv_def session_ok_def nth_list_update)
  qed
  show ?thesis
    using fin beg s
    by (auto simp: begin_step_def Let_def valid_request_def step_effect_def request_of_def split: option.splits stmt_failure.splits)
qed

lemma lock_step_ok:
  assumes inv: "lock_inv E c" and i: "i < length (sessions c)" and b: "\<not> blocked E c i"
    and w: "wants E (sessions c ! i) = uuid_in E name" and req: "request_of (sessions c ! i) = Some (req, key)"
    and follow: "\<And>x. request_of (follow x) = Some (req, key)" "\<And>x. holds_lock (follow x) (w_ID x)"
      "\<And>x k. holds_lock (sessions c ! i) k \<Longrightarrow> holds_lock (follow x) k"
      "\<And>r. uuid_in E name = Some (w_ID r) \<Longrightarrow> row_with w_ID (w_ID r) (wallets (db (cw c))) = Some r \<Longrightarrow>
         session_ok E (db (cw c)) ((lock_owner c)(w_ID r \<mapsto> i)) i (follow (scan_locked r))"
  shows "lock_inv E (lock_step E i t name follow c) \<and> step_effect E i c (lock_step E i t name follow c)"
proof (cases rule: lock_step_cases [where E = E and name = name and c = c and t = t and i = i and follow = follow])
  case (failed e)
  with lock_inv_finish [OF inv i] req show ?thesis by (auto simp: step_effect_def)
next
  case (locked x)
  from lock_stmt_row [OF locked(1)] obtain r where r: "x = scan_locked r" "uuid_in E name = Some (w_ID r)"
    "row_with w_ID (w_ID r) (wallets (db (cw c))) = Some r" by auto
  with not_blockedD [OF b, of "w_ID r"] w have "lock_owner c (w_ID r) = None \<or> lock_owner c (w_ID r) = Some i" by simp
  from lock_inv_taken [OF inv i this, of "(cw c)\<lparr>tick := Suc (tick (cw c)), tx_start := None\<rparr>" "follow x"]
  have "lock_inv E (lock_step E i t name follow c)" using locked(2) follow(2) [of x] follow(3) follow(4) r by simp
  moreover have "step_effect E i c (lock_step E i t name follow c)"
    using locked(2) req follow(1) by (auto simp: step_effect_def)
  ultimately show ?thesis ..
qed


lemma session_step_ok:
  assumes canon: "uuid_canonical E" and inv: "lock_inv E c" and step: "session_step E i c = Some c'"
  shows "lock_inv E c' \<and> step_effect E i c c'"
proof -
  from step have i: "i < length (sessions c)" and b: "\<not> blocked E c i" by (auto simp: session_step_def split: if_splits)
  note ok = lock_inv_session [OF inv i]
  show ?thesis
  proof (cases "sessions c ! i")
    case (Requested req key)
    with step i b have "c' = begin_step E i req key c" by (simp add: session_step_def)
    with begin_step_ok [OF inv i Requested] show ?thesis by simp
  next
    case (Begun t req key)
    with step i b have c': "c' = lock_step E i t (fst (lock_order req)) (HoldsFirst t req key) c" by (simp add: session_step_def)
    show ?thesis
      unfolding c' by (rule lock_step_ok [OF inv i b, where req = req and key = key])
        (use ok in \<open>auto simp: Begun wants_def request_of_def holds_lock_def session_ok_def\<close>)
  next
    case (HoldsFirst t req key x)
    with step i b have c': "c' = lock_step E i t (snd (lock_order req)) (HoldsBoth t req key x) c" by (simp add: session_step_def)
    from ok HoldsFirst obtain r1 where r1: "valid_request req" "x = scan_locked r1" "uuid_in E (fst (lock_order req)) = Some (w_ID r1)"
      "row_with w_ID (w_ID r1) (wallets (db (cw c))) = Some r1" "lock_owner c (w_ID r1) = Some i" by (auto simp: session_ok_def)
    have both: "session_ok E (db (cw c)) ((lock_owner c)(w_ID r2 \<mapsto> i)) i (HoldsBoth t req key x (scan_locked r2))"
      if "uuid_in E (snd (lock_order req)) = Some (w_ID r2)" "row_with w_ID (w_ID r2) (wallets (db (cw c))) = Some r2" for r2
    proof -
      from r1 that have "locked_rows E req r1 r2 (db (cw c))" by (simp add: locked_rows_def)
      with r1 show ?thesis unfolding session_ok_def session.case by (auto simp del: fun_upd_apply) (simp add: exI [of _ r1] exI [of _ r2])
    qed
    show ?thesis
      unfolding c' by (rule lock_step_ok [OF inv i b, where req = req and key = key])
        (simp_all add: HoldsFirst wants_def request_of_def holds_lock_def both)
  next
    case (HoldsBoth t req key x y)
    obtain r w where rw: "end_tx E (db (cw c)) (transfer_locked E req key (x, y) ((cw c)\<lparr>tx_start := Some t\<rparr>)) = (r, w)" by (meson surj_pair)
    with HoldsBoth step i b have c': "c' = finish_session i c (r, w)" by (simp add: session_step_def)
    from ok HoldsBoth obtain r1 r2 where l: "valid_request req" "x = scan_locked r1" "y = scan_locked r2"
      "locked_rows E req r1 r2 (db (cw c))" "lock_owner c (w_ID r1) = Some i" "lock_owner c (w_ID r2) = Some i"
      by (auto simp: session_ok_def)
    note fin = locked_end [OF canon l(1,4), of key t r w, folded l(2,3), OF rw]
    from fin l(5,6) have "lock_inv E c'" unfolding c' by (intro lock_inv_finish [OF inv i]) metis
    moreover from fin have "step_effect E i c c'" by (auto simp: step_effect_def request_of_def HoldsBoth c')
    ultimately show ?thesis ..
  next
    case (Finished r)
    with step i b show ?thesis by (simp add: session_step_def)
  qed
qed

lemma conc_step_inv:
  assumes "uuid_canonical E" and "lock_inv E c" and "conc_step E other c c'"
  shows "lock_inv E c'"
  using assms(3)
proof (cases rule: conc_step.cases)
  case (session i)
  then show ?thesis using session_step_ok [OF assms(1,2)] by blast
next
  case (foreign w)
  have "session_ok E (db w) (lock_owner c) i (sessions c ! i)" if "i < length (sessions c)" for i
    by (rule session_ok_frame [OF lock_inv_session [OF assms(2) that]]) (use foreign in \<open>auto simp: respects_locks_def\<close>)
  with foreign assms(2) show ?thesis by (simp add: lock_inv_def)
qed

lemma conc_reach_inv:
  assumes "uuid_canonical E" and "(conc_step E other)\<^sup>*\<^sup>* (started rs w) c"
  shows "lock_inv E c"
  using assms(2) by (induction rule: rtranclp_induct) (auto intro: lock_inv_started conc_step_inv [OF assms(1)])

text \<open>A session keeps the request it was started with.\<close>

lemma conc_reach_requests:
  assumes "uuid_canonical E" and "(conc_step E other)\<^sup>*\<^sup>* (started rs w) c"
  shows "length (sessions c) = length rs \<and>
    (\<forall>i < length rs. request_of (sessions c ! i) = Some (rs ! i) \<or> (\<exists>r. sessions c ! i = Finished r))"
  using assms(2)
proof (induction rule: rtranclp_induct)
  case base
  show ?case by (auto simp: started_def request_of_def split: prod.splits)
next
  case (step c1 c2)
  from step(2) show ?case
  proof (cases rule: conc_step.cases)
    case (session i)
    have "step_effect E i c1 c2"
      using session_step_ok [OF assms(1) conc_reach_inv [OF assms(1) step(1)] session] ..
    then obtain req key s' where e: "request_of (sessions c1 ! i) = Some (req, key)" "sessions c2 = (sessions c1)[i := s']"
      "request_of s' = Some (req, key) \<or> (\<exists>r. s' = Finished r)" by (auto simp: step_effect_def)
    have "request_of (sessions c2 ! j) = Some (rs ! j) \<or> (\<exists>r. sessions c2 ! j = Finished r)" if "j < length rs" for j
      using step.IH that e by (cases "j = i") (auto simp: request_of_def [of "Finished r" for r])
    with step.IH e(2) show ?thesis by simp
  next
    case (foreign w')
    with step.IH show ?thesis by simp
  qed
qed


text \<open>
  C3: serialisability. Let any number of transfers run at the same time, interleaved statement by statement with
  each other and with any other transactions that leave the rows they have locked alone, and with any faults. Then every
  step of the session of a request changes the database by exactly that transfer, applied at once to the current
  database (with all its guards: status, currency and funds of both wallets as they are then), or not at all;
  and a session that reports success has applied it with its last step. So concurrent
  transfers act one after the other, in the order of their commits.
\<close>

theorem transfers_serializable:
  assumes "uuid_canonical E" and "(conc_step E other)\<^sup>*\<^sup>* (started rs w0) c"
    and "session_step E i c = Some c'" and "rs ! i = (req, key)"
  shows "(db (cw c') = db (cw c) \<or> (\<exists>s r. transfer_applied E req key s r (db (cw c)) (db (cw c')))) \<and>
    (\<forall>t. sessions c' ! i = Finished (Inr t) \<longrightarrow> (\<exists>s r. transfer_applied E req key s r (db (cw c)) (db (cw c'))))"
proof -
  from assms(3) have i: "i < length (sessions c)" by (auto simp: session_step_def split: if_splits)
  have "step_effect E i c c'" using session_step_ok [OF assms(1) conc_reach_inv [OF assms(1,2)] assms(3)] ..
  moreover have "request_of (sessions c ! i) = Some (req, key) \<or> (\<exists>r. sessions c ! i = Finished r)"
    using conc_reach_requests [OF assms(1,2)] i assms(4) by auto
  then have "request_of (sessions c ! i) = request_of (Requested req key) \<or> request_of (sessions c ! i) = None"
    by (auto simp: request_of_def [of "Finished r" for r] request_of_def [of "Requested req key"])
  ultimately obtain s' where "sessions c' = (sessions c)[i := s']"
    "request_of s' = Some (req, key) \<and> db (cw c') = db (cw c) \<or>
       (\<exists>r. s' = Finished r \<and> (db (cw c') = db (cw c) \<and> isl r \<or>
            (\<exists>sw dw. transfer_applied E req key sw dw (db (cw c)) (db (cw c')))))"
    unfolding step_effect_def by (elim exE conjE) (simp add: request_of_def [of "Requested req key"])
  with i show ?thesis by (auto simp: request_of_def [of "Finished r" for r])
qed

text \<open>Two opposite transfers, up to the moment when the first commits.\<close>

definition opposite :: "(CreateTransferRequest \<times> string) list" where
  "opposite = [(demo_transfer, ''key-1''),
     (demo_transfer\<lparr>tr_SourceWalletID := ''wallet-b'', tr_DestinationWalletID := ''wallet-a''\<rparr>, ''key-1'')]"

definition before_commit :: conc where
  "before_commit = the (run_schedule demo_env [0, 1, 0, 0] (started opposite demo_world))"

lemma before_commit_run: "run_schedule demo_env [0, 1, 0, 0] (started opposite demo_world) = Some before_commit"
proof -
  have "run_schedule demo_env [0, 1, 0, 0] (started opposite demo_world) \<noteq> None" by code_simp
  then show ?thesis by (auto simp: before_commit_def)
qed

theorem transfers_serializable_witness:
  "blocked demo_env before_commit 1 \<and>
   (\<exists>c' s r. session_step demo_env 0 before_commit = Some c' \<and>
      transfer_applied demo_env demo_transfer ''key-1'' s r (db (cw before_commit)) (db (cw c')))"
proof -
  have "case session_step demo_env 0 before_commit of
      None \<Rightarrow> False
    | Some c \<Rightarrow> (case sessions c ! 0 of Finished (Inr t) \<Rightarrow> True | _ \<Rightarrow> False)"
    "blocked demo_env before_commit 1" "opposite ! 0 = (demo_transfer, ''key-1'')" by code_simp+
  note facts = this
  then obtain c' where step: "session_step demo_env 0 before_commit = Some c'" by (auto split: option.splits)
  with facts(1) obtain t where "sessions c' ! 0 = Finished (Inr t)" by (cases "sessions c' ! 0") (auto split: sum.splits)
  with step facts(2,3) transfers_serializable [OF demo_env_canonical run_schedule_conc [OF before_commit_run, of "\<lambda>_ _. False"], of 0 c' demo_transfer "''key-1''"]
  show ?thesis by blast
qed

section \<open>No deadlock, and an end\<close>

text \<open>The wallets are named in canonical form, or the text is no UUID at all.\<close>

definition canonical_request :: "env \<Rightarrow> CreateTransferRequest \<Rightarrow> bool" where
  "canonical_request E req \<longleftrightarrow>
     uuid_in E (tr_SourceWalletID req) \<in> {None, Some (tr_SourceWalletID req)} \<and>
     uuid_in E (tr_DestinationWalletID req) \<in> {None, Some (tr_DestinationWalletID req)}"

lemma canonical_locks:
  assumes "canonical_request E req" and "valid_request req"
  shows "uuid_in E (fst (lock_order req)) = Some k \<Longrightarrow> k = fst (lock_order req)"
    and "uuid_in E (snd (lock_order req)) = Some k \<Longrightarrow> k = snd (lock_order req)"
    and "fst (lock_order req) < snd (lock_order req)"
  using assms by (auto simp: canonical_request_def valid_request_def lock_order_def split: if_splits)

text \<open>A session that waits for its second lock, and the lock it holds.\<close>

definition waits_holding :: "env \<Rightarrow> conc \<Rightarrow> nat \<Rightarrow> string \<Rightarrow> bool" where
  "waits_holding E c i k \<longleftrightarrow>
     i < length (sessions c) \<and> blocked E c i \<and> (\<exists>t req key x. sessions c ! i = HoldsFirst t req key x \<and> k = w_ID x)"

lemma owner_waits:
  assumes "lock_inv E c" and "\<And>i. session_step E i c = None" and "lock_owner c k = Some j"
  shows "waits_holding E c j k"
  using lock_inv_owner [OF assms(1,3)] assms(2) [of j]
  by (cases "sessions c ! j") (auto simp: holds_lock_def waits_holding_def session_step_def blocked_def wants_def split: if_splits)

lemma waits_for_greater:
  assumes inv: "lock_inv E c" and canon: "\<And>i req key. i < length (sessions c) \<Longrightarrow> request_of (sessions c ! i) = Some (req, key) \<Longrightarrow> canonical_request E req"
    and stuck: "\<And>i. session_step E i c = None" and w: "waits_holding E c i k"
  shows "\<exists>j k'. waits_holding E c j k' \<and> k < k'"
proof -
  from w obtain t req key x k' j where s: "i < length (sessions c)" "sessions c ! i = HoldsFirst t req key x" "k = w_ID x"
    and k': "uuid_in E (snd (lock_order req)) = Some k'" "lock_owner c k' = Some j"
    by (auto simp: waits_holding_def blocked_def wants_def split: option.splits)
  from lock_inv_session [OF inv s(1)] s(2,3) have ok: "valid_request req" "uuid_in E (fst (lock_order req)) = Some k"
    by (auto simp: session_ok_def)
  have "canonical_request E req" using canon [OF s(1)] s(2) by (simp add: request_of_def)
  from canonical_locks [OF this ok(1)] ok(2) k'(1) have "k < k'" by metis
  with owner_waits [OF inv stuck k'(2)] show ?thesis by blast
qed

definition is_finished :: "session \<Rightarrow> bool" where
  "is_finished s = (case s of Finished r \<Rightarrow> True | _ \<Rightarrow> False)"

lemma is_finished_iff: "is_finished s \<longleftrightarrow> (\<exists>r. s = Finished r)"
  by (cases s) (auto simp: is_finished_def)

text \<open>
  If every request names its wallets in canonical form, some session can take its next step in every state that can be reached, unless all
  have returned: the order in which the code takes the locks rules out a cycle of waiting sessions.
\<close>

lemma no_deadlock:
  assumes "uuid_canonical E" and "(conc_step E other)\<^sup>*\<^sup>* (started rs w0) c"
    and "list_all (\<lambda>(req, key). canonical_request E req) rs"
  shows "list_all is_finished (sessions c) \<or> (\<exists>i c'. session_step E i c = Some c')"
proof (rule ccontr)
  assume "\<not> ?thesis"
  then have stuck: "\<And>i. session_step E i c = None" and "\<not> list_all is_finished (sessions c)" by auto
  then obtain i where i: "i < length (sessions c)" "\<not> is_finished (sessions c ! i)" by (auto simp: list_all_length)
  note inv = conc_reach_inv [OF assms(1,2)]
  have canon: "canonical_request E req" if "j < length (sessions c)" "request_of (sessions c ! j) = Some (req, key)" for j req key
  proof -
    have "request_of (Finished r) = None" for r by (simp add: request_of_def)
    with conc_reach_requests [OF assms(1,2)] that have "j < length rs" "rs ! j = (req, key)" by auto
    with assms(3) show ?thesis by (auto simp: list_all_length)
  qed
  define S where "S = {k. \<exists>j. waits_holding E c j k}"
  have "S \<subseteq> (\<lambda>j. case sessions c ! j of HoldsFirst t req key x \<Rightarrow> w_ID x | _ \<Rightarrow> '''') ` {..< length (sessions c)}"
  proof
    fix k
    assume "k \<in> S"
    then obtain j t req key x where "j < length (sessions c)" "sessions c ! j = HoldsFirst t req key x" "k = w_ID x"
      by (auto simp: S_def waits_holding_def)
    then show "k \<in> (\<lambda>j. case sessions c ! j of HoldsFirst t req key x \<Rightarrow> w_ID x | _ \<Rightarrow> '''') ` {..< length (sessions c)}"
      by (intro image_eqI [of _ _ j]) simp_all
  qed
  then have "finite S" by (rule finite_subset) simp
  moreover have "S \<noteq> {}"
  proof -
    have b: "blocked E c i" using stuck [of i] i by (auto simp: session_step_def is_finished_def split: session.splits if_splits)
    then obtain k j where "lock_owner c k = Some j" by (auto simp: blocked_def split: option.splits)
    with owner_waits [OF inv stuck] show ?thesis by (auto simp: S_def)
  qed
  ultimately have "Max S \<in> S" and greatest: "\<And>k. k \<in> S \<Longrightarrow> k \<le> Max S" by simp_all
  then obtain j where "waits_holding E c j (Max S)" by (auto simp: S_def)
  with waits_for_greater [OF inv _ stuck this] canon obtain j' k' where "waits_holding E c j' k'" "Max S < k'" by blast
  then have "k' \<in> S" by (auto simp: S_def)
  with greatest \<open>Max S < k'\<close> show False by (meson leD)
qed


text \<open>
  The text of the identifiers decides the order. Of two requests one names the second wallet in upper case, which
  sorts before lower case: each session holds the row the other one waits for.
\<close>

lemma transfers_deadlock_mixed_case:
  "case run_schedule demo_env [0, 1, 0, 1] (started
       [(demo_transfer, ''key-1''),
        (demo_transfer\<lparr>tr_SourceWalletID := ''WALLET-B'', tr_DestinationWalletID := ''wallet-a''\<rparr>, ''key-2'')] demo_world) of
     None \<Rightarrow> False
   | Some c \<Rightarrow> blocked demo_env c 0 \<and> blocked demo_env c 1 \<and> lock_owner c ''wallet-a'' = Some 0 \<and> lock_owner c ''wallet-b'' = Some 1"
  by code_simp

text \<open>Each step brings its session nearer to its end.\<close>

fun steps_left :: "session \<Rightarrow> nat" where
  "steps_left (Requested req key) = 4"
| "steps_left (Begun t req key) = 3"
| "steps_left (HoldsFirst t req key x) = 2"
| "steps_left (HoldsBoth t req key x y) = 1"
| "steps_left (Finished r) = 0"

lemma sum_list_update_less:
  fixes f :: "'a \<Rightarrow> nat"
  assumes "i < length xs" and "f y < f (xs ! i)"
  shows "sum_list (map f (xs[i := y])) < sum_list (map f xs)"
  using assms
proof (induction xs arbitrary: i)
  case (Cons a xs)
  then show ?case by (cases i) auto
qed simp

lemma session_step_decreases:
  assumes "session_step E i c = Some c'"
  shows "sum_list (map steps_left (sessions c')) < sum_list (map steps_left (sessions c))"
proof -
  from assms have i: "i < length (sessions c)" and b: "\<not> blocked E c i" by (auto simp: session_step_def split: if_splits)
  have fin: "sessions (finish_session i c p) = (sessions c)[i := Finished (fst p)]" for p
    by (simp add: finish_session_def split: prod.splits)
  have lock: "\<exists>s'. sessions (lock_step E i t name follow c) = (sessions c)[i := s'] \<and> steps_left s' < n"
    if "\<And>x. steps_left (follow x) < n" for t name follow n
  proof (cases rule: lock_step_cases [where E = E and name = name and c = c and t = t and i = i and follow = follow])
    case (failed e)
    from that have "0 < n" by (metis gr_zeroI not_less_zero)
    with failed show ?thesis by (intro exI [of _ "Finished _"]) (simp add: fin)
  next
    case (locked x)
    with that show ?thesis by auto
  qed
  have "\<exists>s'. sessions c' = (sessions c)[i := s'] \<and> steps_left s' < steps_left (sessions c ! i)"
  proof (cases "sessions c ! i")
    case (Requested req key)
    with assms i b show ?thesis
      by (auto simp: session_step_def begin_step_def Let_def split: option.splits stmt_failure.splits if_splits)
  next
    case (HoldsBoth t req key x y)
    with assms i b show ?thesis by (auto simp: session_step_def fin)
  qed (use assms i b lock in \<open>auto simp: session_step_def\<close>)
  then show ?thesis using i by (auto intro: sum_list_update_less)
qed

end
