(* ===== verification/Webhook_Concurrency.thy ===== *)
theory Webhook_Concurrency
  imports System_Books Concurrency
begin

text \<open>
  Webhooks and transfers that run at the same time. A webhook is a session that advances statement by statement through
  \<open>ProcessWebhook\<close>. What it has written is seen by itself only, until it commits. Its \<open>INSERT\<close> waits while another
  transaction has an uncommitted event with the same key, its \<open>SELECT ... FOR UPDATE OF p\<close> waits for the row of the payment, and its
  \<open>UPDATE wallets\<close> for the row of the wallet, which transfers lock. Beside them run the sessions of Concurrency and any other
  transactions. Shown are: a session that is not interrupted is \<open>ProcessWebhook\<close>; every
  interleaving applies webhooks and transfers one after the other; there is no deadlock between them; every
  schedule ends.
\<close>

section \<open>Sessions of webhooks\<close>

text \<open>What a transaction holds: a key and an identifier of the table of events, the row of a payment.\<close>

datatype resource = EventKey string string | EventRow string | PaymentRow string

text \<open>
  The constructors follow a call of \<open>ProcessWebhook\<close>: before \<open>Begin\<close>, before each of the three statements that may wait or
  report, before the credit, and after the return. They carry the start of the transaction and the variables that are still read.
\<close>

datatype webhook_session =
    Received string string
  | Opened time string WebhookPayload string
  | Recorded time string WebhookPayload WebhookRow
  | HoldsPayment time string WebhookPayload WebhookRow Payment string
  | Advanced time string WebhookPayload WebhookRow Payment string
  | Answered "error + unit"

record mixed =
  tr :: conc
  held :: "resource \<rightharpoonup> nat"
  hooks :: "webhook_session list"

definition event_locks :: "WebhookRow \<Rightarrow> resource list" where
  "event_locks we = [EventKey (we_Provider we) (we_EventID we), EventRow (we_ID we)]"

definition record_event :: "WebhookRow \<Rightarrow> db \<Rightarrow> db" where
  "record_event we d = d\<lparr>webhook_events := webhook_events d @ [we]\<rparr>"

text \<open>The committed database with the uncommitted writes of the session.\<close>

definition own_view :: "env \<Rightarrow> webhook_session \<Rightarrow> db \<Rightarrow> db" where
  "own_view E s d =
     (case s of
        Recorded t pv ev we \<Rightarrow> record_event we d
      | HoldsPayment t pv ev we p acc \<Rightarrow> record_event we d
      | Advanced t pv ev we p acc \<Rightarrow>
          (case sql_update_payment E (wh_Status ev) (p_ID p) '''' t (record_event we d) of Inl e \<Rightarrow> d | Inr (_, d') \<Rightarrow> d')
      | _ \<Rightarrow> d)"

text \<open>
  What the next statement has to take: the keys of the row it inserts, the row it locks, the row of the wallet
  it updates. A statement that fails at once waits for nothing.
\<close>

definition wanted :: "env \<Rightarrow> world \<Rightarrow> webhook_session \<Rightarrow> resource list" where
  "wanted E w s =
     (case s of
        Opened t pv ev payload \<Rightarrow>
          (case sql_insert_webhook E pv ev payload (gen_random_uuid E (tick w)) t (db w) of
             Inl e \<Rightarrow> [] | Inr (_, d) \<Rightarrow> event_locks (last (webhook_events d)))
      | Recorded t pv ev we \<Rightarrow>
          (case sql_lock_payment (wh_ReferenceID ev) '''' t (db w) of Inl e \<Rightarrow> [] | Inr ((p, acc), d) \<Rightarrow> [PaymentRow (p_ID p)])
      | _ \<Rightarrow> [])"

definition wanted_wallet :: "env \<Rightarrow> webhook_session \<Rightarrow> string option" where
  "wanted_wallet E s =
     (case s of
        Advanced t pv ev we p acc \<Rightarrow> if wh_Status ev = StatusSucceeded then uuid_in E (p_WalletID p) else None
      | _ \<Rightarrow> None)"

definition taken_by_other :: "(resource \<rightharpoonup> nat) \<Rightarrow> nat \<Rightarrow> resource \<Rightarrow> bool" where
  "taken_by_other h i r = (case h r of None \<Rightarrow> False | Some j \<Rightarrow> j \<noteq> i)"

definition hook_waits :: "env \<Rightarrow> mixed \<Rightarrow> nat \<Rightarrow> bool" where
  "hook_waits E m i \<longleftrightarrow>
     list_ex (taken_by_other (held m) i) (wanted E (cw (tr m)) (hooks m ! i)) \<or>
     (case wanted_wallet E (hooks m ! i) of None \<Rightarrow> False | Some k \<Rightarrow> lock_owner (tr m) k \<noteq> None)"

text \<open>A statement inside the transaction, and the return of \<open>ProcessWebhook\<close>, which releases what is held.\<close>

definition move_hook :: "nat \<Rightarrow> webhook_session \<Rightarrow> resource list \<Rightarrow> world \<Rightarrow> mixed \<Rightarrow> mixed" where
  "move_hook i s rs w m =
     m\<lparr>tr := (tr m)\<lparr>cw := w\<lparr>db := db (cw (tr m)), tx_start := None\<rparr>\<rparr>,
       held := (\<lambda>r. if r \<in> set rs then Some i else held m r), hooks := (hooks m)[i := s]\<rparr>"

definition answer :: "nat \<Rightarrow> mixed \<Rightarrow> (error + unit) \<times> world \<Rightarrow> mixed" where
  "answer i m p =
     (case p of (r, w) \<Rightarrow>
        m\<lparr>tr := (tr m)\<lparr>cw := w\<lparr>tx_start := None\<rparr>\<rparr>, held := release i (held m), hooks := (hooks m)[i := Answered r]\<rparr>)"

definition open_step :: "env \<Rightarrow> nat \<Rightarrow> string \<Rightarrow> string \<Rightarrow> mixed \<Rightarrow> mixed" where
  "open_step E i pv payload m =
     (let w = cw (tr m); w1 = w\<lparr>tick := Suc (tick w)\<rparr> in
      case json_Unmarshal payload of
        None \<Rightarrow> answer i m (Inl (ErrorsNew ''invalid JSON''), w)
      | Some j \<Rightarrow>
          (case decode_WebhookPayload j of
             Inl e \<Rightarrow> answer i m (Inl e, w)
           | Inr ev \<Rightarrow>
               (case stmt_fault E (tick w) of
                  None \<Rightarrow> move_hook i (Opened (pg_now E (tick w)) pv ev payload) [] w1 m
                | Some (NotExecuted msg) \<Rightarrow> answer i m (Inl (DriverError msg), w1)
                | Some (AckLost msg) \<Rightarrow> answer i m (Inl (DriverError msg), w1))))"

definition inside :: "env \<Rightarrow> time \<Rightarrow> webhook_session \<Rightarrow> world \<Rightarrow> world" where
  "inside E t s w = w\<lparr>db := own_view E s (db w), tx_start := Some t\<rparr>"

definition or_rollback :: "env \<Rightarrow> nat \<Rightarrow> mixed \<Rightarrow> (error + 'a) \<times> world \<Rightarrow> ('a \<Rightarrow> world \<Rightarrow> mixed) \<Rightarrow> mixed" where
  "or_rollback E i m p next =
     (case p of (Inl e, w) \<Rightarrow> answer i m (end_tx E (db (cw (tr m))) (Inl e, w)) | (Inr x, w) \<Rightarrow> next x w)"

text \<open>One step of session \<open>i\<close>; there is none when it waits or has returned.\<close>

definition hook_step :: "env \<Rightarrow> nat \<Rightarrow> mixed \<Rightarrow> mixed option" where
  "hook_step E i m =
     (let s = hooks m ! i; w = cw (tr m) in
      if length (hooks m) \<le> i \<or> hook_waits E m i then None
      else case s of
        Received pv payload \<Rightarrow> Some (open_step E i pv payload m)
      | Opened t pv ev payload \<Rightarrow> Some (or_rollback E i m (insert_webhook E pv ev payload (inside E t s w)) (\<lambda>_ w1.
          let we = last (webhook_events (db w1)) in move_hook i (Recorded t pv ev we) (event_locks we) w1 m))
      | Recorded t pv ev we \<Rightarrow> Some (or_rollback E i m (lock_payment E (wh_ReferenceID ev) (inside E t s w)) (\<lambda>(p, acc) w1.
          move_hook i (HoldsPayment t pv ev we p acc) [PaymentRow (p_ID p)] w1 m))
      | HoldsPayment t pv ev we p acc \<Rightarrow> Some (or_rollback E i m (advance_payment E ev p (inside E t s w)) (\<lambda>_ w1.
          move_hook i (Advanced t pv ev we p acc) [] w1 m))
      | Advanced t pv ev we p acc \<Rightarrow>
          Some (answer i m (end_tx E (db w) (settle_webhook E ev p acc (inside E t s w))))
      | Answered r \<Rightarrow> None)"

text \<open>
  Other transactions wait for the rows and keys that the sessions hold. They never remove a wallet or change its account
  (as shown of the system in \<open>record_immutable\<close>).
\<close>

definition keeps_held :: "resource set \<Rightarrow> db \<Rightarrow> db \<Rightarrow> bool" where
  "keeps_held S d d' \<longleftrightarrow>
     (\<forall>ref p. row_with p_ProviderReference ref (payments d) = Some p \<and> PaymentRow (p_ID p) \<in> S \<longrightarrow>
        row_with p_ProviderReference ref (payments d') = Some p) \<and>
     (\<forall>we. set (event_locks we) \<subseteq> S \<and> insert_webhook_events we d = Inr (record_event we d) \<longrightarrow>
        insert_webhook_events we d' = Inr (record_event we d')) \<and>
     (\<forall>k wl. row_with w_ID k (wallets d) = Some wl \<longrightarrow>
        (\<exists>wl'. row_with w_ID k (wallets d') = Some wl' \<and> w_AccountID wl' = w_AccountID wl))"

inductive mixed_step :: "env \<Rightarrow> (world \<Rightarrow> world \<Rightarrow> bool) \<Rightarrow> mixed \<Rightarrow> mixed \<Rightarrow> bool" for E other where
    transfer: "session_step E i (tr m) = Some c \<Longrightarrow> mixed_step E other m (m\<lparr>tr := c\<rparr>)"
  | webhook: "hook_step E i m = Some m' \<Longrightarrow> mixed_step E other m m'"
  | foreign: "other (cw (tr m)) w \<Longrightarrow> respects_locks (tr m) w \<Longrightarrow> keeps_held (dom (held m)) (db (cw (tr m))) (db w) \<Longrightarrow>
      mixed_step E other m (m\<lparr>tr := (tr m)\<lparr>cw := w\<rparr>\<rparr>)"

definition mixed_started :: "(CreateTransferRequest \<times> string) list \<Rightarrow> (string \<times> string) list \<Rightarrow> world \<Rightarrow> mixed" where
  "mixed_started rs hs w =
     \<lparr>tr = started rs w, held = Map.empty, hooks = map (\<lambda>(pv, payload). Received pv payload) hs\<rparr>"

text \<open>A schedule names the transfer or the webhook that moves next.\<close>

datatype mover = MoveTransfer nat | MoveWebhook nat

fun move :: "env \<Rightarrow> mover \<Rightarrow> mixed \<Rightarrow> mixed option" where
  "move E (MoveTransfer i) m = (case session_step E i (tr m) of None \<Rightarrow> None | Some c \<Rightarrow> Some (m\<lparr>tr := c\<rparr>))"
| "move E (MoveWebhook i) m = hook_step E i m"

fun run_moves :: "env \<Rightarrow> mover list \<Rightarrow> mixed \<Rightarrow> mixed option" where
  "run_moves E [] m = Some m"
| "run_moves E (x # xs) m = (case move E x m of None \<Rightarrow> None | Some m' \<Rightarrow> run_moves E xs m')"

lemma move_mixed: "move E x m = Some m' \<Longrightarrow> mixed_step E other m m'"
  by (cases x) (auto split: option.splits intro: mixed_step.transfer mixed_step.webhook)

lemma run_moves_mixed: "run_moves E xs m = Some m' \<Longrightarrow> (mixed_step E other)\<^sup>*\<^sup>* m m'"
proof (induction xs arbitrary: m)
  case (Cons x xs)
  then obtain m1 where "move E x m = Some m1" "run_moves E xs m1 = Some m'" by (auto split: option.splits)
  with Cons.IH [of m1] move_mixed [of E x m m1 other] show ?case by (meson converse_rtranclp_into_rtranclp)
qed simp

section \<open>One webhook alone\<close>

text \<open>The states of a run in which only session \<open>i\<close> moves.\<close>

definition at_session :: "nat \<Rightarrow> mixed \<Rightarrow> world \<Rightarrow> (resource \<rightharpoonup> nat) \<Rightarrow> webhook_session \<Rightarrow> mixed" where
  "at_session i m w h s = m\<lparr>tr := (tr m)\<lparr>cw := w\<rparr>, held := h, hooks := (hooks m)[i := s]\<rparr>"

definition answered :: "nat \<Rightarrow> mixed \<Rightarrow> (error + unit) \<times> world \<Rightarrow> mixed" where
  "answered i m p = at_session i m ((snd p)\<lparr>tx_start := None\<rparr>) Map.empty (Answered (fst p))"

definition only :: "nat \<Rightarrow> (resource \<rightharpoonup> nat) \<Rightarrow> bool" where
  "only i h \<longleftrightarrow> (\<forall>r j. h r = Some j \<longrightarrow> j = i)"

lemma only_simps [simp]: "only i Map.empty" "only i h \<Longrightarrow> only i (\<lambda>r. if r \<in> R then Some i else h r)"
  "only i h \<Longrightarrow> only i (\<lambda>r. if r = q then Some i else h r)"
  by (auto simp: only_def)

lemma answer_at: "only i h \<Longrightarrow> answer i (at_session i m w h s) p = answered i m p"
  using release_own [of h i] by (auto simp: only_def answer_def answered_def at_session_def split: prod.splits)

lemma at_fields: "cw (tr (at_session i m w h s)) = w" "held (at_session i m w h s) = h"
  by (simp_all add: at_session_def)

lemma move_at: "move_hook i s' rs w' (at_session i m w h s) =
    at_session i m (w'\<lparr>db := db w, tx_start := None\<rparr>) (\<lambda>r. if r \<in> set rs then Some i else h r) s'"
  unfolding move_hook_def [of i s' rs w' "at_session i m w h s"] at_fields by (simp add: at_session_def)

lemma at_simps [simp]: "cw (tr (at_session i m w h s)) = w" "held (at_session i m w h s) = h"
  "tr (at_session i m w h s) = (tr m)\<lparr>cw := w\<rparr>" "lock_owner (tr (at_session i m w h s)) = lock_owner (tr m)" "length (hooks (at_session i m w h s)) = length (hooks m)"
  "i < length (hooks m) \<Longrightarrow> hooks (at_session i m w h s) ! i = s"
  by (simp_all add: at_session_def)

lemma not_taken: "only i h \<Longrightarrow> \<not> list_ex (taken_by_other h i) rs"
  by (auto simp: only_def list_ex_iff taken_by_other_def split: option.splits)

lemma free_to_move: "only i (held m) \<Longrightarrow> lock_owner (tr m) = Map.empty \<Longrightarrow> \<not> hook_waits E m i"
  by (auto simp: hook_waits_def not_taken split: option.splits)

lemma run_moves_step: "hook_step E i m = Some m' \<Longrightarrow> run_moves E (replicate n (MoveWebhook i)) m' = r \<Longrightarrow>
    run_moves E (replicate (Suc n) (MoveWebhook i)) m = r"
  by simp

text \<open>The session reaches the end of the transaction whose remaining statements are \<open>body\<close>.\<close>

definition finishes :: "env \<Rightarrow> nat \<Rightarrow> nat \<Rightarrow> mixed \<Rightarrow> mixed \<Rightarrow> unit M \<Rightarrow> world \<Rightarrow> bool" where
  "finishes E i n m0 m body w \<longleftrightarrow>
     (\<exists>k \<le> n. run_moves E (replicate k (MoveWebhook i)) m = Some (answered i m0 (end_tx E (db (cw (tr m))) (body w))))"

lemma finishes_step:
  assumes step: "hook_step E i (at_session i m0 w h s) = Some (or_rollback E i (at_session i m0 w h s) (st (inside E t s w)) next)"
    and h: "only i h"
    and rest: "\<And>x w1. st (inside E t s w) = (Inr x, w1) \<Longrightarrow>
      finishes E i n m0 (next x w1) (follow x) w1 \<and> db (cw (tr (next x w1))) = db w"
  shows "finishes E i (Suc n) m0 (at_session i m0 w h s) (mbind st follow) (inside E t s w)"
proof -
  obtain r w1 where run: "st (inside E t s w) = (r, w1)" by (meson surj_pair)
  show ?thesis
  proof (cases r)
    case (Inl e)
    with step run h show ?thesis
      unfolding finishes_def by (intro exI [of _ "Suc 0"]) (simp add: or_rollback_def answer_at mbind_def)
  next
    case (Inr x)
    from rest [OF run [unfolded Inr]] obtain k where "k \<le> n" "db (cw (tr (next x w1))) = db w"
      "run_moves E (replicate k (MoveWebhook i)) (next x w1) = Some (answered i m0 (end_tx E (db w) (follow x w1)))"
      by (auto simp: finishes_def)
    with step run Inr show ?thesis
      unfolding finishes_def by (intro exI [of _ "Suc k"]) (simp add: or_rollback_def mbind_def)
  qed
qed

lemma inside_again:
  "own_view E s (db w) = db w1 \<Longrightarrow> tx_start w1 = Some t \<Longrightarrow> inside E t s (w1\<lparr>db := db w, tx_start := None\<rparr>) = w1"
  by (cases w1) (simp add: inside_def)

text \<open>What a statement has written is the view of the state that follows.\<close>

lemma sql_insert_webhook_row:
  assumes "sql_insert_webhook E pv ev payload u t d = Inr (x, d')"
  shows "\<exists>we. d' = record_event we d \<and> insert_webhook_events we d = Inr d' \<and>
    varchar_in E 50 pv = Some (we_Provider we) \<and> varchar_in E 255 (wh_EventID ev) = Some (we_EventID we)"
proof -
  from assms obtain we where "insert_webhook_events we d = Inr d'"
    "varchar_in E 50 pv = Some (we_Provider we)" "varchar_in E 255 (wh_EventID ev) = Some (we_EventID we)"
    by (fastforce simp: sql_insert_webhook_def run_simps)
  then show ?thesis by (intro exI [of _ we]) (simp add: row_simps record_event_def)
qed

lemma insert_webhook_row:
  assumes "insert_webhook E pv ev payload w = (Inr x, w1)"
  shows "\<exists>we. last (webhook_events (db w1)) = we \<and> db w1 = record_event we (db w) \<and>
    insert_webhook_events we (db w) = Inr (record_event we (db w)) \<and> w1 = w\<lparr>db := db w1, tick := Suc (tick w)\<rparr> \<and> tx_start w1 = tx_start w \<and>
    varchar_in E 50 pv = Some (we_Provider we) \<and> varchar_in E 255 (wh_EventID ev) = Some (we_EventID we) \<and>
    sql_insert_webhook E pv ev payload (gen_random_uuid E (tick w)) (NOW E w) (db w) = Inr ((), db w1)"
proof -
  from assms have st: "sql_insert_webhook E pv ev payload (gen_random_uuid E (tick w)) (NOW E w) (db w) = Inr ((), db w1)"
    and w1: "w1 = w\<lparr>db := db w1, tick := Suc (tick w)\<rparr>"
    and tx: "tx_start w1 = tx_start w"
    by (auto simp: insert_webhook_def mwrap_def run_simps split: prod.splits sum.splits)
  from sql_insert_webhook_row [OF st] obtain we where "db w1 = record_event we (db w)"
    "insert_webhook_events we (db w) = Inr (record_event we (db w))"
    "varchar_in E 50 pv = Some (we_Provider we)" "varchar_in E 255 (wh_EventID ev) = Some (we_EventID we)" by auto
  with st w1 tx show ?thesis by (intro exI [of _ we]) (simp add: record_event_def)
qed

lemma advance_payment_row:
  assumes "advance_payment E ev p w = (Inr x, w1)" and "NOW E w = t"
  shows "sql_update_payment E (wh_Status ev) (p_ID p) u t (db w) = Inr ((), db w1) \<and>
    w1 = w\<lparr>db := db w1, tick := Suc (tick w), metrics := metrics w1\<rparr> \<and> tx_start w1 = tx_start w"
  using advance_payment_Inr [OF assms(1)] assms(2)
  by (elim conjE exE) (simp add: sql_update_payment_def run_simps)

lemma inside_simps [simp]: "NOW E (inside E t s w) = t" "db (inside E t s w) = own_view E s (db w)"
  "tick (inside E t s w) = tick w" "tx_start (inside E t s w) = Some t"
  by (simp_all add: inside_def NOW_def)

text \<open>The chain of statements, from the last to the first.\<close>

lemma at_ready:
  assumes "i < length (hooks m)" and "lock_owner (tr m) = Map.empty" and "only i h"
  shows "\<not> hook_waits E (at_session i m w h s) i" "\<not> length (hooks (at_session i m w h s)) \<le> i"
  using assms free_to_move [of i "at_session i m w h s" E] by simp_all

lemma alone_advanced:
  assumes "i < length (hooks m)" and "lock_owner (tr m) = Map.empty" and "only i h" and "s = Advanced t pv ev we p acc"
  shows "finishes E i 1 m (at_session i m w h s) (settle_webhook E ev p acc) (inside E t s w)"
proof -
  have "hook_step E i (at_session i m w h s) = Some (answered i m (end_tx E (db w) (settle_webhook E ev p acc (inside E t s w))))"
    using at_ready [OF assms(1-3)] assms by (simp add: hook_step_def answer_at)
  then show ?thesis unfolding finishes_def by (intro exI [of _ "Suc 0"]) simp
qed

lemma alone_holds:
  assumes "i < length (hooks m)" and "lock_owner (tr m) = Map.empty" and "only i h" and "s = HoldsPayment t pv ev we p acc"
  shows "finishes E i (Suc 1) m (at_session i m w h s)
     (mbind (advance_payment E ev p) (\<lambda>_. settle_webhook E ev p acc)) (inside E t s w)"
proof (rule finishes_step)
  let ?next = "\<lambda>x w1. move_hook i (Advanced t pv ev we p acc) [] w1 (at_session i m w h s)"
  show "hook_step E i (at_session i m w h s) =
      Some (or_rollback E i (at_session i m w h s) (advance_payment E ev p (inside E t s w)) ?next)"
    using at_ready [OF assms(1-3)] assms by (simp add: hook_step_def Let_def)
  fix x w1
  assume run: "advance_payment E ev p (inside E t s w) = (Inr x, w1)"
  let ?s' = "Advanced t pv ev we p acc"
  from advance_payment_row [OF run, of t "''''"] assms(4) have row: "own_view E ?s' (db w) = db w1" "tx_start w1 = Some t"
    by (simp_all add: own_view_def)
  show "finishes E i 1 m (?next x w1) (settle_webhook E ev p acc) w1 \<and> db (cw (tr (?next x w1))) = db w"
    using alone_advanced [OF assms(1,2) _ refl, of _ E "w1\<lparr>db := db w, tx_start := None\<rparr>" t pv ev we p acc] inside_again [OF row] assms(3)
    by (simp add: move_at)
qed (rule assms)

lemma alone_recorded:
  assumes "i < length (hooks m)" and "lock_owner (tr m) = Map.empty" and "only i h" and "s = Recorded t pv ev we"
  shows "finishes E i (Suc (Suc 1)) m (at_session i m w h s)
     (mbind (lock_payment E (wh_ReferenceID ev)) (\<lambda>(p, acc). mbind (advance_payment E ev p) (\<lambda>_. settle_webhook E ev p acc))) (inside E t s w)"
proof (rule finishes_step)
  let ?next = "\<lambda>(p, acc) w1. move_hook i (HoldsPayment t pv ev we p acc) [PaymentRow (p_ID p)] w1 (at_session i m w h s)"
  show "hook_step E i (at_session i m w h s) =
      Some (or_rollback E i (at_session i m w h s) (lock_payment E (wh_ReferenceID ev) (inside E t s w)) ?next)"
    using at_ready [OF assms(1-3)] assms by (simp add: hook_step_def Let_def)
  fix x w1
  assume run: "lock_payment E (wh_ReferenceID ev) (inside E t s w) = (Inr x, w1)"
  obtain p acc where x: "x = (p, acc)" by (cases x)
  let ?s' = "HoldsPayment t pv ev we p acc"
  from lock_payment_Inr [OF run] assms(4) have row: "own_view E ?s' (db w) = db w1" "tx_start w1 = Some t"
    by (auto simp: own_view_def)
  show "finishes E i (Suc 1) m (?next x w1) ((\<lambda>(p, acc). mbind (advance_payment E ev p) (\<lambda>_. settle_webhook E ev p acc)) x) w1 \<and>
      db (cw (tr (?next x w1))) = db w"
    using alone_holds [OF assms(1,2) _ refl, of _ E "w1\<lparr>db := db w, tx_start := None\<rparr>" t pv ev we p acc] inside_again [OF row] assms(3)
    by (simp add: move_at x)
qed (rule assms)

lemma alone_opened:
  assumes "i < length (hooks m)" and "lock_owner (tr m) = Map.empty" and "only i h" and "s = Opened t pv ev payload"
  shows "finishes E i (Suc (Suc (Suc 1))) m (at_session i m w h s) (webhook_body E pv ev payload) (inside E t s w)"
  unfolding webhook_body_def
proof (rule finishes_step)
  let ?next = "\<lambda>(x :: unit) w1. let we = last (webhook_events (db w1)) in
      move_hook i (Recorded t pv ev we) (event_locks we) w1 (at_session i m w h s)"
  show "hook_step E i (at_session i m w h s) =
      Some (or_rollback E i (at_session i m w h s) (insert_webhook E pv ev payload (inside E t s w)) ?next)"
    using at_ready [OF assms(1-3)] assms by (simp add: hook_step_def Let_def)
  fix x w1
  assume run: "insert_webhook E pv ev payload (inside E t s w) = (Inr x, w1)"
  let ?s' = "Recorded t pv ev (last (webhook_events (db w1)))"
  from insert_webhook_row [OF run] assms(4) have row: "own_view E ?s' (db w) = db w1" "tx_start w1 = Some t"
    by (simp_all add: own_view_def)
  show "finishes E i (Suc (Suc 1)) m (?next x w1) (mbind (lock_payment E (wh_ReferenceID ev))
        (\<lambda>(p, acc). mbind (advance_payment E ev p) (\<lambda>_. settle_webhook E ev p acc))) w1 \<and> db (cw (tr (?next x w1))) = db w"
    using alone_recorded [OF assms(1,2) _ refl, of _ E "w1\<lparr>db := db w, tx_start := None\<rparr>" t pv ev "last (webhook_events (db w1))"]
      inside_again [OF row] assms(3)
    by (simp add: move_at Let_def)
qed (rule assms)

text \<open>
  The webhook sessions are the code. A webhook that is not interrupted, with no lock taken by others, returns after
  at most five steps with exactly the result and the state of \<open>ProcessWebhook\<close>.
\<close>

lemma webhook_alone:
  assumes "i < length (hooks m)" and "hooks m ! i = Received pv payload" and "held m = Map.empty"
    and "lock_owner (tr m) = Map.empty" and "tx_start (cw (tr m)) = None"
  shows "\<exists>n \<le> 5. run_moves E (replicate n (MoveWebhook i)) m =
     Some (m\<lparr>tr := (tr m)\<lparr>cw := snd (ProcessWebhook E pv payload (cw (tr m)))\<rparr>,
             hooks := (hooks m)[i := Answered (fst (ProcessWebhook E pv payload (cw (tr m))))]\<rparr>)"
proof -
  let ?w = "cw (tr m)" and ?p = "ProcessWebhook E pv payload (cw (tr m))"
  have m: "m = at_session i m ?w Map.empty (Received pv payload)"
    using assms(2,3) list_update_id [of "hooks m" i] by (cases m) (simp add: at_session_def)
  have target: "answered i m q = m\<lparr>tr := (tr m)\<lparr>cw := snd q\<rparr>, hooks := (hooks m)[i := Answered (fst q)]\<rparr>" if "tx_start (snd q) = None" for q
    using that assms(3) by (cases q) (simp add: answered_def at_session_def)
  have step: "hook_step E i m = Some (open_step E i pv payload m)"
    using assms free_to_move [of i m E] by (simp add: hook_step_def Let_def)
  have fin: "answer i m q = answered i m q" for q
    using answer_at [of i Map.empty m ?w "Received pv payload"] m by simp
  show ?thesis
  proof (cases "\<exists>j ev. json_Unmarshal payload = Some j \<and> decode_WebhookPayload j = Inr ev \<and> stmt_fault E (tick ?w) = None")
    case True
    then obtain j ev where je: "json_Unmarshal payload = Some j" "decode_WebhookPayload j = Inr ev" "stmt_fault E (tick ?w) = None" by blast
    let ?t = "pg_now E (tick ?w)" and ?w1 = "?w\<lparr>tick := Suc (tick ?w), tx_start := None\<rparr>"
    let ?s = "Opened ?t pv ev payload"
    have "open_step E i pv payload m = at_session i m ?w1 Map.empty ?s"
      using je assms(5) move_at [of i ?s "[]" "?w\<lparr>tick := Suc (tick ?w)\<rparr>" m ?w Map.empty "Received pv payload", folded m] by (simp add: open_step_def Let_def)
    moreover from alone_opened [OF assms(1,4) only_simps(1) refl, of E ?w1 ?t pv ev payload]
    obtain k where "k \<le> Suc (Suc (Suc 1))" "run_moves E (replicate k (MoveWebhook i)) (at_session i m ?w1 Map.empty ?s) =
        Some (answered i m (end_tx E (db ?w) (webhook_body E pv ev payload (inside E ?t ?s ?w1))))"
      by (auto simp: finishes_def simp del: One_nat_def)
    moreover have "?p = end_tx E (db ?w) (webhook_body E pv ev payload (inside E ?t ?s ?w1))"
      using je by (simp add: ProcessWebhook_def withTx_end_tx tx_begin_def inside_def own_view_def)
    moreover have "tx_start (snd (end_tx E d (q :: (error + unit) \<times> world))) = None" for d q
      by (auto simp: end_tx_def split: prod.splits sum.splits commit_outcome.splits)
    ultimately show ?thesis using step run_moves_step [of E i m _ k] target by (intro exI [of _ "Suc k"]) simp
  next
    case False
    then have "open_step E i pv payload m = answered i m ?p" "tx_start (snd ?p) = None"
      using assms(5) by (auto simp: open_step_def Let_def fin ProcessWebhook_def withTx_end_tx mfail_def
          split: option.splits sum.splits stmt_failure.splits)
    with step target show ?thesis by (intro exI [of _ "Suc 0"]) simp
  qed
qed

lemma webhook_alone_witness:
  "\<exists>n m. run_moves demo_env (replicate n (MoveWebhook 0)) (mixed_started [] [(''simulator'', succeeded_body)] demo_funded) = Some m \<and>
     cw (tr m) = snd demo_webhook"
proof -
  let ?m = "mixed_started [] [(''simulator'', succeeded_body)] demo_funded"
  have "tx_start (cw (tr ?m)) = None" "cw (tr ?m) = demo_funded"
    by (simp_all add: mixed_started_def started_def demo_funded_def demo_world_def)
  with webhook_alone [of 0 ?m "''simulator''" succeeded_body demo_env]
  obtain n where "run_moves demo_env (replicate n (MoveWebhook 0)) ?m =
     Some (?m\<lparr>tr := (tr ?m)\<lparr>cw := snd demo_webhook\<rparr>, hooks := (hooks ?m)[0 := Answered (fst demo_webhook)]\<rparr>)" (is "_ = Some ?m'")
    by (auto simp: mixed_started_def started_def demo_webhook_def)
  then show ?thesis by (intro exI [of _ n] exI [of _ ?m']) simp
qed

section \<open>What a session has read stays true\<close>

definition parsed :: "string \<Rightarrow> WebhookPayload option" where
  "parsed payload =
     (case json_Unmarshal payload of
        None \<Rightarrow> None
      | Some j \<Rightarrow> (case decode_WebhookPayload j of Inl e \<Rightarrow> None | Inr ev \<Rightarrow> Some ev))"

definition hook_event :: "webhook_session \<Rightarrow> (string \<times> WebhookPayload) option" where
  "hook_event s =
     (case s of
        Received pv payload \<Rightarrow> map_option (Pair pv) (parsed payload)
      | Opened t pv ev payload \<Rightarrow> Some (pv, ev)
      | Recorded t pv ev we \<Rightarrow> Some (pv, ev)
      | HoldsPayment t pv ev we p acc \<Rightarrow> Some (pv, ev)
      | Advanced t pv ev we p acc \<Rightarrow> Some (pv, ev)
      | Answered r \<Rightarrow> None)"

definition holding :: "webhook_session \<Rightarrow> resource list" where
  "holding s =
     (case s of
        Recorded t pv ev we \<Rightarrow> event_locks we
      | HoldsPayment t pv ev we p acc \<Rightarrow> PaymentRow (p_ID p) # event_locks we
      | Advanced t pv ev we p acc \<Rightarrow> PaymentRow (p_ID p) # event_locks we
      | _ \<Rightarrow> [])"

text \<open>The recorded event can be committed at any time, and the locked payment is the one that was read.\<close>

definition event_ok :: "env \<Rightarrow> db \<Rightarrow> (resource \<rightharpoonup> nat) \<Rightarrow> nat \<Rightarrow> string \<Rightarrow> WebhookPayload \<Rightarrow> WebhookRow \<Rightarrow> bool" where
  "event_ok E d h i pv ev we \<longleftrightarrow>
     varchar_in E 50 pv = Some (we_Provider we) \<and> varchar_in E 255 (wh_EventID ev) = Some (we_EventID we) \<and>
     insert_webhook_events we d = Inr (record_event we d) \<and> (\<forall>r \<in> set (event_locks we). h r = Some i)"

definition payment_ok :: "db \<Rightarrow> (resource \<rightharpoonup> nat) \<Rightarrow> nat \<Rightarrow> WebhookPayload \<Rightarrow> Payment \<Rightarrow> string \<Rightarrow> bool" where
  "payment_ok d h i ev p0 acc \<longleftrightarrow>
     (\<exists>p wl. row_with p_ProviderReference (wh_ReferenceID ev) (payments d) = Some p \<and>
        row_with w_ID (p_WalletID p) (wallets d) = Some wl \<and> p0 = scan_payment p \<and> acc = w_AccountID wl \<and>
        h (PaymentRow (p_ID p)) = Some i)"

definition hook_ok :: "env \<Rightarrow> db \<Rightarrow> (resource \<rightharpoonup> nat) \<Rightarrow> nat \<Rightarrow> webhook_session \<Rightarrow> bool" where
  "hook_ok E d h i s \<longleftrightarrow>
     (case s of
        Recorded t pv ev we \<Rightarrow> event_ok E d h i pv ev we
      | HoldsPayment t pv ev we p acc \<Rightarrow> event_ok E d h i pv ev we \<and> payment_ok d h i ev p acc
      | Advanced t pv ev we p acc \<Rightarrow>
          event_ok E d h i pv ev we \<and> payment_ok d h i ev p acc \<and> isValidTransition (p_Status p) (wh_Status ev) \<and>
          (\<exists>st k. varchar_in E 50 (wh_Status ev) = Some st \<and> uuid_in E (p_ID p) = Some k)
      | _ \<Rightarrow> True)"

definition hook_inv :: "env \<Rightarrow> mixed \<Rightarrow> bool" where
  "hook_inv E m \<longleftrightarrow>
     (\<forall>i < length (hooks m). hook_ok E (db (cw (tr m))) (held m) i (hooks m ! i)) \<and>
     (\<forall>r j. held m r = Some j \<longrightarrow> j < length (hooks m) \<and> r \<in> set (holding (hooks m ! j)))"

lemma hook_inv_session: "hook_inv E m \<Longrightarrow> i < length (hooks m) \<Longrightarrow> hook_ok E (db (cw (tr m))) (held m) i (hooks m ! i)"
  by (simp add: hook_inv_def)

lemma hook_inv_holder: "hook_inv E m \<Longrightarrow> held m r = Some j \<Longrightarrow> j < length (hooks m) \<and> r \<in> set (holding (hooks m ! j))"
  by (simp add: hook_inv_def)

lemma hook_inv_started: "hook_inv E (mixed_started rs hs w)"
  by (auto simp: hook_inv_def mixed_started_def hook_ok_def split: prod.splits)

lemma keeps_held_refl [simp]: "keeps_held S d d"
  by (auto simp: keeps_held_def)

lemma keeps_held_mono: "keeps_held S d d' \<Longrightarrow> T \<subseteq> S \<Longrightarrow> keeps_held T d d'"
  unfolding keeps_held_def by blast

text \<open>A session depends on what it holds only.\<close>

lemma event_ok_frame:
  assumes "event_ok E d h i pv ev we" and "keeps_held {r. h r = Some i} d d'" and "\<And>r. h r = Some i \<Longrightarrow> h' r = Some i"
  shows "event_ok E d' h' i pv ev we"
  using assms unfolding event_ok_def keeps_held_def by blast

lemma payment_ok_frame:
  assumes "payment_ok d h i ev p acc" and "keeps_held {r. h r = Some i} d d'" and "\<And>r. h r = Some i \<Longrightarrow> h' r = Some i"
  shows "payment_ok d' h' i ev p acc"
proof -
  from assms(1) obtain q wl where q: "row_with p_ProviderReference (wh_ReferenceID ev) (payments d) = Some q"
    "row_with w_ID (p_WalletID q) (wallets d) = Some wl" "p = scan_payment q" "acc = w_AccountID wl" "h (PaymentRow (p_ID q)) = Some i"
    by (auto simp: payment_ok_def)
  with assms(2) have "row_with p_ProviderReference (wh_ReferenceID ev) (payments d') = Some q" by (simp add: keeps_held_def)
  moreover from q(2) assms(2) obtain wl' where "row_with w_ID (p_WalletID q) (wallets d') = Some wl'" "w_AccountID wl' = w_AccountID wl"
    unfolding keeps_held_def by blast
  ultimately show ?thesis using q assms(3) unfolding payment_ok_def by metis
qed

lemma hook_ok_frame:
  assumes "hook_ok E d h i s" and "keeps_held {r. h r = Some i} d d'" and "\<And>r. h r = Some i \<Longrightarrow> h' r = Some i"
  shows "hook_ok E d' h' i s"
  using assms(1) event_ok_frame [OF _ assms(2,3)] payment_ok_frame [OF _ assms(2,3)]
  by (cases s) (auto simp: hook_ok_def)

lemma hook_inv_move:
  assumes inv: "hook_inv E m" and i: "i < length (hooks m)" and free: "\<forall>r \<in> set rs. \<not> taken_by_other (held m) i r"
    and s: "hook_ok E (db (cw (tr m))) (\<lambda>r. if r \<in> set rs then Some i else held m r) i s"
    and hold: "set rs \<subseteq> set (holding s)" "set (holding (hooks m ! i)) \<subseteq> set (holding s)"
  shows "hook_inv E (move_hook i s rs w m)"
proof -
  let ?h = "\<lambda>r. if r \<in> set rs then Some i else held m r"
  have "hook_ok E (db (cw (tr m))) ?h j ((hooks m)[i := s] ! j)" if "j < length (hooks m)" for j
  proof (cases "j = i")
    case True
    with i s show ?thesis by simp
  next
    case False
    have "hook_ok E (db (cw (tr m))) ?h j (hooks m ! j)"
    proof (rule hook_ok_frame [OF hook_inv_session [OF inv that] keeps_held_refl])
      fix r
      assume "held m r = Some j"
      with free False show "?h r = Some j" by (auto simp: taken_by_other_def)
    qed
    with False show ?thesis by simp
  qed
  moreover have "j < length (hooks m) \<and> r \<in> set (holding ((hooks m)[i := s] ! j))" if "?h r = Some j" for r j
  proof (cases "r \<in> set rs")
    case True
    with that i hold(1) show ?thesis by auto
  next
    case False
    with that have "held m r = Some j" by simp
    from hook_inv_holder [OF inv this] hold(2) show ?thesis by (cases "j = i") auto
  qed
  ultimately show ?thesis by (simp add: hook_inv_def move_hook_def)
qed

lemma hook_inv_answer:
  assumes inv: "hook_inv E m" and i: "i < length (hooks m)"
    and keep: "\<And>j. j \<noteq> i \<Longrightarrow> keeps_held {r. held m r = Some j} (db (cw (tr m))) (db w)"
  shows "hook_inv E (answer i m (r, w))"
proof -
  have "hook_ok E (db w) (release i (held m)) j ((hooks m)[i := Answered r] ! j)" if "j < length (hooks m)" for j
  proof (cases "j = i")
    case True
    with i show ?thesis by (simp add: hook_ok_def)
  next
    case False
    with hook_ok_frame [OF hook_inv_session [OF inv that] keep, of "release i (held m)"] show ?thesis by simp
  qed
  with inv show ?thesis by (auto simp: hook_inv_def answer_def)
qed

section \<open>What a step does\<close>

lemma row_with_update_other:
  assumes "\<And>r. key (f r) = key r"
  shows "row_with key x (update_where k y f rows) = map_option (\<lambda>r. if k r = y then f r else r) (row_with key x rows)"
  using assms by (induction rows) auto

text \<open>A committed transfer and a committed webhook leave alone what others hold.\<close>

lemma transfer_keeps_held:
  assumes "transfer_applied E req key s r d d'"
  shows "keeps_held S d d'"
proof -
  have "\<exists>wl'. row_with w_ID k (move_funds s r a ws) = Some wl' \<and> w_AccountID wl' = w_AccountID wl"
    if "row_with w_ID k ws = Some wl" for k ws wl a
    using that by (auto simp: move_funds_def row_with_update_where)
  with assms show ?thesis
    by (auto simp: transfer_applied_def keeps_held_def insert_webhook_events_iff record_event_def)
qed

lemma webhook_keeps_held:
  assumes app: "webhook_applied E pv ev p wl d d'" and we: "webhook_events d' = webhook_events d @ [we]"
    and laws: "varchar_exact E" "payment_ids_canonical E d"
    and S: "PaymentRow (p_ID p) \<notin> S" "set (event_locks we) \<inter> S = {}"
  shows "keeps_held S d d'"
proof -
  from webhook_applied_resolved(3) [OF app laws] obtain t where
    pay: "payments d' = update_where p_ID (p_ID p) (\<lambda>x. x\<lparr>p_Status := wh_Status ev, p_UpdatedAt := t\<rparr>) (payments d)" ..
  have rows: "row_with p_ProviderReference ref (payments d') = Some q"
    if "row_with p_ProviderReference ref (payments d) = Some q" "PaymentRow (p_ID q) \<in> S" for ref q
    using that S(1) by (auto simp: pay row_with_update_other)
  have ins: "insert_webhook_events we' d' = Inr (record_event we' d')"
    if "set (event_locks we') \<subseteq> S" "insert_webhook_events we' d = Inr (record_event we' d)" for we'
    using that S(2) by (auto simp: insert_webhook_events_iff record_event_def we event_locks_def)
  have "\<exists>x. row_with w_ID k (wallets d1) = Some x \<and> w_AccountID x = w_AccountID y"
    if "payment_credited E p wl d d1" "row_with w_ID k (wallets d) = Some y" for d1 k y
    using that by (auto simp: payment_credited_def row_with_update_where)
  then have "\<exists>x. row_with w_ID k (wallets d') = Some x \<and> w_AccountID x = w_AccountID y"
    if "row_with w_ID k (wallets d) = Some y" for k y
    using webhook_applied_books [OF app] that by (auto simp: same_books_def split: if_splits)
  with rows ins show ?thesis unfolding keeps_held_def by blast
qed

text \<open>
  The last step: from the view of the session to the committed database.
\<close>

lemma settle_ok:
  assumes ok: "hook_ok E d h i (Advanced t pv ev we p0 acc)" and can: "payment_ids_canonical E d"
    and run: "end_tx E d (settle_webhook E ev p0 acc w) = (r, w')"
    and view: "db w = own_view E (Advanced t pv ev we p0 acc) d"
  shows "db w' = d \<and> isl r \<or>
    (\<exists>p wl. webhook_applied E pv ev p wl d (db w') \<and> webhook_events (db w') = webhook_events d @ [we] \<and>
       p0 = scan_payment p \<and> w_ID wl = p_WalletID p \<and> h (PaymentRow (p_ID p)) = Some i)"
proof -
  from ok obtain p wl st k where p: "row_with p_ProviderReference (wh_ReferenceID ev) (payments d) = Some p"
    "row_with w_ID (p_WalletID p) (wallets d) = Some wl" "p0 = scan_payment p" "acc = w_AccountID wl" "h (PaymentRow (p_ID p)) = Some i"
    and val: "isValidTransition (p_Status p) (wh_Status ev)"
    and stk: "varchar_in E 50 (wh_Status ev) = Some st" "uuid_in E (p_ID p) = Some k"
    and we: "varchar_in E 50 pv = Some (we_Provider we)" "varchar_in E 255 (wh_EventID ev) = Some (we_EventID we)"
      "insert_webhook_events we d = Inr (record_event we d)"
    by (auto simp: hook_ok_def event_ok_def payment_ok_def)
  from p(1) can have wid: "uuid_in E (p_WalletID p) = Some (p_WalletID p)" by (auto simp: payment_ids_canonical_def dest: row_with_SomeD)
  have view': "db w = webhook_view we k st t d"
    using view stk by (simp add: own_view_def sql_update_payment_def varchar_def uuid_param_def rbind_def webhook_view_def record_event_def p(3))
  have we': "(we_Provider we, we_EventID we) \<notin> (\<lambda>x. (we_Provider x, we_EventID x)) ` set (webhook_events d)"
    using we(3) by (simp add: insert_webhook_events_iff)
  obtain q w1 where body: "settle_webhook E ev p0 acc w = (q, w1)" by (meson surj_pair)
  with run have "db w' = d \<and> isl r \<or> (\<exists>x. q = Inr x \<and> db w' = db w1)"
    by (cases q) (auto simp: end_tx_def split: commit_outcome.splits)
  moreover have "webhook_applied E pv ev p wl d (db w1) \<and> webhook_events (db w1) = webhook_events d @ [we]" if "q = Inr x" for x
    by (rule settle_webhook_Inr [OF body [unfolded that p(3,4)] p(1,2) wid view' val stk we(1,2) we'])
  moreover from p(2) have "w_ID wl = p_WalletID p" by (blast dest: row_with_SomeD)
  ultimately show ?thesis using p(3,5) by metis
qed

definition hook_effect :: "env \<Rightarrow> nat \<Rightarrow> mixed \<Rightarrow> mixed \<Rightarrow> bool" where
  "hook_effect E i m m' \<longleftrightarrow>
     sessions (tr m') = sessions (tr m) \<and> lock_owner (tr m') = lock_owner (tr m) \<and>
     (\<exists>s'. hooks m' = (hooks m)[i := s'] \<and>
        (db (cw (tr m')) = db (cw (tr m)) \<and>
           (hook_event s' \<noteq> None \<and> hook_event s' = hook_event (hooks m ! i) \<or> (\<exists>e. s' = Answered (Inl e))) \<or>
         (\<exists>r pv ev p wl. s' = Answered r \<and> hook_event (hooks m ! i) = Some (pv, ev) \<and>
            webhook_applied E pv ev p wl (db (cw (tr m))) (db (cw (tr m'))) \<and>
            (wh_Status ev = StatusSucceeded \<longrightarrow> lock_owner (tr m) (w_ID wl) = None))))"

lemma refused_ok:
  assumes "hook_inv E m" and "i < length (hooks m)" and "db w = db (cw (tr m))"
  shows "hook_inv E (answer i m (Inl e, w)) \<and> hook_effect E i m (answer i m (Inl e, w))"
  using hook_inv_answer [OF assms(1,2), of w "Inl e"] assms(3)
  by (auto simp: hook_effect_def answer_def)

lemma moved_ok:
  assumes "hook_inv E m" and "i < length (hooks m)" and "\<forall>r \<in> set rs. \<not> taken_by_other (held m) i r"
    and "hook_ok E (db (cw (tr m))) (\<lambda>r. if r \<in> set rs then Some i else held m r) i s"
    and "set rs \<subseteq> set (holding s)" "set (holding (hooks m ! i)) \<subseteq> set (holding s)"
    and "hook_event s \<noteq> None" "hook_event s = hook_event (hooks m ! i)"
  shows "hook_inv E (move_hook i s rs w m) \<and> hook_effect E i m (move_hook i s rs w m)"
  using hook_inv_move [OF assms(1-6), of w] assms(7,8)
  by (simp add: hook_effect_def) (auto simp: move_hook_def)

lemma or_rollback_ok:
  assumes "hook_inv E m" and "i < length (hooks m)"
    and "\<And>x w1. p = (Inr x, w1) \<Longrightarrow> hook_inv E (next x w1) \<and> hook_effect E i m (next x w1)"
  shows "hook_inv E (or_rollback E i m p next) \<and> hook_effect E i m (or_rollback E i m p next)"
proof -
  obtain r w where p: "p = (r, w)" by (cases p)
  show ?thesis
  proof (cases r)
    case (Inl e)
    have "end_tx E (db (cw (tr m))) (Inl e :: error + unit, w) = (Inl e, w\<lparr>db := db (cw (tr m)), tx_start := None\<rparr>)"
      by (simp add: end_tx_def)
    with refused_ok [OF assms(1,2), of "w\<lparr>db := db (cw (tr m)), tx_start := None\<rparr>" e] show ?thesis
      by (simp add: or_rollback_def p Inl)
  next
    case (Inr x)
    with assms(3) p show ?thesis by (simp add: or_rollback_def)
  qed
qed

lemma open_step_ok:
  assumes inv: "hook_inv E m" and i: "i < length (hooks m)" and s: "hooks m ! i = Received pv payload"
  shows "hook_inv E (open_step E i pv payload m) \<and> hook_effect E i m (open_step E i pv payload m)"
proof -
  have go: "hook_inv E (move_hook i (Opened t pv ev payload) [] w m) \<and> hook_effect E i m (move_hook i (Opened t pv ev payload) [] w m)"
    if "parsed payload = Some ev" for t ev w
    by (rule moved_ok [OF inv i]) (use s that in \<open>auto simp: hook_ok_def holding_def hook_event_def\<close>)
  show ?thesis
    using go refused_ok [OF inv i] unfolding open_step_def Let_def
    by (auto simp: parsed_def split: option.splits sum.splits stmt_failure.splits)
qed

lemma not_waiting:
  assumes "\<not> hook_waits E m i"
  shows "r \<in> set (wanted E (cw (tr m)) (hooks m ! i)) \<Longrightarrow> \<not> taken_by_other (held m) i r"
    and "wanted_wallet E (hooks m ! i) = Some k \<Longrightarrow> lock_owner (tr m) k = None"
  using assms by (auto simp: hook_waits_def list_ex_iff split: option.splits)

lemma hook_step_ok:
  assumes inv: "hook_inv E m" and laws: "varchar_exact E" "payment_ids_canonical E (db (cw (tr m)))"
    and step: "hook_step E i m = Some m'"
  shows "hook_inv E m' \<and> hook_effect E i m m'"
proof -
  from step have i: "i < length (hooks m)" and nw: "\<not> hook_waits E m i" by (auto simp: hook_step_def Let_def split: if_splits)
  note ok = hook_inv_session [OF inv i]
  let ?w = "cw (tr m)" and ?s = "hooks m ! i"
  show ?thesis
  proof (cases ?s)
    case (Received pv payload)
    with step i nw open_step_ok [OF inv i Received] show ?thesis by (auto simp: hook_step_def Let_def)
  next
    case s: (Opened t pv ev payload)
    let ?next = "\<lambda>(x :: unit) w1. let we = last (webhook_events (db w1)) in move_hook i (Recorded t pv ev we) (event_locks we) w1 m"
    have m': "m' = or_rollback E i m (insert_webhook E pv ev payload (inside E t ?s ?w)) ?next"
      using step i nw by (simp add: hook_step_def Let_def s)
    show ?thesis unfolding m'
    proof (rule or_rollback_ok [OF inv i])
      fix x w1
      assume run: "insert_webhook E pv ev payload (inside E t ?s ?w) = (Inr x, w1)"
      let ?we = "last (webhook_events (db w1))"
      from insert_webhook_row [OF run] s have row: "db w1 = record_event ?we (db ?w)"
        "insert_webhook_events ?we (db ?w) = Inr (record_event ?we (db ?w))" "varchar_in E 50 pv = Some (we_Provider ?we)"
        "varchar_in E 255 (wh_EventID ev) = Some (we_EventID ?we)"
        "sql_insert_webhook E pv ev payload (gen_random_uuid E (tick ?w)) t (db ?w) = Inr ((), db w1)"
        by (auto simp: own_view_def)
      then have "wanted E ?w ?s = event_locks ?we" by (simp add: wanted_def s)
      then have "\<forall>r \<in> set (event_locks ?we). \<not> taken_by_other (held m) i r" using not_waiting(1) [OF nw] by simp
      from moved_ok [OF inv i this, of "Recorded t pv ev ?we" w1] row
      show "hook_inv E (?next x w1) \<and> hook_effect E i m (?next x w1)"
        by (simp add: Let_def hook_ok_def event_ok_def holding_def hook_event_def s)
    qed
  next
    case s: (Recorded t pv ev we)
    let ?next = "\<lambda>(p, acc) w1. move_hook i (HoldsPayment t pv ev we p acc) [PaymentRow (p_ID p)] w1 m"
    have m': "m' = or_rollback E i m (lock_payment E (wh_ReferenceID ev) (inside E t ?s ?w)) ?next"
      using step i nw by (simp add: hook_step_def Let_def s)
    show ?thesis unfolding m'
    proof (rule or_rollback_ok [OF inv i])
      fix x w1
      assume run: "lock_payment E (wh_ReferenceID ev) (inside E t ?s ?w) = (Inr x, w1)"
      from lock_payment_Inr [OF run] s obtain p wl where p: "row_with p_ProviderReference (wh_ReferenceID ev) (payments (db ?w)) = Some p"
        "row_with w_ID (p_WalletID p) (wallets (db ?w)) = Some wl" "x = (scan_payment p, w_AccountID wl)"
        by (auto simp: own_view_def record_event_def)
      then have "wanted E ?w ?s = [PaymentRow (p_ID p)]" by (simp add: wanted_def s sql_lock_payment_def)
      then have free: "\<forall>r \<in> set [PaymentRow (p_ID p)]. \<not> taken_by_other (held m) i r" using not_waiting(1) [OF nw] by simp
      have ev_ok: "event_ok E (db ?w) (held m) i pv ev we" using ok s by (simp add: hook_ok_def)
      have "event_ok E (db ?w) (\<lambda>r. if r \<in> set [PaymentRow (p_ID p)] then Some i else held m r) i pv ev we"
        by (rule event_ok_frame [OF ev_ok keeps_held_refl]) simp
      with moved_ok [OF inv i free, of "HoldsPayment t pv ev we (scan_payment p) (w_AccountID wl)" w1] p s
      show "hook_inv E (?next x w1) \<and> hook_effect E i m (?next x w1)"
        by (simp add: hook_ok_def payment_ok_def holding_def hook_event_def) blast
    qed
  next
    case s: (HoldsPayment t pv ev we p acc)
    let ?next = "\<lambda>(x :: unit) w1. move_hook i (Advanced t pv ev we p acc) [] w1 m"
    have m': "m' = or_rollback E i m (advance_payment E ev p (inside E t ?s ?w)) ?next"
      using step i nw by (simp add: hook_step_def Let_def s)
    show ?thesis unfolding m'
    proof (rule or_rollback_ok [OF inv i])
      fix x w1
      assume run: "advance_payment E ev p (inside E t ?s ?w) = (Inr x, w1)"
      from advance_payment_Inr [OF run] ok moved_ok [OF inv i, of "[]" "Advanced t pv ev we p acc" w1] s
      show "hook_inv E (?next x w1) \<and> hook_effect E i m (?next x w1)"
        by (auto simp: hook_ok_def holding_def hook_event_def)
    qed
  next
    case s: (Advanced t pv ev we p acc)
    obtain r w where run: "end_tx E (db ?w) (settle_webhook E ev p acc (inside E t ?s ?w)) = (r, w)" by (meson surj_pair)
    then have m': "m' = answer i m (r, w)" using step i nw by (simp add: hook_step_def Let_def s)
    have locks: "\<forall>r \<in> set (event_locks we). held m r = Some i" using ok s by (simp add: hook_ok_def event_ok_def)
    from settle_ok [OF ok [unfolded s] laws(2) run [unfolded s]] have "db w = db ?w \<and> isl r \<or>
      (\<exists>q wl. webhook_applied E pv ev q wl (db ?w) (db w) \<and> webhook_events (db w) = webhook_events (db ?w) @ [we] \<and>
         p = scan_payment q \<and> w_ID wl = p_WalletID q \<and> held m (PaymentRow (p_ID q)) = Some i)" by simp
    then show ?thesis
    proof (elim disjE exE conjE)
      assume same: "db w = db ?w" "isl r"
      from same(2) obtain e where "r = Inl e" by (cases r) auto
      with refused_ok [OF inv i same(1), of e] m' show ?thesis by simp
    next
      fix q wl
      assume a: "webhook_applied E pv ev q wl (db ?w) (db w)" "webhook_events (db w) = webhook_events (db ?w) @ [we]"
        "p = scan_payment q" "w_ID wl = p_WalletID q" "held m (PaymentRow (p_ID q)) = Some i"
      have "keeps_held {r. held m r = Some j} (db ?w) (db w)" if "j \<noteq> i" for j
        by (rule webhook_keeps_held [OF a(1,2) laws]) (use that a(5) locks in auto)
      from hook_inv_answer [OF inv i this, of r] have "hook_inv E m'" by (simp add: m')
      moreover have "lock_owner (tr m) (w_ID wl) = None" if "wh_Status ev = StatusSucceeded"
      proof (rule not_waiting(2) [OF nw])
        have "q \<in> set (payments (db ?w))" using a(1) by (auto simp: webhook_applied_def dest: row_with_SomeD)
        with laws(2) have "uuid_in E (p_WalletID q) = Some (w_ID wl)" by (simp add: payment_ids_canonical_def a(4))
        with that show "wanted_wallet E ?s = Some (w_ID wl)" by (simp add: wanted_wallet_def s a(3))
      qed
      then have "hook_effect E i m m'" using a(1) s unfolding hook_effect_def m' answer_def hook_event_def by auto
      ultimately show ?thesis ..
    qed
  next
    case (Answered r)
    with step i nw show ?thesis by (simp add: hook_step_def Let_def)
  qed
qed

section \<open>Interleavings\<close>

lemma hook_effect_db:
  assumes "hook_effect E i m m'"
  shows "db (cw (tr m')) = db (cw (tr m)) \<or>
    (\<exists>pv ev p wl. webhook_applied E pv ev p wl (db (cw (tr m))) (db (cw (tr m'))))"
  using assms unfolding hook_effect_def by blast

lemma hook_effect_foreign:
  assumes "hook_effect E i m m'"
  shows "tr m' = (tr m)\<lparr>cw := cw (tr m')\<rparr>" and "respects_locks (tr m) (cw (tr m'))"
proof -
  from assms show "tr m' = (tr m)\<lparr>cw := cw (tr m')\<rparr>" by (auto simp: hook_effect_def intro: conc.equality)
  let ?d = "db (cw (tr m))" and ?d' = "db (cw (tr m'))"
  have "row_with w_ID k (wallets ?d') = row_with w_ID k (wallets ?d)"
    if app: "webhook_applied E pv ev p wl ?d ?d'" and free: "wh_Status ev = StatusSucceeded \<longrightarrow> lock_owner (tr m) (w_ID wl) = None"
      and k: "k \<in> dom (lock_owner (tr m))" for pv ev p wl k
  proof (cases "wh_Status ev = StatusSucceeded")
    case False
    with webhook_applied_books [OF app] show ?thesis by (simp add: same_books_def)
  next
    case True
    with webhook_applied_books [OF app] obtain d1 where "payment_credited E p wl ?d d1" "wallets ?d' = wallets d1"
      by (auto simp: same_books_def)
    moreover have "k \<noteq> w_ID wl" using free True k by auto
    ultimately show ?thesis by (auto simp: payment_credited_def row_with_update_where)
  qed
  with assms show "respects_locks (tr m) (cw (tr m'))" unfolding hook_effect_def respects_locks_def by metis
qed

text \<open>Every other transaction is allowed that keeps the payments in order.\<close>

definition keeps_payments :: "env \<Rightarrow> (world \<Rightarrow> world \<Rightarrow> bool) \<Rightarrow> bool" where
  "keeps_payments E other \<longleftrightarrow> (\<forall>w w'. other w w' \<longrightarrow> payment_inv E (db w) \<longrightarrow> payment_inv E (db w'))"

definition mixed_inv :: "env \<Rightarrow> mixed \<Rightarrow> bool" where
  "mixed_inv E m \<longleftrightarrow> lock_inv E (tr m) \<and> hook_inv E m \<and> payment_inv E (db (cw (tr m)))"

lemma mixed_inv_started: "payment_inv E (db w) \<Longrightarrow> mixed_inv E (mixed_started rs hs w)"
  using lock_inv_started [of E rs w] hook_inv_started [of E rs hs w]
  by (simp add: mixed_inv_def mixed_started_def) (simp add: started_def)

lemma hook_inv_other:
  assumes "hook_inv E m" and "keeps_held (dom (held m)) (db (cw (tr m))) (db (cw c))"
  shows "hook_inv E (m\<lparr>tr := c\<rparr>)"
proof -
  have "hook_ok E (db (cw c)) (held m) i (hooks m ! i)" if "i < length (hooks m)" for i
    by (rule hook_ok_frame [OF hook_inv_session [OF assms(1) that] keeps_held_mono [OF assms(2)]]) auto
  with assms(1) show ?thesis by (simp add: hook_inv_def)
qed

lemma step_effect_db:
  "step_effect E i c c' \<Longrightarrow> db (cw c') = db (cw c) \<or>
     (\<exists>req key s r. transfer_applied E req key s r (db (cw c)) (db (cw c')))"
  unfolding step_effect_def by blast

lemma mixed_step_ok:
  assumes ok: "pg_ok E" and keep: "keeps_payments E other" and inv: "mixed_inv E m" and step: "mixed_step E other m m'"
  shows "mixed_inv E m' \<and> conc_step E (\<lambda>_ _. True) (tr m) (tr m')"
proof -
  from inv have li: "lock_inv E (tr m)" and hi: "hook_inv E m" and pi: "payment_inv E (db (cw (tr m)))" by (simp_all add: mixed_inv_def)
  from ok have canon: "uuid_canonical E" and vx: "varchar_exact E" by (simp_all add: pg_ok_def)
  have can: "payment_ids_canonical E (db (cw (tr m)))" using pi by (simp add: payment_inv_def)
  from step show ?thesis
  proof (cases rule: mixed_step.cases)
    case (transfer i c)
    from session_step_ok [OF canon li transfer(2)] have c: "lock_inv E c" "step_effect E i (tr m) c" by simp_all
    from step_effect_db [OF c(2)] have "keeps_held (dom (held m)) (db (cw (tr m))) (db (cw c)) \<and> payment_inv E (db (cw c))"
      using pi transfer_keeps_held transfer_applied_payment_inv by fastforce
    with c(1) hook_inv_other [OF hi] transfer show ?thesis by (auto simp: mixed_inv_def intro: conc_step.session)
  next
    case (webhook i)
    from hook_step_ok [OF hi vx can webhook] have m': "hook_inv E m'" "hook_effect E i m m'" by simp_all
    have "conc_step E (\<lambda>_ _. True) (tr m) ((tr m)\<lparr>cw := cw (tr m')\<rparr>)"
      by (rule conc_step.foreign [OF TrueI hook_effect_foreign(2) [OF m'(2)]])
    then have cs: "conc_step E (\<lambda>_ _. True) (tr m) (tr m')" using hook_effect_foreign(1) [OF m'(2)] by simp
    from hook_effect_db [OF m'(2)] have "payment_inv E (db (cw (tr m')))"
      using pi webhook_applied_payment_inv [OF _ vx pi] by fastforce
    with cs m'(1) conc_step_inv [OF canon li cs] show ?thesis by (simp add: mixed_inv_def)
  next
    case (foreign w)
    have cs: "conc_step E (\<lambda>_ _. True) (tr m) ((tr m)\<lparr>cw := w\<rparr>)"
      by (rule conc_step.foreign [OF TrueI foreign(3)])
    from foreign(2) pi keep have "payment_inv E (db w)" unfolding keeps_payments_def by blast
    with cs conc_step_inv [OF canon li cs] hook_inv_other [OF hi, of "(tr m)\<lparr>cw := w\<rparr>"] foreign show ?thesis
      by (simp add: mixed_inv_def)
  qed
qed

lemma mixed_reach:
  assumes "pg_ok E" and "keeps_payments E other" and "payment_inv E (db w)"
    and "(mixed_step E other)\<^sup>*\<^sup>* (mixed_started rs hs w) m"
  shows "mixed_inv E m \<and> (conc_step E (\<lambda>_ _. True))\<^sup>*\<^sup>* (started rs w) (tr m)"
  using assms(4)
proof (induction rule: rtranclp_induct)
  case base
  show ?case using mixed_inv_started [OF assms(3)] by (simp add: mixed_started_def)
next
  case (step m1 m2)
  from mixed_step_ok [OF assms(1,2) _ step(2)] step.IH show ?case by (auto intro: rtranclp.rtrancl_into_rtrancl)
qed

text \<open>A webhook session keeps the request it was started with.\<close>

lemma hook_event_Answered [simp]: "hook_event (Answered r) = None"
  by (simp add: hook_event_def)

lemma mixed_reach_events:
  assumes "pg_ok E" and "keeps_payments E other" and "payment_inv E (db w)"
    and "(mixed_step E other)\<^sup>*\<^sup>* (mixed_started rs hs w) m"
  shows "length (hooks m) = length hs \<and>
    (\<forall>i < length hs. hook_event (hooks m ! i) = hook_event (Received (fst (hs ! i)) (snd (hs ! i))) \<or> (\<exists>r. hooks m ! i = Answered r))"
  using assms(4)
proof (induction rule: rtranclp_induct)
  case base
  show ?case by (auto simp: mixed_started_def split: prod.splits)
next
  case (step m1 m2)
  note inv = conjunct1 [OF mixed_reach [OF assms(1-3) step(1)]]
  from step(2) show ?case
  proof (cases rule: mixed_step.cases)
    case (webhook i)
    have "hook_effect E i m1 m2"
      using hook_step_ok [of E m1 i m2] inv webhook assms(1) by (simp add: mixed_inv_def pg_ok_def payment_inv_def)
    then obtain s' where s': "hooks m2 = (hooks m1)[i := s']" "hook_event s' \<noteq> None \<and> hook_event s' = hook_event (hooks m1 ! i) \<or> (\<exists>r. s' = Answered r)"
      unfolding hook_effect_def by blast
    have "hook_event (hooks m2 ! j) = hook_event (Received (fst (hs ! j)) (snd (hs ! j))) \<or> (\<exists>r. hooks m2 ! j = Answered r)"
      if "j < length hs" for j
    proof (cases "j = i")
      case True
      with s' that step.IH show ?thesis by auto
    next
      case False
      with s'(1) that step.IH show ?thesis by simp
    qed
    with s'(1) step.IH show ?thesis by simp
  qed (use step.IH in simp_all)
qed

text \<open>
  C5: webhooks are serialisable. Let any number of webhooks and transfers run at the same time, interleaved statement by statement with
  each other and with any other transactions that wait for what they hold, and with any faults. Then every step of the session of a webhook changes the database
  by exactly that webhook, applied at once to the current database (its event not yet on record, the payment moving along an edge of the
  state machine from the status it has then), or not at all; and a session that reports success has applied it with its last step.
\<close>

theorem webhooks_serializable:
  assumes "pg_ok E" and "keeps_payments E other" and "payment_inv E (db w)"
    and "(mixed_step E other)\<^sup>*\<^sup>* (mixed_started rs hs w) m"
    and "hook_step E i m = Some m'" and "hs ! i = (pv, payload)"
  shows "(db (cw (tr m')) = db (cw (tr m)) \<or>
      (\<exists>ev p wl. parsed payload = Some ev \<and> webhook_applied E pv ev p wl (db (cw (tr m))) (db (cw (tr m'))))) \<and>
    (hooks m' ! i = Answered (Inr ()) \<longrightarrow>
      (\<exists>ev p wl. parsed payload = Some ev \<and> webhook_applied E pv ev p wl (db (cw (tr m))) (db (cw (tr m')))))"
proof -
  note inv = conjunct1 [OF mixed_reach [OF assms(1-4)]]
  from assms(5) have i: "i < length (hooks m)" by (auto simp: hook_step_def Let_def split: if_splits)
  have "hook_effect E i m m'"
    using hook_step_ok [of E m i m'] inv assms(1,5) by (simp add: mixed_inv_def pg_ok_def payment_inv_def)
  then consider (same) s' where "hooks m' = (hooks m)[i := s']" "db (cw (tr m')) = db (cw (tr m))" "s' \<noteq> Answered (Inr ())"
    | (applied) pv' ev p wl where "hook_event (hooks m ! i) = Some (pv', ev)"
        "webhook_applied E pv' ev p wl (db (cw (tr m))) (db (cw (tr m')))"
    unfolding hook_effect_def by fastforce
  note effect = this
  have "hook_event (hooks m ! i) = hook_event (Received (fst (hs ! i)) (snd (hs ! i))) \<or> (\<exists>r. hooks m ! i = Answered r)"
    using mixed_reach_events [OF assms(1-4)] i by metis
  then have "hook_event (hooks m ! i) = map_option (Pair pv) (parsed payload) \<or> hook_event (hooks m ! i) = None"
    using assms(6) by (auto simp: hook_event_def [of "Received a b" for a b])
  note request = this
  from effect show ?thesis
  proof cases
    case same
    with i show ?thesis by simp
  next
    case applied
    with request have "map_option (Pair pv) (parsed payload) = Some (pv', ev)" by simp
    then have "parsed payload = Some ev" "pv' = pv" by auto
    with applied show ?thesis by blast
  qed
qed

definition is_answered :: "webhook_session \<Rightarrow> bool" where
  "is_answered s = (case s of Answered r \<Rightarrow> True | _ \<Rightarrow> False)"

text \<open>
  Two webhooks that report the success of the same payment, and a transfer from its wallet. After the steps of \<open>contention\<close> the
  transfer has locked the wallet, the first webhook has the payment and waits for the wallet, the second has recorded its event and
  waits for the payment. The transfer goes first, then the first webhook; the second finds the payment succeeded and is refused.
\<close>

definition first_report :: string where
  \<open>first_report = ''{"event_id":"e1","reference_id":"ext_1","status":"SUCCEEDED"}''\<close>

definition second_report :: string where
  \<open>second_report = ''{"event_id":"e2","reference_id":"ext_1","status":"SUCCEEDED"}''\<close>

definition rivals :: mixed where
  "rivals = mixed_started [(demo_transfer, ''key-1'')] [(''simulator'', first_report), (''simulator'', second_report)] demo_funded"

definition contention :: "mover list" where
  "contention = [MoveTransfer 0, MoveTransfer 0, MoveWebhook 0, MoveWebhook 0, MoveWebhook 0, MoveWebhook 0, MoveWebhook 1, MoveWebhook 1]"

lemma rivals_run:
  "case run_moves demo_env contention rivals of None \<Rightarrow> False | Some m \<Rightarrow>
     hook_waits demo_env m 0 \<and> hook_waits demo_env m 1 \<and> \<not> list_all is_answered (hooks m) \<and>
     (case run_moves demo_env [MoveTransfer 0, MoveTransfer 0] m of None \<Rightarrow> False | Some m1 \<Rightarrow>
     (case hook_step demo_env 0 m1 of None \<Rightarrow> False | Some m2 \<Rightarrow> hooks m2 ! 0 = Answered (Inr ()) \<and>
     (case run_moves demo_env [MoveWebhook 1, MoveWebhook 1] m2 of None \<Rightarrow> False | Some m3 \<Rightarrow>
        hooks m3 = [Answered (Inr ()), Answered (Inl (ErrorfWSuffix ErrInvalidStateTransition
          ''cannot transition from SUCCEEDED to SUCCEEDED''))] \<and>
        list_all is_finished (sessions (tr m3)) \<and> map w_AvailableBalance (wallets (db (cw (tr m3)))) = [90, 80])))"
  by code_simp

lemma rivals_cases:
  obtains m m1 m2 m3 where "run_moves demo_env contention rivals = Some m" "\<not> list_all is_answered (hooks m)"
    "run_moves demo_env [MoveTransfer 0, MoveTransfer 0] m = Some m1" "hook_step demo_env 0 m1 = Some m2"
    "hooks m2 ! 0 = Answered (Inr ())" "run_moves demo_env [MoveWebhook 1, MoveWebhook 1] m2 = Some m3"
    "length (hooks m3) = 2" "list_all is_answered (hooks m3)" "list_all is_finished (sessions (tr m3))"
  using rivals_run by (simp split: option.splits) (simp add: is_answered_def)

lemma run_moves_append:
  "run_moves E (xs @ ys) m = (case run_moves E xs m of None \<Rightarrow> None | Some m' \<Rightarrow> run_moves E ys m')"
  by (induction xs arbitrary: m) (auto split: option.splits)

lemma no_others: "keeps_payments E (\<lambda>_ _. False)"
  by (simp add: keeps_payments_def)

theorem webhooks_serializable_witness:
  "\<exists>m m' ev p wl. run_moves demo_env (contention @ [MoveTransfer 0, MoveTransfer 0]) rivals = Some m \<and> hook_step demo_env 0 m = Some m' \<and>
     webhook_applied demo_env ''simulator'' ev p wl (db (cw (tr m))) (db (cw (tr m')))"
proof (cases rule: rivals_cases)
  case (1 m m1 m2 m3)
  then have run: "run_moves demo_env (contention @ [MoveTransfer 0, MoveTransfer 0]) rivals = Some m1" by (simp add: run_moves_append)
  from webhooks_serializable [OF demo_pg_ok no_others demo_payment_inv run_moves_mixed [OF run [unfolded rivals_def]] 1(4),
      of "''simulator''" first_report] run 1(4,5)
  show ?thesis by auto
qed

section \<open>No deadlock, and an end\<close>

lemma is_answered_iff: "is_answered s \<longleftrightarrow> (\<exists>r. s = Answered r)"
  by (cases s) (auto simp: is_answered_def)

text \<open>What is in the way of a webhook, when no transfer holds a lock.\<close>

lemma hook_stuck:
  assumes stuck: "hook_step E i m = None" and i: "i < length (hooks m)" "\<not> is_answered (hooks m ! i)"
    and free: "lock_owner (tr m) = Map.empty"
  shows "\<exists>r j. r \<in> set (wanted E (cw (tr m)) (hooks m ! i)) \<and> held m r = Some j"
proof -
  from stuck i have "hook_waits E m i"
    by (cases "hooks m ! i") (auto simp: hook_step_def Let_def is_answered_def split: if_splits)
  with free show ?thesis by (auto simp: hook_waits_def list_ex_iff taken_by_other_def split: option.splits)
qed

lemma wanted_kinds:
  assumes "r \<in> set (wanted E w s)"
  shows "(\<exists>t pv ev payload. s = Opened t pv ev payload) \<or> (\<exists>t pv ev we k. s = Recorded t pv ev we \<and> r = PaymentRow k)"
  using assms by (cases s) (auto simp: wanted_def split: sum.splits prod.splits)

lemma webhooks_not_stuck:
  assumes inv: "hook_inv E m" and free: "lock_owner (tr m) = Map.empty" and stuck: "\<And>i. hook_step E i m = None"
  shows "list_all is_answered (hooks m)"
proof -
  have payment: "held m (PaymentRow k) = None" for k
  proof (rule ccontr)
    assume "held m (PaymentRow k) \<noteq> None"
    then obtain j where "held m (PaymentRow k) = Some j" by auto
    from hook_inv_holder [OF inv this] have j: "j < length (hooks m)" "PaymentRow k \<in> set (holding (hooks m ! j))" by simp_all
    then have "\<not> is_answered (hooks m ! j)" by (auto simp: is_answered_def holding_def split: webhook_session.splits)
    from hook_stuck [OF stuck j(1) this free] wanted_kinds j(2) show False
      by (auto simp: holding_def event_locks_def dest!: wanted_kinds)
  qed
  have none_held: "held m r = None" for r
  proof (rule ccontr)
    assume "held m r \<noteq> None"
    then obtain j where "held m r = Some j" by auto
    from hook_inv_holder [OF inv this] have j: "j < length (hooks m)" "r \<in> set (holding (hooks m ! j))" by simp_all
    then have "\<not> is_answered (hooks m ! j)" by (auto simp: is_answered_def holding_def split: webhook_session.splits)
    from hook_stuck [OF stuck j(1) this free] payment j(2) show False
      by (auto simp: holding_def dest!: wanted_kinds)
  qed
  show ?thesis unfolding list_all_length
  proof (intro allI impI, rule ccontr)
    fix i
    assume "i < length (hooks m)" "\<not> is_answered (hooks m ! i)"
    from hook_stuck [OF stuck this free] obtain r j where "held m r = Some j" by blast
    with none_held [of r] show False by simp
  qed
qed

lemma finished_holds_nothing:
  assumes "lock_inv E c" and "list_all is_finished (sessions c)"
  shows "lock_owner c = Map.empty"
proof
  fix k
  show "lock_owner c k = None"
  proof (rule ccontr)
    assume "lock_owner c k \<noteq> None"
    then obtain j where "lock_owner c k = Some j" by auto
    from lock_inv_owner [OF assms(1) this] assms(2) show False
      by (auto simp: list_all_length is_finished_iff holds_lock_def split: session.splits)
  qed
qed

lemma mixed_not_stuck:
  assumes "pg_ok E" and "keeps_payments E other" and "payment_inv E (db w)"
    and "(mixed_step E other)\<^sup>*\<^sup>* (mixed_started rs hs w) m" and "list_all (\<lambda>(req, key). canonical_request E req) rs"
    and stuck: "\<And>x. move E x m = None"
  shows "list_all is_finished (sessions (tr m)) \<and> list_all is_answered (hooks m)"
proof -
  from mixed_reach [OF assms(1-4)] have inv: "lock_inv E (tr m)" "hook_inv E m"
    and reach: "(conc_step E (\<lambda>_ _. True))\<^sup>*\<^sup>* (started rs w) (tr m)" by (simp_all add: mixed_inv_def)
  have "session_step E i (tr m) = None" for i using stuck [of "MoveTransfer i"] by (simp split: option.splits)
  with no_deadlock [OF _ reach assms(5)] assms(1) have fin: "list_all is_finished (sessions (tr m))" by (auto simp: pg_ok_def)
  have "hook_step E i m = None" for i using stuck [of "MoveWebhook i"] by simp
  with webhooks_not_stuck [OF inv(2) finished_holds_nothing [OF inv(1) fin]] fin show ?thesis by simp
qed

text \<open>
  C6: no deadlock between transfers and webhooks. If every transfer names its wallets in canonical form, then in every state that
  an interleaving of transfers, webhooks, other transactions and faults can reach, one of them can take its next step, unless all have
  returned: a webhook takes its event, its payment and its wallet in this order and transfers take wallets only, so that no cycle of waiting
  sessions arises.
\<close>

theorem mixed_no_deadlock:
  assumes "pg_ok E" and "keeps_payments E other" and "payment_inv E (db w)"
    and "(mixed_step E other)\<^sup>*\<^sup>* (mixed_started rs hs w) m" and "list_all (\<lambda>(req, key). canonical_request E req) rs"
  shows "list_all is_finished (sessions (tr m)) \<and> list_all is_answered (hooks m) \<or> (\<exists>x m'. move E x m = Some m')"
  using mixed_not_stuck [OF assms] by (meson not_None_eq)

fun hook_steps_left :: "webhook_session \<Rightarrow> nat" where
  "hook_steps_left (Received pv payload) = 5"
| "hook_steps_left (Opened t pv ev payload) = 4"
| "hook_steps_left (Recorded t pv ev we) = 3"
| "hook_steps_left (HoldsPayment t pv ev we p acc) = 2"
| "hook_steps_left (Advanced t pv ev we p acc) = 1"
| "hook_steps_left (Answered r) = 0"

definition moves_left :: "mixed \<Rightarrow> nat" where
  "moves_left m = sum_list (map steps_left (sessions (tr m))) + sum_list (map hook_steps_left (hooks m))"

lemma hook_step_decreases:
  assumes "hook_step E i m = Some m'"
  shows "moves_left m' < moves_left m"
proof -
  from assms have i: "i < length (hooks m)" by (auto simp: hook_step_def Let_def split: if_splits)
  have fin: "sessions (tr (answer i m p)) = sessions (tr m)" "hooks (answer i m p) = (hooks m)[i := Answered (fst p)]" for p
    by (simp_all add: answer_def split: prod.splits)
  have mov: "sessions (tr (move_hook i s rs w m)) = sessions (tr m)" "hooks (move_hook i s rs w m) = (hooks m)[i := s]" for s rs w
    by (simp_all add: move_hook_def)
  have "sessions (tr m') = sessions (tr m) \<and> (\<exists>s'. hooks m' = (hooks m)[i := s'] \<and> hook_steps_left s' < hook_steps_left (hooks m ! i))"
  proof (cases "hooks m ! i")
    case (Received pv payload)
    with assms show ?thesis
      by (auto simp: hook_step_def Let_def open_step_def fin mov split: if_splits option.splits sum.splits stmt_failure.splits)
  qed (use assms in \<open>auto simp: hook_step_def Let_def or_rollback_def fin mov split: if_splits sum.splits prod.splits\<close>)
  then show ?thesis using i by (auto simp: moves_left_def intro: sum_list_update_less)
qed

lemma move_decreases: "move E x m = Some m' \<Longrightarrow> moves_left m' < moves_left m"
  by (cases x) (auto simp: moves_left_def session_step_decreases split: option.splits dest: hook_step_decreases)

lemma run_moves_bound: "run_moves E xs m = Some m' \<Longrightarrow> length xs + moves_left m' \<le> moves_left m"
proof (induction xs arbitrary: m)
  case (Cons x xs)
  then obtain m1 where "move E x m = Some m1" "run_moves E xs m1 = Some m'" by (auto split: option.splits)
  with Cons.IH [of m1] move_decreases [of E x m m1] show ?case by simp
qed simp

text \<open>
  C7: every schedule ends. However the steps of \<open>n\<close> transfers and \<open>k\<close> webhooks are interleaved, there are at most \<open>4 n + 5 k\<close> of
  them. If every transfer names its wallets in canonical form (otherwise transfers can deadlock, see \<open>transfers_deadlock_mixed_case\<close>), then
  no step is left only when every request has been answered: no transfer and no webhook is left waiting.
\<close>

theorem mixed_complete:
  assumes "pg_ok E" and "payment_inv E (db w)" and "run_moves E xs (mixed_started rs hs w) = Some m"
  shows "length xs \<le> 4 * length rs + 5 * length hs \<and>
    (list_all (\<lambda>(req, key). canonical_request E req) rs \<longrightarrow> (\<forall>x. move E x m = None) \<longrightarrow>
       (\<forall>i < length rs. \<exists>r. sessions (tr m) ! i = Finished r) \<and> (\<forall>i < length hs. \<exists>r. hooks m ! i = Answered r))"
proof -
  have "sum_list (map (steps_left \<circ> (\<lambda>(req, key). Requested req key)) rs) = 4 * length rs" by (induction rs) auto
  moreover have "sum_list (map (hook_steps_left \<circ> (\<lambda>(pv, payload). Received pv payload)) hs) = 5 * length hs" by (induction hs) auto
  ultimately have "moves_left (mixed_started rs hs w) = 4 * length rs + 5 * length hs"
    by (simp add: moves_left_def mixed_started_def started_def)
  with run_moves_bound [OF assms(3)] have "length xs \<le> 4 * length rs + 5 * length hs" by simp
  moreover have "keeps_payments E (\<lambda>_ _. False)" by (simp add: keeps_payments_def)
  note reach = this assms(2) run_moves_mixed [OF assms(3), of "\<lambda>_ _. False"]
  have "length (sessions (tr m)) = length rs"
    using mixed_reach [OF assms(1) reach] conc_reach_requests [of E "\<lambda>_ _. True" rs w "tr m"] assms(1) by (simp add: pg_ok_def)
  moreover have "length (hooks m) = length hs" using mixed_reach_events [OF assms(1) reach] by simp
  ultimately show ?thesis
    using mixed_not_stuck [OF assms(1) reach] by (auto simp: list_all_length is_finished_iff is_answered_iff)
qed

theorem mixed_no_deadlock_witness:
  "\<exists>m x m'. run_moves demo_env contention rivals = Some m \<and> move demo_env x m = Some m'"
proof (cases rule: rivals_cases)
  case (1 m m1 m2 m3)
  have "list_all (\<lambda>(req, key). canonical_request demo_env req) [(demo_transfer, ''key-1'')]" by code_simp
  from mixed_no_deadlock [OF demo_pg_ok no_others demo_payment_inv run_moves_mixed [OF 1(1) [unfolded rivals_def]] this] 1(1,2)
  show ?thesis by blast
qed

theorem mixed_complete_witness:
  "\<exists>xs m. run_moves demo_env xs rivals = Some m \<and> length xs \<le> 14 \<and> (\<forall>i < 2. \<exists>r. hooks m ! i = Answered r)"
proof (cases rule: rivals_cases)
  case (1 m m1 m2 m3)
  let ?xs = "contention @ [MoveTransfer 0, MoveTransfer 0] @ [MoveWebhook 0] @ [MoveWebhook 1, MoveWebhook 1]"
  have "run_moves demo_env [MoveWebhook 0] m1 = Some m2" using 1(4) by simp
  with 1(1,3,6) have run: "run_moves demo_env ?xs rivals = Some m3" by (simp only: run_moves_append option.case)
  have "session_step demo_env i (tr m3) = None" for i
    using 1(9) by (cases "i < length (sessions (tr m3))") (auto simp: list_all_length is_finished_iff session_step_def)
  moreover have "hook_step demo_env i m3 = None" for i
    using 1(8) by (cases "i < length (hooks m3)") (auto simp: list_all_length is_answered_iff hook_step_def Let_def)
  ultimately have stuck: "\<forall>x. move demo_env x m3 = None" by (metis move.simps mover.exhaust option.simps(4))
  have ok: "list_all (\<lambda>(req, key). canonical_request demo_env req) [(demo_transfer, ''key-1'')]" by code_simp
  from mixed_complete [OF demo_pg_ok demo_payment_inv run [unfolded rivals_def]] ok stuck
  show ?thesis by (intro exI [of _ ?xs] exI [of _ m3] conjI run) simp_all
qed

end
