(* ===== verification/Startup.thy ===== *)
theory Startup
  imports Server Outbox_Correctness
begin

text \<open>
  The life of the process: \<open>cmd/api/main.go\<close>, the connections of \<open>internal/database\<close>, \<open>internal/redis\<close> and
  \<open>internal/kafka\<close>, the logger, and the part of \<open>internal/server\<close> that starts the workers and shuts the
  server down. A run of \<open>main\<close> is the list of what the process does to the outside, in order; what the client
  libraries answer is a parameter. The router it serves is \<open>NewServer\<close> with a Redis client.
\<close>

section \<open>Connections\<close>

text \<open>The settings of a pool, as \<open>pgxpool.ParseConfig\<close> reads them from a URL; times are in seconds.\<close>

record pool_config =
  pc_ConnString :: string
  MaxConns :: int
  MinConns :: int
  MaxConnLifetime :: int
  MaxConnIdleTime :: int

text \<open>
  The client libraries: parsing a URL, creating a client and the answer to its ping.
\<close>

record boot_lib =
  pgxpool_ParseConfig :: "string \<Rightarrow> error + pool_config"
  pgxpool_NewWithConfig :: "pool_config \<Rightarrow> error option"
  pool_Ping :: "pool_config \<Rightarrow> error option"
  redis_ParseURL :: "string \<Rightarrow> error + string"
  redis_Ping :: "string \<Rightarrow> error option"
  kgo_NewClient :: "string \<Rightarrow> error option"
  kgo_Ping :: "string \<Rightarrow> error option"

definition no_error :: "(error \<Rightarrow> error) \<Rightarrow> error option \<Rightarrow> error + unit" where
  "no_error wrap r = (case r of Some e \<Rightarrow> Inl (wrap e) | None \<Rightarrow> Inr ())"

definition wrap_error :: "(error \<Rightarrow> error) \<Rightarrow> error + 'a \<Rightarrow> error + 'a" where
  "wrap_error wrap r = (case r of Inl e \<Rightarrow> Inl (wrap e) | Inr x \<Rightarrow> Inr x)"

definition database_Connect :: "boot_lib \<Rightarrow> string \<Rightarrow> error + pool_config" where
  "database_Connect B dbURL =
     rbind (wrap_error (ErrorfW ''failed to parse db config'') (pgxpool_ParseConfig B dbURL)) (\<lambda>config0.
     let config = config0\<lparr>MaxConns := 50, MinConns := 10, MaxConnLifetime := 3600, MaxConnIdleTime := 30 * 60\<rparr> in
     rbind (no_error (ErrorfW ''failed to create connection pool'') (pgxpool_NewWithConfig B config)) (\<lambda>_.
     rbind (no_error (ErrorfW ''failed to ping database'') (pool_Ping B config)) (\<lambda>_.
       Inr config)))"

definition redis_Connect :: "boot_lib \<Rightarrow> string \<Rightarrow> error + string" where
  "redis_Connect B redisURL =
     rbind (wrap_error (ErrorfW ''failed to parse redis url'') (redis_ParseURL B redisURL)) (\<lambda>opts.
     rbind (no_error (ErrorfW ''failed to connect to redis'') (redis_Ping B opts)) (\<lambda>_.
       Inr opts))"

definition NewProducer :: "boot_lib \<Rightarrow> string \<Rightarrow> error + string" where
  "NewProducer B broker =
     rbind (no_error id (kgo_NewClient B broker)) (\<lambda>_.
     rbind (no_error id (kgo_Ping B broker)) (\<lambda>_.
       Inr broker))"

section \<open>The process\<close>

datatype log_handler = JSONHandler string | TextHandler string

definition NewLogger :: "string \<Rightarrow> log_handler" where
  "NewLogger env = (if env = ''production'' then JSONHandler ''INFO'' else TextHandler ''DEBUG'')"

datatype worker = OutboxWorker | ReconciliationWorker

datatype process_event =
    SetLogger log_handler
  | OpenedDB pool_config
  | OpenedRedis string
  | StartedWorker worker
  | Serving string
  | ShutDown bool
  | ClosedRedis
  | ClosedDB
  | Exit int

text \<open>The workers \<open>NewServer\<close> starts: the outbox worker only if Kafka answers now.\<close>

definition started_workers :: "boot_lib \<Rightarrow> Config \<Rightarrow> worker list" where
  "started_workers B cfg =
     (case NewProducer B (cfg_KafkaBroker cfg) of Inl _ \<Rightarrow> [] | Inr _ \<Rightarrow> [OutboxWorker]) @ [ReconciliationWorker]"

text \<open>
  From \<open>Start\<close> on two goroutines run: the listener, and the main goroutine, which waits for a signal. What reaches them
  is a list of events in the order of their arrival: the listener has bound its port; \<open>ListenAndServe\<close> returns (\<open>None\<close> is
  \<open>ErrServerClosed\<close>), before the port is bound or later; SIGINT or SIGTERM; \<open>Shutdown\<close> returns; the main goroutine goes on.
  A process that is killed stops at any point of its run.
\<close>

datatype server_event =
    Bound
  | ListenReturned "error option"
  | Signal
  | ShutdownReturned "error option"
  | GoesOn

text \<open>
  The main goroutine waits for a signal, waits for \<open>Shutdown\<close>, or has left \<open>Start\<close> and has some deferred calls to run; the flag says
  whether the listener has bound its port. \<open>Gone\<close> is the state after the exit.
\<close>

datatype server_phase =
    Waiting bool
  | Stopping bool
  | Leaving "process_event list"
  | Gone

text \<open>
  One event. An error of the listener is \<open>os.Exit(1)\<close> in its goroutine whatever the main goroutine does. \<open>ShutDown\<close> says whether the
  open requests ended within the ten seconds they are given; an error is logged only.
\<close>

fun server_step :: "string \<Rightarrow> process_event list \<Rightarrow> server_phase \<Rightarrow> server_event \<Rightarrow> process_event list \<times> server_phase" where
  "server_step addr deferred Gone e = ([], Gone)"
| "server_step addr deferred p (ListenReturned (Some err)) = ([Exit 1], Gone)"
| "server_step addr deferred (Waiting bound) Bound = (if bound then [] else [Serving addr], Waiting True)"
| "server_step addr deferred (Waiting bound) Signal = ([], Stopping bound)"
| "server_step addr deferred (Stopping bound) Bound = (if bound then [] else [Serving addr], Stopping True)"
| "server_step addr deferred (Stopping bound) (ShutdownReturned err) = ([ShutDown (err = None)], Leaving deferred)"
| "server_step addr deferred (Leaving (d # ds)) GoesOn = ([d], if ds = [] then Gone else Leaving ds)"
| "server_step addr deferred p e = ([], p)"

fun server_Start :: "string \<Rightarrow> process_event list \<Rightarrow> server_phase \<Rightarrow> server_event list \<Rightarrow> process_event list" where
  "server_Start addr deferred p [] = []"
| "server_Start addr deferred p (e # es) =
     (case server_step addr deferred p e of (out, p') \<Rightarrow> out @ server_Start addr deferred p' es)"

text \<open>
  \<open>os.Exit\<close> and \<open>log.Fatal\<close> skip the deferred calls; they run in reverse order at the return, and the process exits with 0.
\<close>

definition main :: "boot_lib \<Rightarrow> (string \<Rightarrow> string option) \<Rightarrow> server_event list \<Rightarrow> process_event list" where
  "main B vars es =
     (case LoadConfig vars of
        Inl _ \<Rightarrow> [Exit 1]
      | Inr cfg \<Rightarrow>
          SetLogger (NewLogger (cfg_Env cfg)) #
          (case database_Connect B (cfg_DatabaseURL cfg) of
             Inl _ \<Rightarrow> [Exit 1]
           | Inr pool \<Rightarrow>
               OpenedDB pool #
               (case redis_Connect B (cfg_RedisURL cfg) of
                  Inl _ \<Rightarrow> [Exit 1]
                | Inr rdb \<Rightarrow>
                    OpenedRedis rdb # map StartedWorker (started_workers B cfg) @
                    server_Start ('':'' @ cfg_ServerPort cfg) [ClosedRedis, ClosedDB, Exit 0] (Waiting False) es)))"

lemma rbind_eq_Inr: "rbind r k = Inr y \<longleftrightarrow> (\<exists>x. r = Inr x \<and> k x = Inr y)"
  by (rule rbind_Inr_iff)

lemma no_error_Inr [simp]: "no_error f r = Inr u \<longleftrightarrow> r = None"
  by (auto simp: no_error_def split: option.splits)

lemma wrap_error_Inr [simp]: "wrap_error f r = Inr x \<longleftrightarrow> r = Inr x"
  by (auto simp: wrap_error_def split: sum.splits)

text \<open>The pool is the one of the URL with the limits of the code, and has answered.\<close>

lemma database_Connect_Inr:
  "database_Connect B url = Inr pool \<longleftrightarrow>
     (\<exists>c. pgxpool_ParseConfig B url = Inr c \<and>
        pool = c\<lparr>MaxConns := 50, MinConns := 10, MaxConnLifetime := 3600, MaxConnIdleTime := 1800\<rparr> \<and>
        pgxpool_NewWithConfig B pool = None \<and> pool_Ping B pool = None)"
  by (auto simp: database_Connect_def rbind_eq_Inr Let_def)

lemma NewProducer_Inr: "NewProducer B broker = Inr p \<longleftrightarrow> p = broker \<and> kgo_NewClient B broker = None \<and> kgo_Ping B broker = None"
  by (auto simp: NewProducer_def rbind_eq_Inr)

lemma redis_Connect_Inr: "redis_Connect B url = Inr opts \<longleftrightarrow> redis_ParseURL B url = Inr opts \<and> redis_Ping B opts = None"
  by (auto simp: redis_Connect_def rbind_eq_Inr)

section \<open>The order of what a process does\<close>

definition listener_failed :: "server_event list \<Rightarrow> bool" where
  "listener_failed es \<longleftrightarrow> (\<exists>err. ListenReturned (Some err) \<in> set es)"

lemma listener_failed_simps [simp]:
  "\<not> listener_failed []" "listener_failed (ListenReturned (Some err) # es)" "listener_failed es \<Longrightarrow> listener_failed (e # es)"
  by (auto simp: listener_failed_def)

lemma server_Start_Gone [simp]: "server_Start addr deferred Gone es = []"
  by (induction es) simp_all

text \<open>
  What a started server does after it may have begun to serve: nothing yet, or the listener fails, or it shuts down and the deferred calls follow in
  order, and only a listener error cuts them short. The flags say whether the listener has failed and whether a signal has arrived.
\<close>

inductive after_serving :: "process_event list \<Rightarrow> bool \<Rightarrow> bool \<Rightarrow> process_event list \<Rightarrow> bool" for deferred where
    still: "after_serving deferred failed signalled []"
  | failure: "after_serving deferred True signalled [Exit 1]"
  | ended: "after_serving deferred failed True (ShutDown ok # take k deferred)"
  | cut: "k < length deferred \<Longrightarrow> after_serving deferred True True (ShutDown ok # take k deferred @ [Exit 1])"

lemma after_serving_mono:
  "after_serving deferred failed signalled t \<Longrightarrow> (failed \<Longrightarrow> failed') \<Longrightarrow> (signalled \<Longrightarrow> signalled') \<Longrightarrow>
     after_serving deferred failed' signalled' t"
  by (induction rule: after_serving.induct) (simp_all add: after_serving.intros)

lemma leaving_run:
  assumes "ds \<noteq> []"
  shows "\<exists>k. server_Start addr deferred (Leaving ds) es = take k ds \<or>
    k < length ds \<and> listener_failed es \<and> server_Start addr deferred (Leaving ds) es = take k ds @ [Exit 1]"
  using assms
proof (induction es arbitrary: ds)
  case Nil
  show ?case by (intro exI [of _ 0]) simp
next
  case (Cons e es)
  have stay: ?case if "server_step addr deferred (Leaving ds) e = ([], Leaving ds)"
    using Cons.IH [OF Cons.prems] that by auto
  obtain d ds' where ds: "ds = d # ds'" using Cons.prems by (cases ds) simp_all
  show ?case
  proof (cases e)
    case (ListenReturned r)
    with stay show ?thesis by (cases r) (auto simp: ds intro: exI [of _ 0])
  next
    case GoesOn
    show ?thesis
    proof (cases "ds' = []")
      case True
      with GoesOn show ?thesis by (intro exI [of _ 1]) (simp add: ds)
    next
      case False
      from Cons.IH [OF False] obtain k where k: "server_Start addr deferred (Leaving ds') es = take k ds' \<or>
        k < length ds' \<and> listener_failed es \<and> server_Start addr deferred (Leaving ds') es = take k ds' @ [Exit 1]" by blast
      have "server_Start addr deferred (Leaving ds) (e # es) = d # server_Start addr deferred (Leaving ds') es"
        using GoesOn False by (simp add: ds)
      with k show ?thesis by (intro exI [of _ "Suc k"]) (auto simp: ds)
    qed
  qed (use stay in \<open>simp_all add: ds\<close>)
qed

lemma Start_run:
  assumes "deferred \<noteq> []"
  shows "\<exists>sv t. server_Start addr deferred (if stopping then Stopping b else Waiting b) es = sv @ t \<and> (sv = [] \<or> sv = [Serving addr] \<and> \<not> b) \<and>
    after_serving deferred (listener_failed es) (stopping \<or> Signal \<in> set es) t"
proof (induction es arbitrary: stopping b)
  case Nil
  show ?case by (intro exI [of _ "[]"]) (simp add: after_serving.still)
next
  case (Cons e es)
  let ?p = "if stopping then Stopping b else Waiting b"
  have moves: ?case if step: "server_step addr deferred ?p e = (out, if stopping' then Stopping b' else Waiting b')"
    and "out = [] \<and> (b' \<longleftrightarrow> b) \<or> out = [Serving addr] \<and> \<not> b \<and> b'" and "stopping' \<Longrightarrow> stopping \<or> e = Signal" for out stopping' b'
  proof -
    from Cons.IH [of stopping' b'] obtain sv t where t: "server_Start addr deferred (if stopping' then Stopping b' else Waiting b') es = sv @ t"
      "sv = [] \<or> sv = [Serving addr] \<and> \<not> b'" "after_serving deferred (listener_failed es) (stopping' \<or> Signal \<in> set es) t" by blast
    have "after_serving deferred (listener_failed (e # es)) (stopping \<or> Signal \<in> set (e # es)) t"
      by (rule after_serving_mono [OF t(3)]) (use that(3) in auto)
    with t(1,2) that(1,2) show ?thesis by (intro exI [of _ "out @ sv"] exI [of _ t]) auto
  qed
  show ?case
  proof (cases e)
    case Bound
    then show ?thesis by (intro moves [of "if b then [] else [Serving addr]" stopping True]) auto
  next
    case (ListenReturned r)
    show ?thesis
    proof (cases r)
      case None
      with ListenReturned show ?thesis by (intro moves [of "[]" stopping b]) auto
    next
      case (Some err)
      with ListenReturned show ?thesis
        by (intro exI [of _ "[]"] exI [of _ "[Exit 1]"]) (simp add: after_serving.failure)
    qed
  next
    case Signal
    then show ?thesis by (intro moves [of "[]" True b]) auto
  next
    case (ShutdownReturned r)
    show ?thesis
    proof (cases stopping)
      case True
      let ?t = "server_Start addr deferred (Leaving deferred) es"
      from leaving_run [OF assms, of addr deferred es] have "after_serving deferred (listener_failed (e # es)) True (ShutDown (r = None) # ?t)"
        by (auto intro: after_serving.intros)
      with True ShutdownReturned show ?thesis by (intro exI [of _ "[]"] exI [of _ "ShutDown (r = None) # ?t"]) simp
    next
      case False
      with ShutdownReturned show ?thesis by (intro moves [of "[]" stopping b]) auto
    qed
  next
    case GoesOn
    then show ?thesis by (intro moves [of "[]" stopping b]) auto
  qed
qed

section \<open>Life of a process\<close>

abbreviation closing :: "process_event list" where
  "closing \<equiv> [ClosedRedis, ClosedDB, Exit 0]"

definition connected :: "boot_lib \<Rightarrow> (string \<Rightarrow> string option) \<Rightarrow> Config \<Rightarrow> pool_config \<Rightarrow> string \<Rightarrow> bool" where
  "connected B vars cfg pool rdb \<longleftrightarrow>
     LoadConfig vars = Inr cfg \<and> database_Connect B (cfg_DatabaseURL cfg) = Inr pool \<and> redis_Connect B (cfg_RedisURL cfg) = Inr rdb"

lemma main_run:
  obtains
    (failed) "\<nexists>cfg pool rdb. connected B vars cfg pool rdb" "\<exists>us. main B vars es = us @ [Exit 1] \<and> set us \<subseteq> range SetLogger \<union> range OpenedDB"
  | (started) cfg pool rdb sv t where "connected B vars cfg pool rdb"
      "main B vars es = [SetLogger (NewLogger (cfg_Env cfg)), OpenedDB pool, OpenedRedis rdb] @ map StartedWorker (started_workers B cfg) @ sv @ t"
      "sv = [] \<or> sv = [Serving ('':'' @ cfg_ServerPort cfg)]" "after_serving closing (listener_failed es) (Signal \<in> set es) t"
proof (cases "\<exists>cfg pool rdb. connected B vars cfg pool rdb")
  case False
  then have "\<exists>us. main B vars es = us @ [Exit 1] \<and> set us \<subseteq> range SetLogger \<union> range OpenedDB"
    by (auto simp: main_def connected_def Cons_eq_append_conv split: sum.splits)
  with False show thesis by (rule failed)
next
  case True
  then obtain cfg pool rdb where c: "connected B vars cfg pool rdb" by blast
  from Start_run [of closing "'':'' @ cfg_ServerPort cfg" False False es] obtain sv t where
    "server_Start ('':'' @ cfg_ServerPort cfg) closing (Waiting False) es = sv @ t" "sv = [] \<or> sv = [Serving ('':'' @ cfg_ServerPort cfg)]"
    "after_serving closing (listener_failed es) (Signal \<in> set es) t" by auto
  with c show thesis by (intro started [of cfg pool rdb sv t]) (auto simp: main_def connected_def)
qed

lemma started_workers_cases:
  "started_workers B cfg = [ReconciliationWorker] \<or>
   started_workers B cfg = [OutboxWorker, ReconciliationWorker] \<and> kgo_NewClient B (cfg_KafkaBroker cfg) = None \<and> kgo_Ping B (cfg_KafkaBroker cfg) = None"
  by (auto simp: started_workers_def NewProducer_Inr split: sum.splits)

lemma after_serving_cases:
  assumes "after_serving closing failed signalled t"
  obtains (still) "t = []" | (failure) "t = [Exit 1]" failed
    | (ended) ok us where "signalled" "t = ShutDown ok # us" "us \<in> {[], [ClosedRedis], [ClosedRedis, ClosedDB], closing}"
    | (cut) ok us where "signalled" "failed" "t = ShutDown ok # us @ [Exit 1]" "us \<in> {[], [ClosedRedis], [ClosedRedis, ClosedDB]}"
  using assms
proof (cases rule: after_serving.cases)
  case (ended ok k)
  with that(3) show thesis by (cases "k = 0"; cases "k = 1"; cases "k = 2") (auto simp: take_Cons' )
next
  case (cut k ok)
  then have "k = 0 \<or> k = 1 \<or> k = 2" by auto
  with cut that(4) show thesis by (elim disjE) (auto simp: take_Cons')
qed (use that in auto)

text \<open>What has to hold of a run at each of its events.\<close>

fun proper_event :: "boot_lib \<Rightarrow> (string \<Rightarrow> string option) \<Rightarrow> server_event list \<Rightarrow> process_event list \<Rightarrow> process_event \<Rightarrow> bool" where
  "proper_event B vars es us (Serving a) \<longleftrightarrow>
     (\<exists>pool rdb. OpenedDB pool \<in> set us \<and> MaxConns pool = 50 \<and> pool_Ping B pool = None \<and> OpenedRedis rdb \<in> set us \<and> redis_Ping B rdb = None) \<and>
     StartedWorker ReconciliationWorker \<in> set us \<and> range Serving \<inter> set us = {}"
| "proper_event B vars es us (StartedWorker OutboxWorker) \<longleftrightarrow>
     (\<exists>cfg. LoadConfig vars = Inr cfg \<and> kgo_NewClient B (cfg_KafkaBroker cfg) = None \<and> kgo_Ping B (cfg_KafkaBroker cfg) = None)"
| "proper_event B vars es us (ShutDown ok) \<longleftrightarrow> Signal \<in> set es \<and> range ShutDown \<inter> set us = {}"
| "proper_event B vars es us ClosedRedis \<longleftrightarrow> (\<exists>ok us'. us = us' @ [ShutDown ok])"
| "proper_event B vars es us ClosedDB \<longleftrightarrow> (\<exists>ok us'. us = us' @ [ShutDown ok, ClosedRedis])"
| "proper_event B vars es us (Exit c) \<longleftrightarrow>
     c = 0 \<and> (\<exists>ok us'. us = us' @ [ShutDown ok, ClosedRedis, ClosedDB]) \<or>
     c = 1 \<and> ((\<nexists>cfg pool rdb. connected B vars cfg pool rdb) \<or> listener_failed es)"
| "proper_event B vars es us e \<longleftrightarrow> True"

fun proper_from :: "boot_lib \<Rightarrow> (string \<Rightarrow> string option) \<Rightarrow> server_event list \<Rightarrow> process_event list \<Rightarrow> process_event list \<Rightarrow> bool" where
  "proper_from B vars es us [] \<longleftrightarrow> True"
| "proper_from B vars es us (e # t) \<longleftrightarrow>
     proper_event B vars es us e \<and> (case e of Exit c \<Rightarrow> t = [] | _ \<Rightarrow> True) \<and> proper_from B vars es (us @ [e]) t"

lemma proper_from_at:
  "proper_from B vars es us t \<Longrightarrow> t = xs @ e # vs \<Longrightarrow> proper_event B vars es (us @ xs) e \<and> (\<forall>c. e = Exit c \<longrightarrow> vs = [])"
  by (induction t arbitrary: us xs) (fastforce simp: Cons_eq_append_conv)+

lemma proper_from_append:
  "proper_from B vars es us (xs @ ys) \<longleftrightarrow>
     proper_from B vars es us xs \<and> proper_from B vars es (us @ xs) ys \<and> (ys \<noteq> [] \<longrightarrow> range Exit \<inter> set xs = {})"
proof (induction xs arbitrary: us)
  case (Cons x xs)
  then show ?case by (cases x) auto
qed simp

lemma shut_down_last [simp]: "\<exists>ok' us'. us @ ShutDown ok # xs = us' @ ShutDown ok' # xs"
  by blast

lemma proper_after:
  assumes "after_serving closing (listener_failed es) (Signal \<in> set es) t" and down: "range ShutDown \<inter> set us = {}"
  shows "proper_from B vars es us t"
  using assms(1)
proof (cases rule: after_serving_cases)
  case (ended ok xs)
  from ended(3) have "proper_from B vars es us (ShutDown ok # xs)"
    unfolding insert_iff empty_iff by (elim disjE) (simp_all add: ended(1) down)
  then show ?thesis by (simp only: ended(2))
next
  case (cut ok xs)
  from cut(4) have "proper_from B vars es us (ShutDown ok # xs @ [Exit 1])"
    unfolding insert_iff empty_iff by (elim disjE) (simp_all add: cut(1,2) down)
  then show ?thesis by (simp only: cut(3))
qed simp_all

lemma main_proper: "proper_from B vars es [] (main B vars es)"
proof (cases rule: main_run [of B vars es])
  case failed
  then show ?thesis by (auto simp: main_def connected_def split: sum.splits)
next
  case (started cfg pool rdb sv t)
  let ?up = "[SetLogger (NewLogger (cfg_Env cfg)), OpenedDB pool, OpenedRedis rdb] @ map StartedWorker (started_workers B cfg)"
  from started(1) have c: "LoadConfig vars = Inr cfg" "MaxConns pool = 50" "pool_Ping B pool = None" "redis_Ping B rdb = None"
    by (auto simp: connected_def database_Connect_Inr redis_Connect_Inr)
  have "proper_from B vars es [] ?up"
    using started_workers_cases [of B cfg] c(1) by (elim disjE conjE) auto
  moreover have rec: "ReconciliationWorker \<in> set (started_workers B cfg)" by (simp add: started_workers_def)
  moreover have "proper_from B vars es ?up sv"
  proof (cases "sv = []")
    case False
    with started(3) have sv: "sv = [Serving ('':'' @ cfg_ServerPort cfg)]" by simp
    have "proper_event B vars es ?up (Serving a)" for a
      unfolding proper_event.simps using c(2-4) rec by (intro conjI exI [of _ pool] exI [of _ rdb]) auto
    then show ?thesis by (simp add: sv)
  qed simp
  moreover have "proper_from B vars es (?up @ sv) t"
    by (rule proper_after [OF started(4)]) (use started(3) in auto)
  moreover have "range Exit \<inter> set (?up @ sv) = {}" using started(3) by auto
  ultimately have "proper_from B vars es [] ((?up @ sv) @ t)" unfolding proper_from_append by auto
  with started(2) show ?thesis by simp
qed

text \<open>
  C40: the life of the process. Whatever the environment, the connections and the order of what happens to the listener and the main goroutine:
  a process serves only after PostgreSQL, with a pool of at most 50 connections, and Redis have answered and the reconciliation worker runs, and
  binds its port once; the outbox worker runs only if Kafka answered; it shuts down only after a signal, then closes Redis, then the
  pool, then exits with 0; it exits with 1 only if the start failed or the listener did, at whatever time; and nothing follows an exit.
\<close>

theorem process_lifecycle:
  assumes "main B vars es = us @ e # vs"
  shows "proper_event B vars es us e \<and> (\<forall>c. e = Exit c \<longrightarrow> vs = [])"
  using proper_from_at [OF main_proper assms] by simp

text \<open>Everything answers; the port is bound, a signal arrives, the open requests end. If the listener fails after it has served, the exit is 1 and nothing is closed.\<close>

definition demo_boot :: boot_lib where
  "demo_boot = \<lparr>pgxpool_ParseConfig = (\<lambda>url. Inr \<lparr>pc_ConnString = url, MaxConns = 4, MinConns = 0, MaxConnLifetime = 0, MaxConnIdleTime = 0\<rparr>),
     pgxpool_NewWithConfig = (\<lambda>_. None), pool_Ping = (\<lambda>_. None), redis_ParseURL = Inr, redis_Ping = (\<lambda>_. None),
     kgo_NewClient = (\<lambda>_. None), kgo_Ping = (\<lambda>_. Some (DriverError ''no broker''))\<rparr>"

definition demo_vars :: "string \<Rightarrow> string option" where
  "demo_vars v = (if v = ''DATABASE_URL'' then Some ''postgres://db'' else None)"

definition orderly :: "server_event list" where
  "orderly = [Bound, Signal, ShutdownReturned None, GoesOn, GoesOn, GoesOn]"

theorem process_lifecycle_witness:
  "(\<exists>us. main demo_boot demo_vars orderly = us @ [Exit 0] \<and> Serving '':8080'' \<in> set us \<and> proper_event demo_boot demo_vars orderly us (Exit 0)) \<and>
   last (main demo_boot demo_vars [Bound, ListenReturned (Some (DriverError ''accept''))]) = Exit 1"
proof
  let ?us = "[SetLogger (TextHandler ''DEBUG''), OpenedDB \<lparr>pc_ConnString = ''postgres://db'', MaxConns = 50, MinConns = 10, MaxConnLifetime = 3600, MaxConnIdleTime = 1800\<rparr>,
    OpenedRedis ''redis://localhost:6379/0'', StartedWorker ReconciliationWorker, Serving '':8080'', ShutDown True, ClosedRedis, ClosedDB]"
  have run: "main demo_boot demo_vars orderly = ?us @ [Exit 0]" by code_simp
  from process_lifecycle [OF this] run
  show "\<exists>us. main demo_boot demo_vars orderly = us @ [Exit 0] \<and> Serving '':8080'' \<in> set us \<and> proper_event demo_boot demo_vars orderly us (Exit 0)"
    by (intro exI [of _ ?us]) simp
  show "last (main demo_boot demo_vars [Bound, ListenReturned (Some (DriverError ''accept''))]) = Exit 1" by code_simp
qed

end
