(* ===== verification/Demo_Fund.thy ===== *)
theory Demo_Fund
  imports Payments
begin

text \<open>
  The demo endpoint from request to balance (\<open>HandleDemoFund\<close> of \<open>internal/payments/handler.go\<close>): the event it
  writes with \<open>json.Marshal\<close> is the one \<open>ProcessWebhook\<close> reads, names the payment just created and credits it,
  and without a successful draw of the provider simulator nothing is credited.
\<close>

section \<open>The event is read back\<close>

lemma utf8_clean_ascii: "\<forall>c \<in> set s. byte c < 0x80 \<Longrightarrow> utf8_clean s = s"
  by (induction s rule: utf8_clean.induct) (auto simp: rune_tail_def)

lemma letters_ascii: "\<forall>c \<in> set letters. byte c < 0x80"
  by (simp add: letters_def byte_def)

text \<open>\<open>rand.Intn(n)\<close> is below \<open>n\<close>.\<close>

definition draws_in_range :: "env \<Rightarrow> bool" where
  "draws_in_range E \<longleftrightarrow> (\<forall>t n. 0 < n \<longrightarrow> rand_Intn E t n < n)"

lemma reference_ascii:
  assumes "draws_in_range E"
  shows "\<forall>c \<in> set (generateRandomString E t n). byte c < 0x80"
proof (induction n arbitrary: t)
  case (Suc n)
  have "rand_Intn E t (length letters) < length letters" using assms by (simp add: draws_in_range_def letters_def)
  then have "letters ! rand_Intn E t (length letters) \<in> set letters" by (rule nth_mem)
  with Suc letters_ascii show ?case by simp
qed simp

lemma demo_payload_read:
  "json_Unmarshal (json_Marshal (demo_payload p)) = Some (json_clean (demo_payload p))"
  by (rule json_Unmarshal_Marshal) (simp_all add: demo_payload_def max_depth_def)

lemma json_fold_const:
  "json_fold ''event_id'' = ''event_id''" "json_fold ''event_type'' = ''event_type''"
  "json_fold ''reference_id'' = ''reference_id''" "json_fold ''status'' = ''status''"
  by code_simp+

lemma clean_const:
  "utf8_clean ''event_id'' = ''event_id''" "utf8_clean ''event_type'' = ''event_type''"
  "utf8_clean ''reference_id'' = ''reference_id''" "utf8_clean ''status'' = ''status''"
  "utf8_clean ''payment.succeeded'' = ''payment.succeeded''" "utf8_clean ''SUCCEEDED'' = ''SUCCEEDED''"
  by code_simp+

lemma demo_payload_decoded:
  "decode_WebhookPayload (json_clean (demo_payload p)) =
     Inr \<lparr>wh_EventID = utf8_clean (''demo-event-'' @ p_ID p), wh_EventType = ''payment.succeeded'',
          wh_ReferenceID = utf8_clean (p_ProviderReference p), wh_Status = StatusSucceeded\<rparr>"
  by (simp add: demo_payload_def decode_WebhookPayload_def clean_const json_fold_const rbind_def StatusSucceeded_def
      del: utf8_clean.simps)

section \<open>The payment and its credit\<close>

definition provider_declines :: "env \<Rightarrow> nat \<Rightarrow> bool" where
  "provider_declines E t \<longleftrightarrow> rand_Float32 E (t + 13) < 13421773 / 134217728"

lemma generateRandomString_length: "length (generateRandomString E t n) = n"
  by (induction n arbitrary: t) simp_all

text \<open>A payment that \<open>CreatePayment\<close> returns is the last row of the table, under the reference of the simulator.\<close>

lemma CreatePayment_Inr:
  assumes run: "CreatePayment E walletID amount currency w = (Inr p, w')" and vx: "varchar_exact E"
  obtains row where "db w' = (db w)\<lparr>payments := payments (db w) @ [row]\<rparr>"
    "p_ProviderReference row \<notin> p_ProviderReference ` set (payments (db w))"
    "p_ProviderReference row = p_ProviderReference p" "p_ProviderReference p = ''ext_'' @ generateRandomString E (tick w + 1) 12"
    "uuid_in E walletID = Some (p_WalletID row)" "p_Amount row = amount" "0 < sint amount"
    "p_Status row = (if provider_declines E (tick w) then ''FAILED'' else ''PROCESSING'')"
proof -
  let ?st = "if provider_declines E (tick w) then payments_StatusFailed else StatusProcessing"
  let ?ref = "''ext_'' @ generateRandomString E (tick w + 1) 12"
  let ?p = "\<lparr>p_ID = '''', p_WalletID = walletID, p_Amount = amount, p_Currency = currency,
    p_Status = ?st, p_ProviderReference = ?ref, p_CreatedAt = 0, p_UpdatedAt = 0\<rparr>"
  let ?w = "w\<lparr>tick := tick w + 14\<rparr>"
  from run obtain i c u w1 where st: "sql E (sql_insert_payment E ?p) ?w = (Inr (i, c, u), w1)"
    and w': "db w' = db w1" and p: "p_ProviderReference p = ?ref"
    by (auto simp: CreatePayment_def mbind_def ProcessPayment_def Let_def mmetrics_def mret_def provider_declines_def
        split: sum.splits prod.splits)
  have ref: "v = ?ref" if "varchar_in E 255 ?ref = Some v" for v
    using varchar_exactD [OF vx that] by (simp add: generateRandomString_length)
  have sta: "v = (if provider_declines E (tick w) then ''FAILED'' else ''PROCESSING'')" if "varchar_in E 50 ?st = Some v" for v
    using varchar_exactD [OF vx that] by (simp add: const_defs split: if_splits)
  from st obtain wid cur sv rv row where
    "uuid_in E walletID = Some wid" "varchar_in E 50 ?st = Some sv" "varchar_in E 255 ?ref = Some rv"
    "row = \<lparr>p_ID = gen_random_uuid E (tick ?w), p_WalletID = wid, p_Amount = amount, p_Currency = cur, p_Status = sv,
       p_ProviderReference = rv, p_CreatedAt = NOW E ?w, p_UpdatedAt = NOW E ?w\<rparr>"
    "insert_payments row (db w) = Inr (db w1)"
    by (auto simp: sql_Inr_iff sql_insert_payment_def run_simps)
  with ref [of rv] sta [of sv] w' p show thesis
    by (intro that [of row]) (auto simp: row_simps)
qed

section \<open>The endpoint\<close>

lemma demo_fund_books:
  assumes run: "HandleDemoFund E rq w = (resp, w')" and ok: "pg_ok E" and inv: "payment_inv E (db w)"
    and dist: "wallet_ids_distinct (db w)" and draws: "draws_in_range E"
  shows "(abs_balances (db w') = abs_balances (db w) \<and> total_available (db w') = total_available (db w) \<and>
       resp_status resp \<in> {400, 500}) \<or>
    (\<exists>req wid b. rbind (decode_body rq) decode_CreatePaymentRequest = Inr req \<and> \<not> provider_declines E (tick w) \<and>
       uuid_in E (cp_WalletID req) = Some wid \<and> 0 < sint (cp_Amount req) \<and> abs_balances (db w) wid = Some b \<and>
       abs_balances (db w') = (abs_balances (db w))(wid \<mapsto> b + sint (cp_Amount req)) \<and>
       total_available (db w') = total_available (db w) + sint (cp_Amount req) \<and> resp_status resp \<in> {200, 500})"
proof (cases "rbind (decode_body rq) decode_CreatePaymentRequest")
  case (Inl e)
  with run show ?thesis by (auto simp: HandleDemoFund_def http_Error_def)
next
  case (Inr req)
  obtain r w1 where create: "CreatePayment E (cp_WalletID req) (cp_Amount req) (cp_Currency req) w = (r, w1)" by fastforce
  have same: "wallets (db w1) = wallets (db w)" using create by (rule CreatePayment_cases) simp_all
  then have ab: "abs_balances (db w1) = abs_balances (db w)" "total_available (db w1) = total_available (db w)"
    by (simp_all add: abs_balances_def total_available_def fun_eq_iff)
  show ?thesis
  proof (cases r)
    case Inl': (Inl e)
    with run Inr create ab show ?thesis by (auto simp: HandleDemoFund_def http_Error_def)
  next
    case Inr': (Inr p)
    obtain row where row: "db w1 = (db w)\<lparr>payments := payments (db w) @ [row]\<rparr>"
      "p_ProviderReference row \<notin> p_ProviderReference ` set (payments (db w))"
      "p_ProviderReference row = p_ProviderReference p" "p_ProviderReference p = ''ext_'' @ generateRandomString E (tick w + 1) 12"
      "uuid_in E (cp_WalletID req) = Some (p_WalletID row)" "p_Amount row = cp_Amount req" "0 < sint (cp_Amount req)"
      "p_Status row = (if provider_declines E (tick w) then ''FAILED'' else ''PROCESSING'')"
      using CreatePayment_Inr [OF create [unfolded Inr']] ok by (auto simp: pg_ok_def)
    obtain r2 w2 where hook: "ProcessWebhook E ''simulator'' (json_Marshal (demo_payload p)) w1 = (r2, w2)" by fastforce
    from run Inr create Inr' hook have w': "w' = w2" and st: "resp_status resp = (if isl r2 then 500 else 200)"
      by (auto simp: HandleDemoFund_def http_Error_def split: sum.splits)
    have can: "payment_ids_canonical E (db w1)"
      using CreatePayment_payment_inv [OF create ok inv] by (simp add: payment_inv_def)
    show ?thesis using hook can
    proof (cases rule: ProcessWebhook_cases)
      case unchanged
      with w' st ab show ?thesis by simp
    next
      case (applied j event q wl)
      have clean: "utf8_clean (p_ProviderReference p) = p_ProviderReference p"
        using reference_ascii [OF draws, of "tick w + 1" 12] by (intro utf8_clean_ascii) (auto simp: row(4) byte_def)
      from applied(1,2) have ev: "wh_ReferenceID event = p_ProviderReference p" "wh_Status event = StatusSucceeded"
        by (auto simp: demo_payload_read demo_payload_decoded clean)
      have "row_with p_ProviderReference (p_ProviderReference row) (payments (db w)) = None"
        using row(2) by (simp add: row_with_None_iff)
      with applied(3) ev(1) row(1,3) have q: "q = row"
        by (simp add: webhook_applied_def row_with_append)
      have d1: "wallet_ids_distinct (db w1)" using dist same by (simp add: wallet_ids_distinct_def)
      from webhook_applied_credit [OF applied(3) ev(2) d1, unfolded q ab] row(5-8) Inr w' st show ?thesis
        by (intro disjI2 exI [of _ req] exI [of _ "p_WalletID row"]) (auto split: if_splits)
    qed
  qed
qed

text \<open>
  C17: the demo endpoint credits what was asked, or nothing. The event that \<open>HandleDemoFund\<close> writes is read back by
  \<open>ProcessWebhook\<close> as the success of the payment it has just created: the wallet of the request gains exactly the
  amount of the request, which is positive, and no other wallet changes; otherwise no balance changes and the answer
  is an error. When the provider simulator declines, one time in ten, nothing is credited.
\<close>

theorem demo_fund_credits:
  assumes "HandleDemoFund E rq w = (resp, w')" and "pg_ok E" and "payment_inv E (db w)"
    and "wallet_ids_distinct (db w)" and "draws_in_range E"
  shows "(abs_balances (db w') = abs_balances (db w) \<and> total_available (db w') = total_available (db w) \<and>
       resp_status resp \<in> {400, 500}) \<or>
    (\<exists>req wid b. rbind (decode_body rq) decode_CreatePaymentRequest = Inr req \<and> \<not> provider_declines E (tick w) \<and>
       uuid_in E (cp_WalletID req) = Some wid \<and> 0 < sint (cp_Amount req) \<and> abs_balances (db w) wid = Some b \<and>
       abs_balances (db w') = (abs_balances (db w))(wid \<mapsto> b + sint (cp_Amount req)) \<and>
       total_available (db w') = total_available (db w) + sint (cp_Amount req) \<and> resp_status resp \<in> {200, 500})"
  by (rule demo_fund_books [OF assms])

definition fund_request :: request where
  \<open>fund_request = demo_webhook_request\<lparr>rq_body := Some ''{"wallet_id": "WALLET-A", "amount": 7, "currency": "USD"}''\<rparr>\<close>

theorem demo_fund_credits_witness:
  "abs_balances (db (snd (HandleDemoFund demo_env fund_request demo_funded))) =
     (abs_balances (db demo_funded))(''wallet-a'' \<mapsto> 107)"
proof -
  obtain resp w' where run: "HandleDemoFund demo_env fund_request demo_funded = (resp, w')" by (meson surj_pair)
  have "resp_status (fst (HandleDemoFund demo_env fund_request demo_funded)) = 200" by code_simp
  with run have ok: "resp_status resp = 200" by simp
  have "draws_in_range demo_env" by (simp add: draws_in_range_def demo_env_def)
  moreover have "wallet_ids_distinct (db demo_funded)" by code_simp
  ultimately obtain req wid b where "rbind (decode_body fund_request) decode_CreatePaymentRequest = Inr req"
    "uuid_in demo_env (cp_WalletID req) = Some wid" "abs_balances (db demo_funded) wid = Some b"
    "abs_balances (db w') = (abs_balances (db demo_funded))(wid \<mapsto> b + sint (cp_Amount req))"
    using demo_fund_credits [OF run demo_pg_ok demo_payment_inv] ok by auto
  moreover have "rbind (decode_body fund_request) decode_CreatePaymentRequest =
      Inr \<lparr>cp_WalletID = ''WALLET-A'', cp_Amount = 7, cp_Currency = ''USD''\<rparr>" by code_simp
  moreover have "uuid_in demo_env ''WALLET-A'' = Some ''wallet-a''" "abs_balances (db demo_funded) ''wallet-a'' = Some 100"
    by code_simp+
  ultimately show ?thesis using run by auto
qed

end
