(* ===== verification/Webhook_Script.thy ===== *)
theory Webhook_Script
  imports Server
begin

text \<open>
  The script \<open>scripts/simulate_webhook.go\<close>, which plays the payment provider: the event it sends and how the
  server answers it. Run again after a success it changes nothing.
\<close>

definition simulate_secret :: string where
  "simulate_secret = ''super_secret_key_change_me_in_prod''"

text \<open>A line of the raw string with its two tabs.\<close>

definition indented :: "string \<Rightarrow> string" where
  "indented t = [CHR 0x0A, CHR 0x09, CHR 0x09] @ t"

definition simulate_payload :: string where
  \<open>simulate_payload = ''{'' @ indented ''"event_id": "evt_001",'' @ indented ''"event_type": "payment.succeeded",'' @
     indented ''"reference_id": "ext_9ULXnvqaGSPG",'' @ indented ''"status": "SUCCEEDED"'' @ [CHR 0x0A, CHR 0x09] @ ''}''\<close>

definition simulate_request :: "env \<Rightarrow> string \<Rightarrow> request" where
  "simulate_request E peer =
     \<lparr>rq_method = ''POST'', rq_path = [''api'', ''v1'', ''webhooks'', ''payment-provider''],
      rq_header = (\<lambda>h. if h = ''X-Webhook-Signature'' then hmac_sha256_hex E simulate_secret simulate_payload
                      else if h = ''Content-Type'' then ''application/json'' else ''''),
      rq_body = Some simulate_payload, rq_id = '''', rq_remote_addr = peer, rq_claims = None\<rparr>"

text \<open>What the script prints; \<open>send\<close> is \<open>http.DefaultClient.Do\<close>.\<close>

datatype printed = PrintedError error | PrintedStatus int

definition simulate_webhook :: "(request \<Rightarrow> world \<Rightarrow> (error + response) \<times> world) \<Rightarrow> env \<Rightarrow> string \<Rightarrow> world \<Rightarrow> printed \<times> world" where
  "simulate_webhook send E peer w =
     (case send (simulate_request E peer) w of
        (Inl e, w1) \<Rightarrow> (PrintedError e, w1)
      | (Inr resp, w1) \<Rightarrow> (PrintedStatus (resp_status resp), w1))"

text \<open>A request that reaches the routes of the server, past the stack of middlewares.\<close>

definition delivered_to :: "handler \<Rightarrow> request \<Rightarrow> world \<Rightarrow> (error + response) \<times> world" where
  "delivered_to h rq w = (case h rq w of (resp, w1) \<Rightarrow> (Inr resp, w1))"

definition simulate_event :: WebhookPayload where
  "simulate_event = \<lparr>wh_EventID = ''evt_001'', wh_EventType = ''payment.succeeded'',
     wh_ReferenceID = ''ext_9ULXnvqaGSPG'', wh_Status = ''SUCCEEDED''\<rparr>"

definition simulate_document :: json where
  "simulate_document = JObject
     [(''event_id'', JString ''evt_001''), (''event_type'', JString ''payment.succeeded''),
      (''reference_id'', JString ''ext_9ULXnvqaGSPG''), (''status'', JString ''SUCCEEDED'')]"

lemma simulate_payload_read: "json_Unmarshal simulate_payload = Some simulate_document"
  by code_simp

lemma simulate_document_decoded: "decode_WebhookPayload simulate_document = Inr simulate_event"
  by code_simp

lemma simulate_routed:
  assumes "chi_method C ''POST''"
  shows "routes C L E cfg (simulate_request E peer) = HandleWebhook E (cfg_JWTSecret cfg) (simulate_request E peer)"
  using assms by (simp add: fun_eq_iff routes_def api_routes_def by_method_def simulate_request_def)

text \<open>The script knows the secret of \<open>docker-compose.yml\<close>; a server with another one refuses it.\<close>

lemma simulate_other_secret:
  assumes "hmac_sha256_hex E secret simulate_payload \<noteq> hmac_sha256_hex E simulate_secret simulate_payload"
  shows "simulate_webhook (delivered_to (HandleWebhook E secret)) E peer w = (PrintedStatus 401, w)"
  using assms
  by (simp add: simulate_webhook_def delivered_to_def HandleWebhook_def simulate_request_def Let_def http_Error_def
      VerifyWebhookSignature_def GenerateWebhookSignature_def)

text \<open>
  Run twice, the event counts once: after a run that changed the database the next one is acknowledged
  with 200 again and changes nothing.
\<close>

lemma simulate_twice:
  assumes run: "simulate_webhook (delivered_to (HandleWebhook E simulate_secret)) E peer w = (out, w1)" and ch: "db w1 \<noteq> db w"
    and ff: "fault_free E" and vx: "varchar_exact E" and can: "payment_ids_canonical E (db w)"
    and js: "jsonb_text_in E simulate_payload \<noteq> None" and ty: "varchar_in E 100 ''payment.succeeded'' \<noteq> None"
  shows "out = PrintedStatus 200 \<and>
    simulate_webhook (delivered_to (HandleWebhook E simulate_secret)) E peer w1 = (PrintedStatus 200, w1\<lparr>tick := tick w1 + 2\<rparr>)"
proof -
  from run ch have sig: "hmac_sha256_hex E simulate_secret simulate_payload \<noteq> []"
    by (auto simp: simulate_webhook_def delivered_to_def HandleWebhook_def simulate_request_def Let_def http_Error_def)
  obtain r w0 where hook: "ProcessWebhook E ''simulator'' simulate_payload w = (r, w0)" by fastforce
  with run sig have w0: "w0 = w1" and out: "r = Inr () \<Longrightarrow> out = PrintedStatus 200"
    by (auto simp: simulate_webhook_def delivered_to_def HandleWebhook_def simulate_request_def Let_def http_Error_def
        VerifyWebhookSignature_def GenerateWebhookSignature_def split: if_splits sum.splits)
  from hook have tx: "withTx E (webhook_body E ''simulator'' simulate_event simulate_payload) w = (r, w1)"
    by (simp add: ProcessWebhook_def simulate_payload_read simulate_document_decoded w0)
  have r: "r = Inr ()" and start: "tx_start w1 = None"
  proof -
    show "r = Inr ()"
    proof (cases r)
      case (Inl e)
      with tx ff ch show ?thesis
        by (cases "webhook_body E ''simulator'' simulate_event simulate_payload (tx_begin E w)"; cases "fst (webhook_body E ''simulator'' simulate_event simulate_payload (tx_begin E w))")
           (auto simp: withTx_run withTx_run_err)
    qed simp
    with tx show "tx_start w1 = None" using withTx_InrD [of E _ w "()" w1] by fastforce
  qed
  from hook can obtain p wl where app: "webhook_applied E ''simulator'' simulate_event p wl (db w) (db w1)"
    using ch by (cases rule: ProcessWebhook_cases) (auto simp: simulate_payload_read simulate_document_decoded w0)
  then have ex: "(''simulator'', ''evt_001'') \<in> (\<lambda>x. (we_Provider x, we_EventID x)) ` set (webhook_events (db w1))"
    using varchar_exactD [OF vx] unfolding webhook_applied_def
    by (elim conjE exE) (force simp: simulate_event_def)
  from app obtain pv eid where v: "varchar_in E 50 ''simulator'' = Some pv" "varchar_in E 255 (wh_EventID simulate_event) = Some eid"
    unfolding webhook_applied_def by auto
  with varchar_exactD [OF vx v(1)] varchar_exactD [OF vx v(2)] have pe: "pv = ''simulator''" "eid = ''evt_001''"
    by (auto simp: simulate_event_def)
  from js ty obtain pl ety where "jsonb_text_in E simulate_payload = Some pl" "varchar_in E 100 (wh_EventType simulate_event) = Some ety"
    by (auto simp: simulate_event_def)
  from ProcessWebhook_duplicate [OF ff simulate_payload_read simulate_document_decoded v this(2,1) _ start] ex
  have "ProcessWebhook E ''simulator'' simulate_payload w1 = (Inl ErrDuplicateWebhook, w1\<lparr>tick := tick w1 + 2\<rparr>)"
    by (simp add: pe)
  with out [OF r] sig show ?thesis
    by (simp add: simulate_webhook_def delivered_to_def HandleWebhook_def simulate_request_def Let_def http_Error_def
        VerifyWebhookSignature_def GenerateWebhookSignature_def)
qed

end
