(* ===== verification/Outbox_Concurrency.thy ===== *)
theory Outbox_Concurrency
  imports Table_Contract
begin

text \<open>
  Several outbox workers at the same time, one per process of the service. Each statement and each produce of
  \<open>processBatch\<close> is a step, and the steps of all workers, of requests and of reconciliation runs interleave. The query
  of \<open>FetchPendingEvents\<close> locks nothing, so that two workers can take the same event. Shown are: a worker alone is
  \<open>processBatch\<close>; delivery holds for any number of workers; the number of failed attempts grows by at most one per
  further worker; and a published event can be taken back.
\<close>

section \<open>What requests add to the outbox\<close>

definition fresh_event :: "env \<Rightarrow> Event \<Rightarrow> bool" where
  "fresh_event E ev \<longleftrightarrow>
     ev_Status ev = outbox_StatusPending \<and> ev_Attempts ev = 0 \<and> ev_ID ev \<in> range (gen_random_uuid E)"

definition feeds_outbox :: "env \<Rightarrow> db \<Rightarrow> db \<Rightarrow> bool" where
  "feeds_outbox E d d' \<longleftrightarrow>
     (\<exists>new. outbox_events d' = outbox_events d @ new \<and> (\<forall>ev \<in> set new. fresh_event E ev)) \<and>
     (distinct (map ev_ID (outbox_events d)) \<longrightarrow> distinct (map ev_ID (outbox_events d')))"

lemma feeds_outbox_same: "outbox_events d' = outbox_events d \<Longrightarrow> feeds_outbox E d d'"
  by (simp add: feeds_outbox_def)

lemma feeds_outbox_append:
  "fresh_event E ev \<Longrightarrow> ev_ID ev \<notin> ev_ID ` set (outbox_events d) \<Longrightarrow> feeds_outbox E d (d\<lparr>outbox_events := outbox_events d @ [ev]\<rparr>)"
  by (auto simp: feeds_outbox_def)

lemma feeds_outbox_trans: "feeds_outbox E d1 d2 \<Longrightarrow> feeds_outbox E d2 d3 \<Longrightarrow> feeds_outbox E d1 d3"
  unfolding feeds_outbox_def by (metis append.assoc set_append Un_iff)

interpretation feeding: statement_contract "feeds_outbox E" L E "\<lambda>_. True" for E L
  by unfold_locales (auto simp: row_simps fresh_event_def
      intro: feeds_outbox_same feeds_outbox_trans feeds_outbox_append split: option.splits)

text \<open>The other transactions: a request to the server or a reconciliation run.\<close>

inductive served :: "http_lib \<Rightarrow> authlib \<Rightarrow> env \<Rightarrow> Config \<Rightarrow> bool \<Rightarrow> db \<Rightarrow> db \<Rightarrow> bool"
  for C L E cfg hasRedis where
    request: "served C L E cfg hasRedis (db w) (db (snd (NewServer C L E cfg hasRedis rq w)))"
  | reconciliation: "served C L E cfg hasRedis (db w) (db (snd (RunReconciliation E w)))"

lemma served_feeds:
  assumes "prom_reads C" and "served C L E cfg hasRedis d d'"
  shows "feeds_outbox E d d'"
  using assms(2)
proof (cases rule: served.cases)
  case (request w rq)
  have "feeding.admits L E (cfg_JWTSecret cfg) rq" by (simp add: feeding.admits_def)
  from feeding.server [OF assms(1) this] request show ?thesis by simp
next
  case (reconciliation w)
  then show ?thesis using feeding.reconciliation by simp
qed

section \<open>Workers that interleave\<close>

text \<open>Where a worker is in \<open>processBatch\<close>: between ticks, before the next produce, or before the mark of an event.\<close>

datatype outbox_worker = Waiting | Sending "Event list" | Sent Event "error + unit" "Event list"

fun worker_step :: "env \<Rightarrow> outbox_worker \<Rightarrow> world \<Rightarrow> outbox_worker \<times> world" where
  "worker_step E Waiting w =
     (case FetchPendingEvents E 50 w of
        (Inl e, w1) \<Rightarrow> (Waiting, w1)
      | (Inr events, w1) \<Rightarrow> (Sending events, w1))"
| "worker_step E (Sending []) w = (Waiting, w)"
| "worker_step E (Sending (ev # evs)) w = (case Publish E (ev_Topic ev) (ev_Payload ev) w of (r, w1) \<Rightarrow> (Sent ev r evs, w1))"
| "worker_step E (Sent ev (Inl err) evs) w = (Sending evs, snd (MarkFailed E (ev_ID ev) err w))"
| "worker_step E (Sent ev (Inr u) evs) w = (Sending evs, snd (MarkPublished E (ev_ID ev) w))"

record pool =
  pw :: world
  pool_workers :: "outbox_worker list"

text \<open>\<open>other\<close> is a transaction of another part of the system; meanwhile the clock moves on.\<close>

inductive pool_step :: "env \<Rightarrow> (db \<Rightarrow> db \<Rightarrow> bool) \<Rightarrow> pool \<Rightarrow> pool \<Rightarrow> bool" for E other where
    worker: "i < length (pool_workers p) \<Longrightarrow> worker_step E (pool_workers p ! i) (pw p) = (k, w) \<Longrightarrow>
      pool_step E other p (p\<lparr>pw := w, pool_workers := (pool_workers p)[i := k]\<rparr>)"
  | foreign: "other (db (pw p)) d \<Longrightarrow> tick (pw p) \<le> t \<Longrightarrow> pool_step E other p (p\<lparr>pw := (pw p)\<lparr>db := d, tick := t\<rparr>\<rparr>)"

definition workers_started :: "nat \<Rightarrow> world \<Rightarrow> pool" where
  "workers_started n w = \<lparr>pw = w, pool_workers = replicate n Waiting\<rparr>"

text \<open>A schedule of workers alone.\<close>

fun run_workers :: "env \<Rightarrow> nat list \<Rightarrow> pool \<Rightarrow> pool" where
  "run_workers E [] p = p"
| "run_workers E (i # is) p =
     (if i < length (pool_workers p)
      then case worker_step E (pool_workers p ! i) (pw p) of
             (k, w) \<Rightarrow> run_workers E is (p\<lparr>pw := w, pool_workers := (pool_workers p)[i := k]\<rparr>)
      else run_workers E is p)"

lemma run_workers_pool: "(pool_step E other)\<^sup>*\<^sup>* p (run_workers E is p)"
proof (induction "is" arbitrary: p)
  case (Cons i "is")
  show ?case
  proof (cases "i < length (pool_workers p)")
    case True
    obtain k w where k: "worker_step E (pool_workers p ! i) (pw p) = (k, w)" by (meson surj_pair)
    with pool_step.worker [OF True k] Cons.IH True show ?thesis by (auto intro: converse_rtranclp_into_rtranclp)
  qed (use Cons.IH in simp)
qed simp

section \<open>One worker alone\<close>

lemma worker_sends:
  "((\<lambda>(k, w). worker_step E k w) ^^ (Suc (2 * length evs))) (Sending evs, w) = (Waiting, snd (publish_events E evs w))"
proof (induction evs arbitrary: w)
  case Nil
  then show ?case by (simp add: mret_def)
next
  case (Cons ev evs)
  obtain r w1 where p: "Publish E (ev_Topic ev) (ev_Payload ev) w = (r, w1)" by (meson surj_pair)
  let ?w2 = "case r of Inl err \<Rightarrow> snd (MarkFailed E (ev_ID ev) err w1) | Inr u \<Rightarrow> snd (MarkPublished E (ev_ID ev) w1)"
  have two: "worker_step E (Sending (ev # evs)) w = (Sent ev r evs, w1)" "worker_step E (Sent ev r evs) w1 = (Sending evs, ?w2)"
    using p by (auto split: sum.split)
  have "publish_event E ev w = (Inr (), ?w2)"
    using p by (auto simp: publish_event_def mbind_def mtry_def mret_def split: sum.split prod.split)
  then have "snd (publish_events E (ev # evs) w) = snd (publish_events E evs ?w2)" by (simp add: mbind_def)
  with Cons.IH [of ?w2] two show ?case by (simp add: funpow_swap1 del: worker_step.simps)
qed

text \<open>A worker that is not interrupted does what \<open>processBatch\<close> does, and waits for the next tick.\<close>

lemma worker_alone:
  "\<exists>n. ((\<lambda>(k, w). worker_step E k w) ^^ Suc n) (Waiting, w) = (Waiting, snd (processBatch E w))"
proof -
  obtain r w1 where f: "FetchPendingEvents E 50 w = (r, w1)" by (meson surj_pair)
  show ?thesis
  proof (cases r)
    case (Inl e)
    with f show ?thesis by (intro exI [of _ 0]) (simp add: processBatch_def mbind_def mtry_def mret_def)
  next
    case (Inr evs)
    with f have "worker_step E Waiting w = (Sending evs, w1)" "snd (processBatch E w) = snd (publish_events E evs w1)"
      by (simp_all add: processBatch_def mbind_def mtry_def)
    with worker_sends [where E = E and evs = evs and w = w1] show ?thesis
      by (intro exI [of _ "Suc (2 * length evs)"]) (simp add: funpow_swap1 del: worker_step.simps)
  qed
qed

section \<open>The invariant of the pool\<close>

fun held :: "outbox_worker \<Rightarrow> Event list" where
  "held Waiting = []"
| "held (Sending evs) = evs"
| "held (Sent ev r evs) = ev # evs"

text \<open>The workers that still have to mark the event \<open>i\<close>.\<close>

definition holds :: "string \<Rightarrow> outbox_worker \<Rightarrow> int" where
  "holds i k = of_bool (i \<in> ev_ID ` set (held k))"

definition holders :: "string \<Rightarrow> outbox_worker list \<Rightarrow> int" where
  "holders i ks = sum_list (map (holds i) ks)"

definition row_ok :: "(string \<times> json) set \<Rightarrow> Event \<Rightarrow> bool" where
  "row_ok K ev \<longleftrightarrow>
     0 \<le> ev_Attempts ev \<and>
     ((ev_Status ev = outbox_StatusPending \<and> ev_Attempts ev \<le> 5) \<or>
      (ev_Status ev = outbox_StatusFailed \<and> 6 \<le> ev_Attempts ev) \<or>
      (ev_Status ev = outbox_StatusPublished \<and> (ev_Topic ev, ev_Payload ev) \<in> K))"

definition copy_of :: "Event list \<Rightarrow> Event \<Rightarrow> bool" where
  "copy_of rows ev \<longleftrightarrow> (\<exists>x \<in> set rows. ev_ID x = ev_ID ev \<and> ev_Topic x = ev_Topic ev \<and> ev_Payload x = ev_Payload ev)"

definition worker_ok :: "(string \<times> json) set \<Rightarrow> Event list \<Rightarrow> outbox_worker \<Rightarrow> bool" where
  "worker_ok K rows k \<longleftrightarrow>
     distinct (map ev_ID (held k)) \<and> (\<forall>ev \<in> set (held k). copy_of rows ev) \<and>
     (\<forall>ev u evs. k = Sent ev (Inr u) evs \<longrightarrow> (ev_Topic ev, ev_Payload ev) \<in> K)"

definition pool_inv :: "env \<Rightarrow> (string \<times> json) set \<Rightarrow> Event list \<Rightarrow> outbox_worker list \<Rightarrow> bool" where
  "pool_inv E K rows ks \<longleftrightarrow>
     distinct (map ev_ID rows) \<and> (\<forall>x \<in> set rows. uuid_in E (ev_ID x) = Some (ev_ID x) \<and> row_ok K x) \<and>
     (\<forall>k \<in> set ks. worker_ok K rows k) \<and>
     (\<forall>x \<in> set rows. ev_Attempts x + holders (ev_ID x) ks \<le> 5 + int (length ks))"

definition pool_ok :: "env \<Rightarrow> pool \<Rightarrow> bool" where
  "pool_ok E p \<longleftrightarrow> pool_inv E (set (kafka_log (pw p))) (outbox_events (db (pw p))) (pool_workers p)"

lemma holds_le: "0 \<le> holds i k \<and> holds i k \<le> 1"
  by (simp add: holds_def)

lemma holders_le: "holders i ks \<le> int (length ks)"
proof (induction ks)
  case (Cons k ks)
  with holds_le [of i k] show ?case by (simp add: holders_def)
qed (simp add: holders_def)

lemma holders_update:
  "j < length ks \<Longrightarrow> holders i (ks[j := k]) = holders i ks - holds i (ks ! j) + holds i k"
proof (induction ks arbitrary: j)
  case (Cons a ks)
  then show ?case by (cases j) (auto simp: holders_def)
qed simp

lemma row_ok_mono: "row_ok K x \<Longrightarrow> K \<subseteq> K' \<Longrightarrow> row_ok K' x"
  by (auto simp: row_ok_def)

lemma worker_ok_mono: "worker_ok K rows k \<Longrightarrow> K \<subseteq> K' \<Longrightarrow> worker_ok K' rows k"
  by (auto simp: worker_ok_def)

text \<open>The rows keep what a worker has copied.\<close>

lemma worker_ok_rows:
  assumes "worker_ok K rows k" and "\<And>ev. copy_of rows ev \<Longrightarrow> copy_of rows' ev"
  shows "worker_ok K rows' k"
  using assms by (auto simp: worker_ok_def)

lemma pool_inv_workers:
  assumes inv: "pool_inv E K rows ks" and K: "K \<subseteq> K'" and j: "j < length ks"
    and k: "worker_ok K' rows k" and h: "\<And>x. x \<in> set rows \<Longrightarrow> holds (ev_ID x) k \<le> holds (ev_ID x) (ks ! j) \<or> ev_Attempts x \<le> 5"
  shows "pool_inv E K' rows (ks[j := k])"
proof -
  have "ev_Attempts x + holders (ev_ID x) (ks[j := k]) \<le> 5 + int (length ks)" if "x \<in> set rows" for x
    using h [OF that] holders_le [of "ev_ID x" "ks[j := k]"] inv that by (auto simp: pool_inv_def holders_update [OF j])
  moreover have "\<forall>k' \<in> set (ks[j := k]). worker_ok K' rows k'"
    using inv k worker_ok_mono [OF _ K] by (auto simp: pool_inv_def dest!: subsetD [OF set_update_subset_insert])
  ultimately show ?thesis using inv row_ok_mono [OF _ K] by (auto simp: pool_inv_def)
qed

section \<open>Every step keeps it\<close>

lemma fetched_ok:
  assumes "pool_inv E K rows ks" and "j < length ks" and "ks ! j = Waiting"
  shows "pool_inv E K rows (ks[j := Sending (map (\<lambda>ev. ev\<lparr>ev_ErrorMsg := None\<rparr>) (due_events t n rows))])"
proof (rule pool_inv_workers [OF assms(1) subset_refl assms(2)])
  have sub: "set (due_events t n rows) \<subseteq> set rows" using due_events_sub by fastforce
  have "distinct (map ev_ID (due_events t n rows))" using assms(1) by (simp add: pool_inv_def due_events_distinct)
  with sub show "worker_ok K rows (Sending (map (\<lambda>ev. ev\<lparr>ev_ErrorMsg := None\<rparr>) (due_events t n rows)))"
    by (auto simp: worker_ok_def copy_of_def comp_def)
  fix x assume x: "x \<in> set rows"
  show "holds (ev_ID x) (Sending (map (\<lambda>ev. ev\<lparr>ev_ErrorMsg := None\<rparr>) (due_events t n rows))) \<le> holds (ev_ID x) (ks ! j) \<or> ev_Attempts x \<le> 5"
  proof (cases "ev_ID x \<in> ev_ID ` set (due_events t n rows)")
    case True
    then obtain y where y: "y \<in> set (due_events t n rows)" "ev_ID y = ev_ID x" by auto
    with assms(1) x sub have "y = x" by (auto simp: pool_inv_def distinct_map inj_on_def)
    with y due_events_sub [of t n rows] have "ev_Status x = outbox_StatusPending" by auto
    with assms(1) x show ?thesis by (auto simp: pool_inv_def row_ok_def const_defs)
  next
    case False
    then have "holds (ev_ID x) (Sending (map (\<lambda>ev. ev\<lparr>ev_ErrorMsg := None\<rparr>) (due_events t n rows))) = 0"
      by (auto simp: holds_def image_iff)
    then show ?thesis using holds_le by simp
  qed
qed

text \<open>A mark rewrites the row of the event, which the worker then no longer holds.\<close>

lemma marked_ok:
  assumes inv: "pool_inv E K rows ks" and j: "j < length ks" and k: "ks ! j = Sent ev r evs"
    and f: "\<And>x. ev_ID (f x) = ev_ID x \<and> ev_Topic (f x) = ev_Topic x \<and> ev_Payload (f x) = ev_Payload x \<and> ev_Attempts (f x) \<le> ev_Attempts x + 1"
    and ok: "\<And>x. x \<in> set rows \<Longrightarrow> ev_ID x = ev_ID ev \<Longrightarrow> row_ok K x \<Longrightarrow> ev_Topic x = ev_Topic ev \<Longrightarrow> ev_Payload x = ev_Payload ev \<Longrightarrow> row_ok K (f x)"
  shows "pool_inv E K (update_where ev_ID (ev_ID ev) f rows) (ks[j := Sending evs])"
proof -
  let ?rows = "update_where ev_ID (ev_ID ev) f rows"
  from inv j k have w: "worker_ok K rows (Sent ev r evs)" by (auto simp: pool_inv_def dest: nth_mem)
  from w obtain x0 where x0: "x0 \<in> set rows" "ev_ID x0 = ev_ID ev" "ev_Topic x0 = ev_Topic ev" "ev_Payload x0 = ev_Payload ev"
    by (auto simp: worker_ok_def copy_of_def)
  have uniq: "x = x0" if "x \<in> set rows" "ev_ID x = ev_ID ev" for x
    using inv that x0 by (auto simp: pool_inv_def distinct_map inj_on_def)
  have copy: "copy_of ?rows e" if "copy_of rows e" for e
  proof -
    from that obtain x where "x \<in> set rows" "ev_ID x = ev_ID e" "ev_Topic x = ev_Topic e" "ev_Payload x = ev_Payload e"
      by (auto simp: copy_of_def)
    moreover from this(1) have "(if ev_ID x = ev_ID ev then f x else x) \<in> set ?rows"
      by (simp add: in_update_where in_update_where_other)
    ultimately show ?thesis using f [of x] unfolding copy_of_def by (metis (full_types))
  qed
  have ids: "map ev_ID ?rows = map ev_ID rows" using f by (simp add: map_update_where)
  have "holds (ev_ID ev) (Sending evs) = 0" "holds (ev_ID ev) (ks ! j) = 1"
    using w k by (auto simp: worker_ok_def holds_def)
  then have own: "holders (ev_ID ev) (ks[j := Sending evs]) = holders (ev_ID ev) ks - 1" by (simp add: holders_update [OF j])
  have other: "holders i (ks[j := Sending evs]) = holders i ks" if "i \<noteq> ev_ID ev" for i
    using that k by (auto simp: holders_update [OF j] holds_def)
  have "ev_Attempts y + holders (ev_ID y) (ks[j := Sending evs]) \<le> 5 + int (length ks)" if "y \<in> set ?rows" for y
  proof -
    from that obtain x where x: "x \<in> set rows" "y = (if ev_ID x = ev_ID ev then f x else x)" by (auto simp: set_update_where)
    with inv have "ev_Attempts x + holders (ev_ID x) ks \<le> 5 + int (length ks)" by (simp add: pool_inv_def)
    with x f [of x] own other [of "ev_ID x"] show ?thesis by (auto split: if_splits)
  qed
  moreover have "worker_ok K ?rows (Sending evs)"
    using w copy by (auto simp: worker_ok_def)
  then have "\<forall>k' \<in> set (ks[j := Sending evs]). worker_ok K ?rows k'"
    using inv worker_ok_rows [OF _ copy] by (auto simp: pool_inv_def dest!: subsetD [OF set_update_subset_insert])
  moreover have "uuid_in E (ev_ID y) = Some (ev_ID y) \<and> row_ok K y" if "y \<in> set ?rows" for y
  proof -
    from that obtain x where x: "x \<in> set rows" "y = (if ev_ID x = ev_ID ev then f x else x)" by (auto simp: set_update_where)
    from inv x(1) have r: "uuid_in E (ev_ID x) = Some (ev_ID x)" "row_ok K x" by (auto simp: pool_inv_def)
    show ?thesis
    proof (cases "ev_ID x = ev_ID ev")
      case True
      with uniq x(1) have "x = x0" by blast
      with ok [OF x(1) True r(2)] x0 have "row_ok K (f x)" by simp
      with x(2) True r(1) f [of x] show ?thesis by simp
    qed (use x r in simp)
  qed
  moreover have "distinct (map ev_ID ?rows)" unfolding ids using inv by (simp add: pool_inv_def)
  ultimately show ?thesis by (simp add: pool_inv_def)
qed

lemma marked_step:
  assumes ok: "pool_ok E p" and j: "j < length (pool_workers p)" and k: "pool_workers p ! j = Sent ev r evs"
    and log: "kafka_log w = kafka_log (pw p)"
    and db: "db w = db (pw p) \<or> outbox_events (db w) = update_where ev_ID (ev_ID ev) f (outbox_events (db (pw p)))"
    and f: "\<And>x. ev_ID (f x) = ev_ID x \<and> ev_Topic (f x) = ev_Topic x \<and> ev_Payload (f x) = ev_Payload x \<and> ev_Attempts (f x) \<le> ev_Attempts x + 1"
    and row: "\<And>x. row_ok (set (kafka_log (pw p))) x \<Longrightarrow> ev_Topic x = ev_Topic ev \<Longrightarrow> ev_Payload x = ev_Payload ev \<Longrightarrow>
      row_ok (set (kafka_log (pw p))) (f x)"
  shows "pool_ok E (p\<lparr>pw := w, pool_workers := (pool_workers p)[j := Sending evs]\<rparr>)"
  using db
proof
  assume "outbox_events (db w) = update_where ev_ID (ev_ID ev) f (outbox_events (db (pw p)))"
  moreover have "pool_inv E (set (kafka_log (pw p))) (update_where ev_ID (ev_ID ev) f (outbox_events (db (pw p))))
      ((pool_workers p)[j := Sending evs])"
    by (rule marked_ok [OF ok [unfolded pool_ok_def] j k f]) (rule row)
  ultimately show ?thesis using log by (simp add: pool_ok_def)
next
  assume db: "db w = db (pw p)"
  have same: "update_where ev_ID (ev_ID ev) (\<lambda>x. x) rows = rows" for rows by (simp add: update_where_def)
  have "pool_inv E (set (kafka_log (pw p))) (outbox_events (db (pw p))) ((pool_workers p)[j := Sending evs])"
    by (rule marked_ok [OF ok [unfolded pool_ok_def] j k, of "\<lambda>x. x", unfolded same]) simp_all
  with db log show ?thesis by (simp add: pool_ok_def)
qed

lemma sql_mark_cases:
  assumes "\<And>u t d x d'. st u t d = Inr (x, d') \<Longrightarrow> outbox_events d' = update_where ev_ID k (f t) (outbox_events d)"
  shows "kafka_log (snd (sql E st w)) = kafka_log w \<and>
    (db (snd (sql E st w)) = db w \<or> outbox_events (db (snd (sql E st w))) = update_where ev_ID k (f (NOW E w)) (outbox_events (db w)))"
proof -
  have "mbind (mtry (sql E st)) (\<lambda>_. mret ()) w = (Inr (), snd (sql E st w))"
    by (simp add: mbind_def mtry_def mret_def split: prod.splits)
  from marked_cases [where f = f and k = k, OF this] assms show ?thesis by blast
qed

lemma mark_failed_row: "row_ok K x \<Longrightarrow> row_ok K (mark_failed t e x)"
  by (auto simp: row_ok_def)

lemma mark_published_row: "row_ok K x \<Longrightarrow> (ev_Topic x, ev_Payload x) \<in> K \<Longrightarrow> row_ok K (mark_published t x)"
  by (auto simp: row_ok_def)

lemma worker_step_ok:
  assumes ok: "pool_ok E p" and j: "j < length (pool_workers p)" and step: "worker_step E (pool_workers p ! j) (pw p) = (k, w)"
  shows "pool_ok E (p\<lparr>pw := w, pool_workers := (pool_workers p)[j := k]\<rparr>)"
proof -
  note inv = ok [unfolded pool_ok_def]
  have here: "worker_ok (set (kafka_log (pw p))) (outbox_events (db (pw p))) (pool_workers p ! j)"
    using inv j by (auto simp: pool_inv_def)
  show ?thesis
  proof (cases "pool_workers p ! j")
    case Waiting
    obtain r w1 where f: "FetchPendingEvents E 50 (pw p) = (r, w1)" by (meson surj_pair)
    then have w1: "w1 = (pw p)\<lparr>tick := Suc (tick (pw p))\<rparr>" unfolding FetchPendingEvents_def by (rule sql_query) simp
    show ?thesis
    proof (cases r)
      case (Inl e)
      with step f Waiting have kw: "k = Waiting" "w = w1" by simp_all
      have "(pool_workers p)[j := Waiting] = pool_workers p" using Waiting by (metis list_update_id)
      with kw w1 ok show ?thesis by (simp add: pool_ok_def)
    next
      case (Inr evs)
      with f have "evs = map (\<lambda>ev. ev\<lparr>ev_ErrorMsg := None\<rparr>) (due_events (NOW E (pw p)) 50 (outbox_events (db (pw p))))"
        by (auto simp: FetchPendingEvents_def sql_Inr_iff)
      with fetched_ok [OF inv j Waiting] step f w1 Waiting Inr show ?thesis by (auto simp: pool_ok_def)
    qed
  next
    case (Sending evs)
    show ?thesis
    proof (cases evs)
      case Nil
      with step Sending have "k = Waiting" "w = pw p" by simp_all
      with pool_inv_workers [OF inv subset_refl j, of Waiting] Sending Nil show ?thesis
        by (simp add: pool_ok_def worker_ok_def holds_def)
    next
      case (Cons ev evs')
      obtain r w1 where p: "Publish E (ev_Topic ev) (ev_Payload ev) (pw p) = (r, w1)" by (meson surj_pair)
      with step Sending Cons have kw: "k = Sent ev r evs'" "w = w1" by simp_all
      note pub = Publish_run [OF p]
      have "worker_ok (set (kafka_log w1)) (outbox_events (db (pw p))) (Sent ev r evs')"
        using here pub by (auto simp: Sending Cons worker_ok_def)
      from pool_inv_workers [OF inv _ j this] pub Sending Cons kw show ?thesis
        by (simp add: pool_ok_def holds_def)
    qed
  next
    case (Sent ev r evs)
    with here obtain x0 where "x0 \<in> set (outbox_events (db (pw p)))" "ev_ID x0 = ev_ID ev"
      by (auto simp: worker_ok_def copy_of_def)
    with inv have i: "uuid_in E (ev_ID ev) = Some (ev_ID ev)" by (auto simp: pool_inv_def)
    show ?thesis
    proof (cases r)
      case (Inl e)
      with step Sent have kw: "k = Sending evs" "w = snd (sql E (sql_mark_failed E (ev_ID ev) e) (pw p))"
        by (simp_all add: MarkFailed_def)
      have "kafka_log w = kafka_log (pw p) \<and> (db w = db (pw p) \<or>
          outbox_events (db w) = update_where ev_ID (ev_ID ev) (mark_failed (NOW E (pw p)) e) (outbox_events (db (pw p))))"
        unfolding kw by (rule sql_mark_cases) (rule sql_mark_failed_rows [OF i])
      then show ?thesis unfolding kw(1)
        by (intro marked_step [OF ok j Sent, where f = "mark_failed (NOW E (pw p)) e"]) (auto intro: mark_failed_row)
    next
      case (Inr u)
      with step Sent have kw: "k = Sending evs" "w = snd (sql E (sql_mark_published E (ev_ID ev)) (pw p))"
        by (simp_all add: MarkPublished_def)
      have "(ev_Topic ev, ev_Payload ev) \<in> set (kafka_log (pw p))" using here Sent Inr by (simp add: worker_ok_def)
      moreover have "kafka_log w = kafka_log (pw p) \<and> (db w = db (pw p) \<or>
          outbox_events (db w) = update_where ev_ID (ev_ID ev) (mark_published (NOW E (pw p))) (outbox_events (db (pw p))))"
        unfolding kw by (rule sql_mark_cases) (rule sql_mark_published_rows [OF i])
      ultimately show ?thesis unfolding kw(1)
        by (intro marked_step [OF ok j Sent, where f = "mark_published (NOW E (pw p))"]) (auto intro: mark_published_row)
    qed
  qed
qed

lemma foreign_ok:
  assumes ok: "pool_ok E p" and feeds: "feeds_outbox E (db (pw p)) d" and gen: "uuid_generated E"
  shows "pool_ok E (p\<lparr>pw := (pw p)\<lparr>db := d, tick := t\<rparr>\<rparr>)"
proof -
  let ?rows = "outbox_events (db (pw p))" and ?K = "set (kafka_log (pw p))"
  from feeds obtain new where new: "outbox_events d = ?rows @ new" "\<forall>ev \<in> set new. fresh_event E ev"
    and dist: "distinct (map ev_ID ?rows) \<longrightarrow> distinct (map ev_ID (outbox_events d))"
    by (auto simp: feeds_outbox_def)
  have copy: "copy_of (outbox_events d) ev" if "copy_of ?rows ev" for ev
    using that new(1) by (auto simp: copy_of_def)
  have n: "uuid_in E (ev_ID x) = Some (ev_ID x) \<and> row_ok ?K x \<and> ev_Attempts x + holders (ev_ID x) (pool_workers p) \<le> 5 + int (length (pool_workers p))"
    if "x \<in> set new" for x
    using new(2) that gen holders_le [of "ev_ID x" "pool_workers p"] by (auto simp: fresh_event_def uuid_generated_def row_ok_def)
  show ?thesis
    using ok dist n worker_ok_rows [OF _ copy] unfolding pool_ok_def pool_inv_def by (auto simp: new(1))
qed

lemma pool_reachable_ok:
  assumes "(pool_step E other)\<^sup>*\<^sup>* p p'" and "pool_ok E p" and "\<And>d d'. other d d' \<Longrightarrow> feeds_outbox E d d'" and "uuid_generated E"
  shows "pool_ok E p' \<and> length (pool_workers p') = length (pool_workers p)"
  using assms(1,2)
proof (induction rule: rtranclp_induct)
  case (step p1 p2)
  from step(2) step.IH [OF step.prems] show ?case
    by (cases rule: pool_step.cases) (auto intro: worker_step_ok foreign_ok assms(3,4))
qed simp

lemma workers_started_ok:
  assumes "outbox_ok E w" and "0 < n"
  shows "pool_ok E (workers_started n w)"
proof -
  have "holders i (replicate n Waiting) = 0" for i by (simp add: holders_def holds_def sum_list_replicate)
  with assms show ?thesis
    by (fastforce simp: pool_ok_def pool_inv_def workers_started_def outbox_ok_def event_ok_def row_ok_def worker_ok_def)
qed

section \<open>Properties\<close>

text \<open>
  C28: delivery with any number of workers. Whatever the faults and however the workers of \<open>n\<close> processes interleave
  with each other, with requests and with reconciliation runs, an event that is marked PUBLISHED has been written to
  Kafka with its topic and payload; an event waits only with at most five failed attempts, is given up only after six,
  and never has more than \<open>5 + n\<close>.
\<close>

theorem outbox_workers:
  assumes "(pool_step E (served C L E cfg hasRedis))\<^sup>*\<^sup>* (workers_started n w) p" and "outbox_ok E w" and "0 < n"
    and "uuid_generated E" and "prom_reads C" and "ev \<in> set (outbox_events (db (pw p)))"
  shows "(ev_Status ev = ''PUBLISHED'' \<longrightarrow> (ev_Topic ev, ev_Payload ev) \<in> set (kafka_log (pw p))) \<and>
    (ev_Status ev = ''PENDING'' \<longrightarrow> ev_Attempts ev \<le> 5) \<and> (ev_Status ev = ''FAILED'' \<longrightarrow> 6 \<le> ev_Attempts ev) \<and>
    0 \<le> ev_Attempts ev \<and> ev_Attempts ev \<le> 5 + int n"
proof -
  from pool_reachable_ok [OF assms(1) workers_started_ok [OF assms(2,3)] served_feeds [OF assms(5)] assms(4)]
  have ok: "pool_ok E p" and n: "length (pool_workers p) = n" by (simp_all add: workers_started_def)
  from ok assms(6) have row: "row_ok (set (kafka_log (pw p))) ev"
    and bound: "ev_Attempts ev + holders (ev_ID ev) (pool_workers p) \<le> 5 + int n"
    by (auto simp: pool_ok_def pool_inv_def n)
  have "0 \<le> holders (ev_ID ev) (pool_workers p)"
    unfolding holders_def by (rule sum_list_nonneg) (auto simp: holds_def)
  with row bound show ?thesis by (auto simp: row_ok_def const_defs)
qed

text \<open>Two workers take the same event; the produce of the second one fails.\<close>

definition race_env :: env where
  "race_env = demo_env\<lparr>produce_result := (\<lambda>n. if n = 4 then ProduceFailed ''broker unavailable'' else Produced)\<rparr>"

definition race :: "nat list \<Rightarrow> pool" where
  "race schedule = run_workers race_env schedule (workers_started 2 demo_outbox)"

theorem outbox_workers_witness:
  "\<exists>ev \<in> set (outbox_events (db (pw (race [0, 1, 0, 0])))). ev_ID ev = ''e2'' \<and> (ev_Topic ev, ev_Payload ev) \<in> set (kafka_log (pw (race [0, 1, 0, 0])))"
proof -
  have "map (\<lambda>ev. (ev_ID ev, ev_Status ev)) (outbox_events (db (pw (race [0, 1, 0, 0])))) = [(''e1'', ''PENDING''), (''e2'', ''PUBLISHED'')]"
    by code_simp
  then have "(''e2'', ''PUBLISHED'') \<in> (\<lambda>ev. (ev_ID ev, ev_Status ev)) ` set (outbox_events (db (pw (race [0, 1, 0, 0]))))"
    unfolding set_map [symmetric] by simp
  then obtain ev where ev: "ev \<in> set (outbox_events (db (pw (race [0, 1, 0, 0]))))" "ev_ID ev = ''e2''" "ev_Status ev = ''PUBLISHED''" by auto
  have "uuid_generated race_env" using demo_pg_ok by (simp add: pg_ok_def uuid_generated_def race_env_def)
  moreover have "outbox_ok race_env demo_outbox" by (rule demo_outbox_ok) (simp add: race_env_def)
  moreover have "prom_reads demo_http" by (simp add: prom_reads_def demo_http_def)
  moreover have "(pool_step race_env (served demo_http demo_authlib race_env demo_config True))\<^sup>*\<^sup>* (workers_started 2 demo_outbox) (race [0, 1, 0, 0])"
    unfolding race_def by (rule run_workers_pool)
  ultimately show ?thesis using outbox_workers [where n = 2 and ev = ev] ev by (intro bexI [of _ ev]) auto
qed

text \<open>
  What the comment in \<open>FetchPendingEvents\<close> rules out happens: the event is marked PUBLISHED by the first worker and FAILED
  by the second, although it has been delivered; when both produces succeed, it is delivered twice.
\<close>

lemma published_taken_back:
  "map ev_Status (outbox_events (db (pw (race [0, 1, 0, 0])))) = [''PENDING'', ''PUBLISHED'']"
  "map ev_Status (outbox_events (db (pw (race [0, 1, 0, 0, 1, 1])))) = [''PENDING'', ''FAILED'']"
  "kafka_log (pw (race [0, 1, 0, 0, 1, 1])) = [(''transfers'', JString ''e2'')]"
  "kafka_log (pw (run_workers demo_env [0, 1, 0, 1] (workers_started 2 demo_outbox))) = [(''transfers'', JString ''e2''), (''transfers'', JString ''e2'')]"
  by code_simp+

end
