(* ===== verification/Reconciliation_Concurrency.thy ===== *)
theory Reconciliation_Concurrency
  imports System_Books
begin

text \<open>
  Reconciliation while the system works. Every statement of \<open>RunReconciliation\<close> is a step of its own and other
  transactions commit in between, so that the two checks of a run see two different states of the database. Shown are:
  a run that is not interrupted is \<open>RunReconciliation\<close>, and no interleaving raises a false alarm.
\<close>

section \<open>A run statement by statement\<close>

text \<open>
  The constructors follow \<open>RunReconciliation\<close>: before the run, before the totals are read, before the record of an imbalanced
  ledger, before the wallets are read, in the loop over the mismatches, before the run is completed. They carry the
  variables of the function that are still read.
\<close>

datatype audit =
    NoRun
  | ReadTotals string
  | LedgerAlarm string int64 int64 int64
  | ReadWallets string int64 string int64
  | WalletAlarms string int64 int64 "Mismatch list" string int64
  | Closing string string int64 int64 int64

fun audit_step :: "env \<Rightarrow> audit \<Rightarrow> world \<Rightarrow> audit \<times> world" where
  "audit_step E NoRun w =
     (case CreateRun E w of
        (Inl e, w1) \<Rightarrow> (NoRun, w1)
      | (Inr run, w1) \<Rightarrow> (ReadTotals (run_ID run), w1))"
| "audit_step E (ReadTotals i) w =
     (case CheckGlobalLedgerBalance E w of
        (Inl e, w1) \<Rightarrow> (Closing i recon_StatusFailed 0 0 0, w1)
      | (Inr (dt, ct, n), w1) \<Rightarrow> (if dt \<noteq> ct then LedgerAlarm i dt ct n else ReadWallets i n recon_StatusPassed 0, w1))"
| "audit_step E (LedgerAlarm i dt ct n) w =
     (ReadWallets i n recon_StatusFailed 1,
      snd (RecordMismatch E i ''SYSTEM'' ''GLOBAL_LEDGER'' ''IMBALANCED_LEDGER'' (imbalance_details dt ct) w))"
| "audit_step E (ReadWallets i n status found) w =
     (case CheckWalletBalances E w of
        (Inl e, w1) \<Rightarrow> (Closing i recon_StatusFailed 0 n found, w1)
      | (Inr (k, ms), w1) \<Rightarrow> (WalletAlarms i k n ms status found, w1))"
| "audit_step E (WalletAlarms i k n [] status found) w = (Closing i status k n found, w)"
| "audit_step E (WalletAlarms i k n (m # ms) status found) w =
     (WalletAlarms i k n ms recon_StatusFailed (found + 1),
      snd (RecordMismatch E i ''WALLET'' (mm_wallet_id m) ''BALANCE_MISMATCH'' (mismatch_details m) w))"
| "audit_step E (Closing i status k n found) w = (NoRun, snd (CompleteRun E i status k n found w))"

record auditing =
  aw :: world
  audits :: "audit list"

text \<open>The workers of several processes, and a step of the system in between.\<close>

inductive audit_system :: "env \<Rightarrow> (world \<Rightarrow> world \<Rightarrow> bool) \<Rightarrow> auditing \<Rightarrow> auditing \<Rightarrow> bool" for E other where
    audit: "i < length (audits a) \<Longrightarrow> audit_step E (audits a ! i) (aw a) = (k, w) \<Longrightarrow>
      audit_system E other a (a\<lparr>aw := w, audits := (audits a)[i := k]\<rparr>)"
  | foreign: "other (aw a) w \<Longrightarrow> audit_system E other a (a\<lparr>aw := w\<rparr>)"

definition audits_started :: "nat \<Rightarrow> world \<Rightarrow> auditing" where
  "audits_started n w = \<lparr>aw = w, audits = replicate n NoRun\<rparr>"

section \<open>One run alone\<close>

definition leads :: "env \<Rightarrow> audit \<times> world \<Rightarrow> audit \<times> world \<Rightarrow> bool" where
  "leads E p q \<longleftrightarrow> (\<exists>n. ((\<lambda>(k, w). audit_step E k w) ^^ n) p = q)"

lemma leads_refl: "leads E p p"
  unfolding leads_def by (rule exI [of _ 0]) simp

lemma leads_step: "audit_step E k w = p \<Longrightarrow> leads E p q \<Longrightarrow> leads E (k, w) q"
  unfolding leads_def by (metis (mono_tags, lifting) case_prod_conv comp_apply funpow_Suc_right)

lemma ignore_run: "ignore m w = (Inr (), snd (m w))"
  by (simp add: ignore_def mbind_def mtry_def mret_def split: prod.splits)

lemma alarms_alone:
  "leads E (WalletAlarms i k t ms status found, w)
     (NoRun, snd (mbind (record_mismatches E i ms (status, found)) (\<lambda>(status, found). ignore (CompleteRun E i status k t found)) w))"
proof (induction ms arbitrary: status found w)
  case Nil
  show ?case
    by (rule leads_step, rule audit_step.simps, rule leads_step, rule audit_step.simps)
      (simp add: mbind_def mret_def ignore_run leads_refl)
next
  case (Cons m ms)
  show ?case
    by (rule leads_step, rule audit_step.simps) (use Cons.IH in \<open>simp add: mbind_def ignore_run\<close>)
qed

lemma wallets_alone:
  "leads E (ReadWallets i t status found, w)
     (NoRun, snd (mbind (mtry (CheckWalletBalances E)) (\<lambda>r. case r of
          Inl _ \<Rightarrow> ignore (CompleteRun E i recon_StatusFailed 0 t found)
        | Inr (k, ms) \<Rightarrow> mbind (record_mismatches E i ms (status, found)) (\<lambda>(status, found). ignore (CompleteRun E i status k t found))) w))"
proof -
  obtain r w1 where c: "CheckWalletBalances E w = (r, w1)" by (meson surj_pair)
  show ?thesis
  proof (cases r)
    case (Inl e)
    show ?thesis
      by (rule leads_step, rule audit_step.simps, simp add: c Inl, rule leads_step, rule audit_step.simps)
        (simp add: mbind_def mtry_def c Inl ignore_run leads_refl)
  next
    case (Inr q)
    obtain k ms where q: "q = (k, ms)" by (cases q)
    show ?thesis
      by (rule leads_step, rule audit_step.simps)
        (use alarms_alone [of E i k t ms status found w1] in \<open>simp add: c Inr q mbind_def [of "mtry (CheckWalletBalances E)"] mtry_def\<close>)
  qed
qed

text \<open>A run that is not interrupted is \<open>RunReconciliation\<close>.\<close>

lemma audit_alone: "leads E (NoRun, w) (NoRun, snd (RunReconciliation E w))"
proof -
  obtain r w1 where c: "CreateRun E w = (r, w1)" by (meson surj_pair)
  show ?thesis
  proof (cases r)
    case (Inl e)
    show ?thesis
      by (rule leads_step, rule audit_step.simps) (simp add: c Inl RunReconciliation_def mbind_def mtry_def mret_def leads_refl)
  next
    case (Inr run)
    obtain g w2 where t: "CheckGlobalLedgerBalance E w1 = (g, w2)" by (meson surj_pair)
    have run: "RunReconciliation E w = (case g of Inl _ \<Rightarrow> ignore (CompleteRun E (run_ID run) recon_StatusFailed 0 0 0) w2
        | Inr totals \<Rightarrow> run_checks E (run_ID run) totals w2)"
      by (simp add: RunReconciliation_def mbind_def mtry_def c Inr t split: sum.split)
    show ?thesis
    proof (cases g)
      case (Inl e)
      show ?thesis
        by (rule leads_step, rule audit_step.simps, simp add: c Inr, rule leads_step, rule audit_step.simps, simp add: t Inl,
            rule leads_step, rule audit_step.simps) (simp add: run Inl ignore_run leads_refl)
    next
      case g: (Inr totals)
      obtain dt ct n where tot: "totals = (dt, ct, n)" by (cases totals)
      have "leads E (if dt \<noteq> ct then LedgerAlarm (run_ID run) dt ct n else ReadWallets (run_ID run) n recon_StatusPassed 0, w2)
          (NoRun, snd (run_checks E (run_ID run) totals w2))"
      proof (cases "dt = ct")
        case True
        with wallets_alone [of E "run_ID run" n recon_StatusPassed 0 w2] show ?thesis
          by (simp add: run_checks_def tot mbind_def [of "mret _"] mret_def [of "(recon_StatusPassed, 0)"])
      next
        case False
        let ?w3 = "snd (RecordMismatch E (run_ID run) ''SYSTEM'' ''GLOBAL_LEDGER'' ''IMBALANCED_LEDGER'' (imbalance_details dt ct) w2)"
        have "leads E (LedgerAlarm (run_ID run) dt ct n, w2) (NoRun, snd (run_checks E (run_ID run) totals w2))"
          by (rule leads_step, rule audit_step.simps)
            (use wallets_alone [of E "run_ID run" n recon_StatusFailed 1 ?w3] False
             in \<open>simp add: run_checks_def tot mbind_def [of "mbind (ignore _) _"] mbind_def [of "ignore _"] ignore_run [of "RecordMismatch _ _ _ _ _ _"] mret_def [of "(recon_StatusFailed, 1)"]\<close>)
        with False show ?thesis by simp
      qed
      then show ?thesis
        by (intro leads_step [OF audit_step.simps(1)]) (simp add: c Inr, rule leads_step, rule audit_step.simps, simp add: t g tot run)
    qed
  qed
qed

section \<open>No false alarm\<close>

text \<open>A run that has found nothing and has nothing to record; its status is FAILED only after an error of the database.\<close>

definition quiet :: "audit \<Rightarrow> bool" where
  "quiet k \<longleftrightarrow>
     (case k of
        LedgerAlarm i dt ct n \<Rightarrow> False
      | ReadWallets i n status found \<Rightarrow> status = recon_StatusPassed \<and> found = 0
      | WalletAlarms i j n ms status found \<Rightarrow> ms = [] \<and> status = recon_StatusPassed \<and> found = 0
      | Closing i status j n found \<Rightarrow> found = 0
      | _ \<Rightarrow> True)"

lemma check_rows_agree:
  assumes "\<forall>r \<in> set rs. wallet_agrees es r" and "check_rows es rs n ms = Inr (k, ms')"
  shows "ms' = ms"
  using assms by (induction rs arbitrary: n) (auto simp: rbind_def scan_int64_def wallet_agrees_def split: if_splits)

lemma delivered_set: "set (delivered b xs) \<subseteq> set xs"
  by (auto simp: delivered_def dest: in_set_takeD split: option.splits)

lemma CheckWalletBalances_agree:
  assumes "\<forall>r \<in> set (wallets (db w)). wallet_agrees (ledger_entries (db w)) r" and "CheckWalletBalances E w = (Inr (k, ms), w')"
  shows "ms = []"
proof -
  have "check_rows (ledger_entries (db w)) (delivered (row_break E (tick w)) (takeWhile wallet_row_ok (wallets (db w)))) 0 [] = Inr (k, ms)"
    using assms(2) by (auto simp: CheckWalletBalances_def sql_Inr_iff run_simps)
  moreover have "\<forall>r \<in> set (delivered (row_break E (tick w)) (takeWhile wallet_row_ok (wallets (db w)))). wallet_agrees (ledger_entries (db w)) r"
    using assms(1) delivered_set set_takeWhileD by fastforce
  ultimately show ?thesis by (simp add: check_rows_agree)
qed

lemma CheckGlobalLedgerBalance_agree:
  "CheckGlobalLedgerBalance E w = (Inr (dt, ct, n), w') \<Longrightarrow> debits (ledger_entries (db w)) = credits (ledger_entries (db w)) \<Longrightarrow> dt = ct"
  by (auto simp: CheckGlobalLedgerBalance_def sql_Inr_iff run_simps)

lemma audit_step_core:
  assumes "audit_step E k w = (k', w')"
  shows "core (db w') = core (db w)"
proof -
  note st = alwaysD [OF audit_statements_core(1)] alwaysD [OF audit_statements_core(2)] alwaysD [OF audit_statements_core(5)]
    always_snd [OF audit_statements_core(3)] always_snd [OF audit_statements_core(4)]
  show ?thesis
    using assms st unfolding same_def
    by (cases "(E, k, w)" rule: audit_step.cases) (fastforce split: prod.splits sum.splits if_splits)+
qed

lemma audit_step_quiet:
  assumes "audit_step E k w = (k', w')" and "quiet k" and "books_inv E (db w)"
  shows "quiet k'"
proof -
  from assms(3) have ag: "\<forall>r \<in> set (wallets (db w)). wallet_agrees (ledger_entries (db w)) r"
    and dc: "debits (ledger_entries (db w)) = credits (ledger_entries (db w))"
    using ledger_balanced_total by (simp_all add: books_inv_def wallet_ledger_inv_def wallet_agrees_def)
  show ?thesis
    using assms(1,2) CheckWalletBalances_agree [OF ag] CheckGlobalLedgerBalance_agree [OF _ dc]
    by (cases "(E, k, w)" rule: audit_step.cases) (auto simp: quiet_def split: prod.splits sum.splits if_splits)
qed

lemma audit_system_quiet:
  assumes "(audit_system E other)\<^sup>*\<^sup>* a a'" and "\<forall>k \<in> set (audits a). quiet k" and "books_inv E (db (aw a))"
    and other: "\<And>w w'. other w w' \<Longrightarrow> books_inv E (db w) \<Longrightarrow> books_inv E (db w')"
  shows "(\<forall>k \<in> set (audits a'). quiet k) \<and> books_inv E (db (aw a'))"
  using assms(1-3)
proof (induction rule: rtranclp_induct)
  case (step a1 a2)
  then have q: "\<forall>k \<in> set (audits a1). quiet k" and b: "books_inv E (db (aw a1))" by auto
  from step(2) show ?case
  proof (cases rule: audit_system.cases)
    case (audit i k w)
    from q audit(2) have "quiet (audits a1 ! i)" by simp
    from audit_step_quiet [OF audit(3) this b] q have "\<forall>k' \<in> set ((audits a1)[i := k]). quiet k'"
      by (auto dest!: subsetD [OF set_update_subset_insert])
    with audit(1) books_inv_core [OF audit_step_core [OF audit(3)]] b show ?thesis by simp
  next
    case (foreign w)
    with q other [OF _ b] show ?thesis by simp
  qed
qed simp

lemma system_step_books:
  assumes "pg_laws E" and "prom_reads C" and "system_step C L E cfg hasRedis w w'" and "books_inv E (db w)"
  shows "books_inv E (db w')"
  using books_kept [OF assms(1,2) reachable.step [OF reachable.initial assms(3)] assms(4)] .

text \<open>
  C25: the auditor raises no false alarm. Let the reconciliation workers of \<open>n\<close> processes run statement by statement, with any
  requests, batches and other runs in between and any faults: no run ever finds a mismatch. Each of its two checks sees books
  that agree, whatever commits between them.
\<close>

theorem no_false_alarm:
  assumes "pg_laws E" and "prom_reads C" and "fresh_start (db w)"
    and "(audit_system E (system_step C L E cfg hasRedis))\<^sup>*\<^sup>* (audits_started n w) a" and "k \<in> set (audits a)"
  shows "quiet k"
proof -
  have "\<forall>k \<in> set (audits (audits_started n w)). quiet k" by (simp add: audits_started_def quiet_def)
  moreover have "books_inv E (db (aw (audits_started n w)))" using fresh_books [OF assms(3)] by (simp add: audits_started_def)
  ultimately show ?thesis
    using audit_system_quiet [OF assms(4)] system_step_books [OF assms(1,2)] assms(5) by blast
qed

text \<open>A wallet is opened between the start of a run and its first check.\<close>

definition opened_meanwhile :: world where
  "opened_meanwhile = snd (NewServer demo_http demo_authlib demo_env demo_config True open_wallet
     (snd (audit_step demo_env NoRun (fresh_world\<lparr>tick := 7\<rparr>))))"

theorem no_false_alarm_witness:
  "length (wallets (db opened_meanwhile)) = 1 \<and>
   quiet (fst (audit_step demo_env (fst (audit_step demo_env NoRun (fresh_world\<lparr>tick := 7\<rparr>))) opened_meanwhile))"
proof
  show "length (wallets (db opened_meanwhile)) = 1" by code_simp
  let ?k1 = "fst (audit_step demo_env NoRun (fresh_world\<lparr>tick := 7\<rparr>))" and ?w1 = "snd (audit_step demo_env NoRun (fresh_world\<lparr>tick := 7\<rparr>))"
  let ?k2 = "fst (audit_step demo_env ?k1 opened_meanwhile)" and ?w2 = "snd (audit_step demo_env ?k1 opened_meanwhile)"
  let ?R = "audit_system demo_env (system_step demo_http demo_authlib demo_env demo_config True)"
  have "?R (audits_started 1 (fresh_world\<lparr>tick := 7\<rparr>)) \<lparr>aw = ?w1, audits = [?k1]\<rparr>"
    using audit_system.audit [of 0 "audits_started 1 (fresh_world\<lparr>tick := 7\<rparr>)" demo_env ?k1 ?w1] by (simp add: audits_started_def)
  moreover have "?R \<lparr>aw = ?w1, audits = [?k1]\<rparr> \<lparr>aw = opened_meanwhile, audits = [?k1]\<rparr>"
    using audit_system.foreign [of "system_step demo_http demo_authlib demo_env demo_config True" "\<lparr>aw = ?w1, audits = [?k1]\<rparr>" opened_meanwhile]
    by (simp add: opened_meanwhile_def system_step.request)
  moreover have "?R \<lparr>aw = opened_meanwhile, audits = [?k1]\<rparr> \<lparr>aw = ?w2, audits = [?k2]\<rparr>"
    using audit_system.audit [of 0 "\<lparr>aw = opened_meanwhile, audits = [?k1]\<rparr>" demo_env ?k2 ?w2] by simp
  ultimately have run: "?R\<^sup>*\<^sup>* (audits_started 1 (fresh_world\<lparr>tick := 7\<rparr>)) \<lparr>aw = ?w2, audits = [?k2]\<rparr>" by simp
  have "prom_reads demo_http" by (simp add: prom_reads_def demo_http_def)
  moreover have "fresh_start (db (fresh_world\<lparr>tick := 7\<rparr>))" by (simp add: fresh_start_def fresh_world_def empty_db_def)
  ultimately show "quiet ?k2" using no_false_alarm [OF demo_env_laws _ _ run] by simp
qed

end
