(* ===== verification/Idempotency_Concurrency.thy ===== *)
theory Idempotency_Concurrency
  imports Transfer_Handler
begin

text \<open>
  Transfer requests that arrive at the same time, also with the same idempotency key. Each call of \<open>HandleTransfer\<close> advances
  statement by statement: the insert of the key, the query after a conflict, the look-up of the wallet, the transfer (which acts at
  once, as shown in Concurrency) and the completion of the key. Shown are: a call that is not interrupted is \<open>HandleTransfer\<close>;
  however calls are interleaved and whatever fails, a key pays for at most one transfer; and all calls with the same key that report a
  transfer report the same one.
\<close>

section \<open>Calls\<close>

text \<open>
  The constructors follow a call: before the insert of the key, before the query of a known key, before the look-up of the source
  wallet, before \<open>ExecuteTransfer\<close>, before \<open>Complete\<close>, and after the reply. They carry the variables that are still read.
\<close>

datatype transfer_call =
    Arrived request
  | KeyRefused string
  | CheckingOwner JWTClaims CreateTransferRequest string
  | Executing CreateTransferRequest string
  | Recording string json int response
  | Replied response

fun call_step :: "env \<Rightarrow> transfer_call \<Rightarrow> world \<Rightarrow> transfer_call \<times> world" where
  "call_step E (Arrived rq) w =
     (case rq_claims rq of
        None \<Rightarrow> (Replied (http_Error (TextBody ''unauthorized'') 401), w)
      | Some claims \<Rightarrow>
          (let idemKey = rq_header rq ''Idempotency-Key'' in
           if idemKey = '''' then (Replied (http_Error (TextBody ''Idempotency-Key header is required'') 400), w)
           else case rbind (decode_body rq) decode_CreateTransferRequest of
                  Inl _ \<Rightarrow> (Replied (http_Error (TextBody ''invalid request body'') 400), w)
                | Inr req \<Rightarrow>
                    (case sql E (sql_insert_key E idemKey (json_of_CreateTransferRequest req)) w of
                       (Inr _, w1) \<Rightarrow> (CheckingOwner claims req idemKey, w1)
                     | (Inl _, w1) \<Rightarrow> (KeyRefused idemKey, w1))))"
| "call_step E (KeyRefused key) w =
     (case sql E (sql_select_key key) w of
        (Inl _, w1) \<Rightarrow> (Replied (http_Error (TextBody ''internal server error'') 500), w1)
      | (Inr row, w1) \<Rightarrow>
          (if kr_Status (key_record row) = idem_StatusInProgress then (Replied (http_Error (ErrorBody ErrKeyInProgress) 409), w1)
           else (Replied (cached_response (key_record row)), w1)))"
| "call_step E (CheckingOwner claims req key) w =
     (case GetWalletByID E (tr_SourceWalletID req) w of
        (r, w1) \<Rightarrow>
          (if \<not> may_spend claims r then (Recording key forbidden_payload 403 (http_Error (TextBody ''forbidden'') 403), w1)
           else (Executing req key, w1)))"
| "call_step E (Executing req key) w =
     (case ExecuteTransfer E req key w of
        (Inl e, w1) \<Rightarrow> (Recording key (error_payload E e) 400 (http_Error (ErrorBody e) 400), w1)
      | (Inr transfer, w1) \<Rightarrow>
          (Recording key (json_of_Transfer E transfer) 201 \<lparr>resp_status = 201, resp_body = JsonBody (json_of_Transfer E transfer)\<rparr>, w1))"
| "call_step E (Recording key payload status resp) w = (Replied resp, complete_ignored E key payload status w)"
| "call_step E (Replied resp) w = (Replied resp, w)"

record serving =
  sw :: world
  calls :: "transfer_call list"

text \<open>Between the steps anything may happen that is no transfer request: it leaves the transfers and the keys as they are.\<close>

definition keys_alone :: "db \<Rightarrow> db \<Rightarrow> bool" where
  "keys_alone d d' \<longleftrightarrow> transfers d' = transfers d \<and> idempotency_keys d' = idempotency_keys d"

inductive serving_step :: "env \<Rightarrow> serving \<Rightarrow> serving \<Rightarrow> bool" for E where
    call: "i < length (calls s) \<Longrightarrow> call_step E (calls s ! i) (sw s) = (c, w) \<Longrightarrow>
      serving_step E s (s\<lparr>sw := w, calls := (calls s)[i := c]\<rparr>)"
  | foreign: "keys_alone (db (sw s)) (db w) \<Longrightarrow> serving_step E s (s\<lparr>sw := w\<rparr>)"

definition arrived :: "request list \<Rightarrow> world \<Rightarrow> serving" where
  "arrived rqs w = \<lparr>sw = w, calls = map Arrived rqs\<rparr>"

text \<open>A schedule names the call that moves next.\<close>

definition play :: "env \<Rightarrow> nat list \<Rightarrow> serving \<Rightarrow> serving" where
  "play E =
     fold (\<lambda>i s. case call_step E (calls s ! i) (sw s) of (c, w) \<Rightarrow> s\<lparr>sw := w, calls := (calls s)[i := c]\<rparr>)"

lemma play_reaches: "\<forall>i \<in> set is. i < length (calls s) \<Longrightarrow> (serving_step E)\<^sup>*\<^sup>* s (play E is s)"
proof (induction "is" arbitrary: s)
  case Nil
  then show ?case by (simp add: play_def)
next
  case (Cons i rest)
  obtain c w where cw: "call_step E (calls s ! i) (sw s) = (c, w)" by fastforce
  let ?s = "s\<lparr>sw := w, calls := (calls s)[i := c]\<rparr>"
  from Cons.prems cw have "serving_step E s ?s" by (auto intro: serving_step.call)
  moreover from Cons have "(serving_step E)\<^sup>*\<^sup>* ?s (play E rest ?s)" by simp
  ultimately show ?case using cw by (simp add: play_def)
qed

definition reply_of :: "transfer_call \<Rightarrow> response option" where
  "reply_of c = (case c of Replied resp \<Rightarrow> Some resp | _ \<Rightarrow> None)"

lemma reply_of_Some: "reply_of c = Some resp \<longleftrightarrow> c = Replied resp"
  by (simp add: reply_of_def split: transfer_call.splits)

lemma play_Nil [simp]: "play E [] s = s"
  and play_Cons: "play E (i # is) s =
    (case call_step E (calls s ! i) (sw s) of (c, w) \<Rightarrow> play E is (s\<lparr>sw := w, calls := (calls s)[i := c]\<rparr>))"
  by (simp_all add: play_def split: prod.split)

text \<open>Two requests with one key, and the state when both have tried to insert it.\<close>

definition rivals :: serving where
  "rivals = arrived [demo_request ''key-2'', demo_request ''key-2''] demo_world"

definition key_tried :: "world \<Rightarrow> world" where
  "key_tried w = snd (sql demo_env (sql_insert_key demo_env ''key-2'' (json_of_CreateTransferRequest demo_transfer)) w)"

definition raced :: serving where
  "raced = \<lparr>sw = key_tried (key_tried demo_world),
     calls = [CheckingOwner owner_claims demo_transfer ''key-2'', KeyRefused ''key-2'']\<rparr>"

lemma demo_decoded: "rbind (decode_body (demo_request key)) decode_CreateTransferRequest = Inr demo_transfer"
proof -
  have "case json_Decode transfer_body_text of None \<Rightarrow> False | Some j \<Rightarrow> decode_CreateTransferRequest j = Inr demo_transfer"
    by code_simp
  then show ?thesis by (simp add: decode_body_def demo_request_def split: option.splits)
qed

lemma demo_arrives:
  "call_step demo_env (Arrived (demo_request ''key-2'')) w =
     (if isl (fst (sql demo_env (sql_insert_key demo_env ''key-2'' (json_of_CreateTransferRequest demo_transfer)) w))
      then KeyRefused ''key-2'' else CheckingOwner owner_claims demo_transfer ''key-2'', key_tried w)"
  using demo_decoded [of "''key-2''"]
  by (auto simp: key_tried_def demo_request_def Let_def split: prod.split sum.split)

lemma rivals_race: "play demo_env (0 # 1 # is) rivals = play demo_env is raced"
proof -
  have "\<not> isl (fst (sql demo_env (sql_insert_key demo_env ''key-2'' (json_of_CreateTransferRequest demo_transfer)) demo_world))"
    "isl (fst (sql demo_env (sql_insert_key demo_env ''key-2'' (json_of_CreateTransferRequest demo_transfer)) (key_tried demo_world)))"
    by code_simp+
  then show ?thesis by (simp add: play_Cons rivals_def arrived_def raced_def demo_arrives del: call_step.simps)
qed

section \<open>One call alone\<close>

definition calls_lead :: "env \<Rightarrow> nat \<Rightarrow> transfer_call \<times> world \<Rightarrow> transfer_call \<times> world \<Rightarrow> bool" where
  "calls_lead E n p q \<longleftrightarrow> ((\<lambda>(c, w). call_step E c w) ^^ n) p = q"

lemma calls_lead_0 [simp]: "calls_lead E 0 p q \<longleftrightarrow> p = q"
  by (simp add: calls_lead_def)

lemma calls_lead_Suc [simp]: "calls_lead E (Suc n) (c, w) q \<longleftrightarrow> calls_lead E n (call_step E c w) q"
  by (simp add: calls_lead_def funpow_swap1)

lemma calls_lead_replied: "calls_lead E n (Replied resp, w) (Replied resp, w)"
  by (induction n) simp_all

lemma acquired_alone:
  assumes "transfer_acquired E claims req key w = (resp, w')"
  shows "calls_lead E 3 (CheckingOwner claims req key, w) (Replied resp, w')"
  using assms
  by (auto simp: numeral_3_eq_3 transfer_acquired_def split: prod.splits sum.splits if_splits)

lemma refused_alone:
  assumes "sql E (sql_select_key key) w = (r, w')"
  shows "calls_lead E 3 (KeyRefused key, w)
    (Replied (case r of Inl _ \<Rightarrow> http_Error (TextBody ''internal server error'') 500
       | Inr row \<Rightarrow> if ik_Status row = idem_StatusInProgress then http_Error (ErrorBody ErrKeyInProgress) 409
                 else cached_response (key_record row)), w')"
  using assms by (auto simp: numeral_3_eq_3 key_record_def split: sum.splits)

lemma select_key_error: "sql E (sql_select_key key) w = (Inl e, w') \<Longrightarrow> e \<noteq> ErrKeyInProgress"
  by (auto simp: sql_def Let_def sql_select_key_def split: option.splits stmt_failure.splits)

text \<open>A call that is not interrupted replies after at most four steps as \<open>HandleTransfer\<close> does, in the same state.\<close>

lemma call_alone:
  assumes "HandleTransfer E rq w = (resp, w')"
  shows "calls_lead E 4 (Arrived rq, w) (Replied resp, w')"
proof -
  let ?key = "rq_header rq ''Idempotency-Key''"
  have four: "calls_lead E 4 (Arrived rq, w) q \<longleftrightarrow> calls_lead E 3 (call_step E (Arrived rq) w) q" for q
    by (simp add: eval_nat_numeral)
  show ?thesis
  proof (cases "\<exists>claims req. rq_claims rq = Some claims \<and> ?key \<noteq> '''' \<and> rbind (decode_body rq) decode_CreateTransferRequest = Inr req")
    case False
    with assms have "call_step E (Arrived rq) w = (Replied resp, w')"
      by (auto simp: HandleTransfer_def Let_def split: option.splits sum.splits if_splits)
    then show ?thesis by (simp add: four calls_lead_replied)
  next
    case True
    then obtain claims req where rq: "rq_claims rq = Some claims" "?key \<noteq> ''''"
      "rbind (decode_body rq) decode_CreateTransferRequest = Inr req" by blast
    obtain r1 w1 where ins: "sql E (sql_insert_key E ?key (json_of_CreateTransferRequest req)) w = (r1, w1)" by fastforce
    show ?thesis
    proof (cases r1)
      case (Inr x)
      with ins have "TryAcquire E ?key (json_of_CreateTransferRequest req) w = (Inr None, w1)"
        by (simp add: TryAcquire_def mbind_def mtry_def mret_def)
      with assms rq have "transfer_acquired E claims req ?key w1 = (resp, w')" by (simp add: HandleTransfer_def Let_def)
      from acquired_alone [OF this] rq ins Inr show ?thesis by (simp add: four Let_def)
    next
      case (Inl e1)
      obtain r2 w2 where sel: "sql E (sql_select_key ?key) w1 = (r2, w2)" by fastforce
      have "resp = (case r2 of Inl _ \<Rightarrow> http_Error (TextBody ''internal server error'') 500
          | Inr row \<Rightarrow> if ik_Status row = idem_StatusInProgress then http_Error (ErrorBody ErrKeyInProgress) 409
                    else cached_response (key_record row)) \<and> w' = w2"
        using assms rq ins Inl sel select_key_error [of E ?key w1]
        by (auto simp: HandleTransfer_def Let_def TryAcquire_def mbind_def mtry_def mret_def mfail_def key_record_def
            split: sum.splits if_splits)
      with refused_alone [OF sel] rq ins Inl show ?thesis by (simp add: four Let_def)
    qed
  qed
qed

section \<open>At most one transfer per key\<close>

text \<open>The key of a call from its acquisition to the end of its transfer, and to its completion.\<close>

definition owns_key :: "transfer_call \<Rightarrow> string option" where
  "owns_key c =
     (case c of CheckingOwner claims req key \<Rightarrow> Some key | Executing req key \<Rightarrow> Some key | _ \<Rightarrow> None)"

definition owns :: "env \<Rightarrow> transfer_call \<Rightarrow> string \<Rightarrow> bool" where
  "owns E c k \<longleftrightarrow> (\<exists>key. owns_key c = Some key \<and> varchar_in E 255 key = Some k)"

definition keys_inv :: "env \<Rightarrow> serving \<Rightarrow> bool" where
  "keys_inv E s \<longleftrightarrow>
     transfer_keys_ok (db (sw s)) \<and>
     (\<forall>i < length (calls s). owns_key (calls s ! i) \<noteq> None \<longrightarrow> (\<exists>k. owns E (calls s ! i) k)) \<and>
     (\<forall>i < length (calls s). \<forall>k. owns E (calls s ! i) k \<longrightarrow>
        k \<in> ik_Key ` set (idempotency_keys (db (sw s))) \<and> k \<notin> t_IdempotencyKey ` set (transfers (db (sw s))) \<and>
        (\<forall>j < length (calls s). owns E (calls s ! j) k \<longrightarrow> j = i))"

text \<open>The first step of a call.\<close>

lemma arrived_cases:
  assumes "call_step E (Arrived rq) w = (c, w')"
  obtains
    (refused) r where "c = Replied r" "resp_status r \<noteq> 201" "w' = w"
  | (inserted) claims req p where "c = CheckingOwner claims req (rq_header rq ''Idempotency-Key'')"
      "key_taken E (rq_header rq ''Idempotency-Key'') p (db w) (db w')"
  | (conflict) p where "c = KeyRefused (rq_header rq ''Idempotency-Key'')"
      "db w' = db w \<or> key_taken E (rq_header rq ''Idempotency-Key'') p (db w) (db w')"
proof -
  let ?key = "rq_header rq ''Idempotency-Key''"
  show thesis
  proof (cases "\<exists>claims req. rq_claims rq = Some claims \<and> ?key \<noteq> '''' \<and> rbind (decode_body rq) decode_CreateTransferRequest = Inr req")
    case False
    with assms show thesis
      by (auto simp: http_Error_def Let_def split: option.splits sum.splits if_splits intro: refused)
  next
    case True
    then obtain claims req where rq: "rq_claims rq = Some claims" "?key \<noteq> ''''"
      "rbind (decode_body rq) decode_CreateTransferRequest = Inr req" by blast
    obtain r w1 where ins: "sql E (sql_insert_key E ?key (json_of_CreateTransferRequest req)) w = (r, w1)" by fastforce
    show thesis
    proof (cases r)
      case (Inr x)
      with ins have "key_taken E ?key (json_of_CreateTransferRequest req) (db w) (db w1)"
        by (auto simp: sql_Inr_iff dest: sql_insert_key_Inr)
      moreover have "c = CheckingOwner claims req ?key" "w' = w1" using assms rq ins Inr by (simp_all add: Let_def)
      ultimately show thesis using inserted by blast
    next
      case (Inl e)
      with ins have "db w1 = db w \<or> key_taken E ?key (json_of_CreateTransferRequest req) (db w) (db w1)"
        by (auto dest!: sql_InlD dest: sql_insert_key_Inr)
      moreover have "c = KeyRefused ?key" "w' = w1" using assms rq ins Inl by (simp_all add: Let_def)
      ultimately show thesis using conflict by blast
    qed
  qed
qed

text \<open>What one step of a call does to the two tables and to the ownership of keys.\<close>

definition call_effect :: "env \<Rightarrow> transfer_call \<Rightarrow> transfer_call \<Rightarrow> db \<Rightarrow> db \<Rightarrow> bool" where
  "call_effect E c c' d d' \<longleftrightarrow>
     (\<exists>key p. key_taken E key p d d' \<and> owns_key c = None \<and> owns_key c' \<in> {None, Some key}) \<or>
     (\<exists>key p st resp. c = Recording key p st resp \<and> c' = Replied resp \<and> key_completed key d d') \<or>
     keys_alone d d' \<and> owns_key c' \<in> {None, owns_key c} \<or>
     (\<exists>req key s r. c = Executing req key \<and> owns_key c' = None \<and> transfer_applied E req key s r d d')"

lemma keys_alone_refl [simp]: "keys_alone d d"
  by (simp add: keys_alone_def)

lemma call_step_effect:
  assumes canon: "uuid_canonical E" and step: "call_step E c w = (c', w')"
  shows "call_effect E c c' (db w) (db w')"
proof (cases c)
  case (Arrived rq)
  have "call_step E (Arrived rq) w = (c', w')" using step Arrived by simp
  then show ?thesis
    by (cases rule: arrived_cases) (auto simp: Arrived call_effect_def owns_key_def)
next
  case (KeyRefused key)
  obtain r w1 where sel: "sql E (sql_select_key key) w = (r, w1)" by fastforce
  then have "w1 = w\<lparr>tick := Suc (tick w)\<rparr>" by (rule sql_query) (simp add: run_simps)
  with step sel KeyRefused show ?thesis by (auto simp: call_effect_def owns_key_def split: sum.splits if_splits)
next
  case (CheckingOwner claims req key)
  obtain r w1 where get: "GetWalletByID E (tr_SourceWalletID req) w = (r, w1)" by fastforce
  then have "db w1 = db w" by (auto dest: GetWalletByID_reads)
  with step get CheckingOwner show ?thesis by (auto simp: call_effect_def owns_key_def split: if_splits)
next
  case (Executing req key)
  obtain r w1 where ex: "ExecuteTransfer E req key w = (r, w1)" by fastforce
  with step Executing have "w' = w1" "owns_key c' = None" by (auto simp: owns_key_def split: sum.splits)
  with ExecuteTransfer_atomic [OF canon ex] Executing show ?thesis by (auto simp: call_effect_def)
next
  case (Recording key p st resp)
  from step Recording have w': "w' = snd (Complete E key p st w)" "c' = Replied resp" by (auto simp: complete_ignored_def)
  with Complete_db [of E key p st w "fst (Complete E key p st w)" w'] Recording show ?thesis
    by (auto simp: call_effect_def owns_key_def)
next
  case (Replied resp)
  with step show ?thesis by (simp add: call_effect_def)
qed

lemma key_completed_keys: "key_completed key d d' \<Longrightarrow>
    transfers d' = transfers d \<and> ik_Key ` set (idempotency_keys d') = ik_Key ` set (idempotency_keys d)"
  unfolding key_completed_def by (elim exE) (simp add: image_update_where complete_key_def)

lemma keys_alone_ok: "keys_alone d d' \<Longrightarrow> transfer_keys_ok d' = transfer_keys_ok d"
  by (simp add: keys_alone_def transfer_keys_ok_def)

text \<open>The tables after a step: keys are added only, and a transfer is added only for a key that its call owns.\<close>

lemma call_effect_tables:
  assumes "call_effect E c c' d d'" and "transfer_keys_ok d"
    and "\<forall>k. owns E c k \<longrightarrow> k \<notin> t_IdempotencyKey ` set (transfers d)"
  shows "transfer_keys_ok d'" "ik_Key ` set (idempotency_keys d) \<subseteq> ik_Key ` set (idempotency_keys d')"
    "k \<in> t_IdempotencyKey ` set (transfers d') \<Longrightarrow> k \<in> t_IdempotencyKey ` set (transfers d) \<or> owns E c k \<and> owns_key c' = None"
    "owns E c' k \<Longrightarrow> owns E c k \<or> k \<in> ik_Key ` set (idempotency_keys d') - ik_Key ` set (idempotency_keys d)"
proof -
  from assms(1) consider (taken) key p where "key_taken E key p d d'" "owns_key c = None" "owns_key c' \<in> {None, Some key}"
    | (completed) key p st resp where "c = Recording key p st resp" "c' = Replied resp" "key_completed key d d'"
    | (alone) "keys_alone d d'" "owns_key c' \<in> {None, owns_key c}"
    | (applied) req key s r where "c = Executing req key" "owns_key c' = None" "transfer_applied E req key s r d d'"
    unfolding call_effect_def by blast
  then have "transfer_keys_ok d' \<and> ik_Key ` set (idempotency_keys d) \<subseteq> ik_Key ` set (idempotency_keys d') \<and>
    (\<forall>k. (k \<in> t_IdempotencyKey ` set (transfers d') \<longrightarrow> k \<in> t_IdempotencyKey ` set (transfers d) \<or> owns E c k \<and> owns_key c' = None) \<and>
      (owns E c' k \<longrightarrow> owns E c k \<or> k \<in> ik_Key ` set (idempotency_keys d') - ik_Key ` set (idempotency_keys d)))"
  proof cases
    case taken
    with assms(2) idemRepo.key_taken_keys [OF taken(1)] idemRepo.key_taken_frame [OF taken(1)] show ?thesis
      by (auto simp: key_taken_def owns_def)
  next
    case completed
    with key_completed_keys [OF completed(3)] assms(2) show ?thesis
      by (auto simp: transfer_keys_ok_def owns_def owns_key_def)
  next
    case alone
    with keys_alone_ok [OF alone(1)] assms(2) show ?thesis by (auto simp: keys_alone_def owns_def)
  next
    case applied
    from transfer_applied_transfers [OF applied(3)] obtain row where row: "transfers d' = transfers d @ [row]"
      "idempotency_keys d' = idempotency_keys d" "varchar_in E 255 key = Some (t_IdempotencyKey row)"
      "t_IdempotencyKey row \<in> ik_Key ` set (idempotency_keys d)" by blast
    then have own: "owns E c (t_IdempotencyKey row)" using applied(1) by (simp add: owns_def owns_key_def)
    from this assms(3) row assms(2) have "transfer_keys_ok d'" by (auto simp: transfer_keys_ok_def)
    with row own applied(2) show ?thesis by (auto simp: owns_def)
  qed
  then show "transfer_keys_ok d'" "ik_Key ` set (idempotency_keys d) \<subseteq> ik_Key ` set (idempotency_keys d')"
    "k \<in> t_IdempotencyKey ` set (transfers d') \<Longrightarrow> k \<in> t_IdempotencyKey ` set (transfers d) \<or> owns E c k \<and> owns_key c' = None"
    "owns E c' k \<Longrightarrow> owns E c k \<or> k \<in> ik_Key ` set (idempotency_keys d') - ik_Key ` set (idempotency_keys d)" by blast+
qed

lemma keys_inv_arrived: "transfer_keys_ok (db w) \<Longrightarrow> keys_inv E (arrived rqs w)"
  by (simp add: keys_inv_def arrived_def owns_def owns_key_def)

lemma call_effect_owner:
  "call_effect E c c' d d' \<Longrightarrow> owns_key c' \<noteq> None \<Longrightarrow> (owns_key c \<noteq> None \<longrightarrow> (\<exists>k. owns E c k)) \<Longrightarrow> \<exists>k. owns E c' k"
  unfolding call_effect_def owns_def key_taken_def by (auto simp: owns_key_def [of "Replied r" for r])

lemma keys_inv_call:
  assumes inv: "keys_inv E s" and i: "i < length (calls s)" and eff: "call_effect E (calls s ! i) c (db (sw s)) (db w)"
  shows "keys_inv E (s\<lparr>sw := w, calls := (calls s)[i := c]\<rparr>)"
proof -
  let ?d = "db (sw s)" and ?cs = "(calls s)[i := c]"
  from inv have ok: "transfer_keys_ok ?d"
    and some: "\<And>j. j < length (calls s) \<Longrightarrow> owns_key (calls s ! j) \<noteq> None \<Longrightarrow> \<exists>k. owns E (calls s ! j) k"
    and own: "\<And>j k. j < length (calls s) \<Longrightarrow> owns E (calls s ! j) k \<Longrightarrow>
      k \<in> ik_Key ` set (idempotency_keys ?d) \<and> k \<notin> t_IdempotencyKey ` set (transfers ?d)"
    and one: "\<And>j j' k. j < length (calls s) \<Longrightarrow> j' < length (calls s) \<Longrightarrow> owns E (calls s ! j) k \<Longrightarrow> owns E (calls s ! j') k \<Longrightarrow> j' = j"
    unfolding keys_inv_def by blast+
  have "\<forall>k. owns E (calls s ! i) k \<longrightarrow> k \<notin> t_IdempotencyKey ` set (transfers ?d)" using own [OF i] by blast
  note t = call_effect_tables [OF eff ok this]
  have new: "owns E (calls s ! i) k \<or> k \<in> ik_Key ` set (idempotency_keys (db w)) - ik_Key ` set (idempotency_keys ?d)"
    if "owns E c k" for k using t(4) that by blast
  have used: "k \<notin> t_IdempotencyKey ` set (transfers (db w))" if j: "j < length (calls s)" "owns E (?cs ! j) k" for j k
  proof
    assume "k \<in> t_IdempotencyKey ` set (transfers (db w))"
    from t(3) [OF this] show False
    proof
      assume k: "k \<in> t_IdempotencyKey ` set (transfers ?d)"
      then have "k \<in> ik_Key ` set (idempotency_keys ?d)" using ok by (auto simp: transfer_keys_ok_def)
      with k j own new i show False by (cases "j = i") auto
    next
      assume k: "owns E (calls s ! i) k \<and> owns_key c = None"
      with j one i show False by (cases "j = i") (auto simp: owns_def)
    qed
  qed
  have taken: "k \<in> ik_Key ` set (idempotency_keys (db w))" if "j < length (calls s)" "owns E (?cs ! j) k" for j k
    using that own [OF that(1), of k] own [OF i, of k] new [of k] t(2) i by (cases "j = i") auto
  have alone: "\<not> owns E (calls s ! j) k" if "j < length (calls s)" "j \<noteq> i" "owns E c k" for j k
    using new [OF that(3)] own [OF that(1), of k] one [OF i that(1), of k] that(2) by auto
  have unique: "j' = j" if "j < length (calls s)" "j' < length (calls s)" "owns E (?cs ! j) k" "owns E (?cs ! j') k" for j j' k
  proof (cases "j = i"; cases "j' = i")
    assume "j = i" "j' \<noteq> i"
    with that alone [of j' k] i show ?thesis by simp
  next
    assume "j \<noteq> i" "j' = i"
    with that alone [of j k] i show ?thesis by simp
  next
    assume "j \<noteq> i" "j' \<noteq> i"
    with that one [of j j' k] show ?thesis by simp
  qed simp
  have "\<exists>k. owns E (?cs ! j) k" if "j < length (calls s)" "owns_key (?cs ! j) \<noteq> None" for j
    using that some call_effect_owner [OF eff] i by (cases "j = i") auto
  with t(1) used taken unique show ?thesis unfolding keys_inv_def by simp
qed

lemma serving_step_inv:
  assumes "uuid_canonical E" and "keys_inv E s" and "serving_step E s s'"
  shows "keys_inv E s'"
  using assms(3)
proof (cases rule: serving_step.cases)
  case (call i c w)
  with keys_inv_call [OF assms(2) call(2) call_step_effect [OF assms(1) call(3)]] show ?thesis by simp
next
  case (foreign w)
  with assms(2) keys_alone_ok [OF foreign(2)] show ?thesis by (simp add: keys_inv_def keys_alone_def)
qed

lemma serving_reach_inv:
  assumes "uuid_canonical E" and "transfer_keys_ok (db w)" and "(serving_step E)\<^sup>*\<^sup>* (arrived rqs w) s"
  shows "keys_inv E s"
  using assms(3) by (induction rule: rtranclp_induct) (auto intro: keys_inv_arrived [OF assms(2)] serving_step_inv [OF assms(1)])

text \<open>
  C9: at most once, also under concurrency. Let any number of transfer requests arrive at the same time, with any keys, interleaved statement by
  statement with each other and with anything that leaves transfers and keys alone, and with any faults: no two transfers carry the same
  idempotency key, every transfer's key is on record, and no two calls that have passed the idempotency check hold the same key.
\<close>

theorem transfers_once_per_key:
  assumes "uuid_canonical E" and "transfer_keys_ok (db w)" and "(serving_step E)\<^sup>*\<^sup>* (arrived rqs w) s"
  shows "distinct (map t_IdempotencyKey (transfers (db (sw s)))) \<and>
    t_IdempotencyKey ` set (transfers (db (sw s))) \<subseteq> ik_Key ` set (idempotency_keys (db (sw s))) \<and>
    (\<forall>i j k. i < length (calls s) \<longrightarrow> j < length (calls s) \<longrightarrow> owns E (calls s ! i) k \<longrightarrow> owns E (calls s ! j) k \<longrightarrow> i = j)"
  using serving_reach_inv [OF assms] unfolding keys_inv_def transfer_keys_ok_def by blast

text \<open>Of two requests with one key that race, the second finds the key in progress while the first transfers.\<close>

theorem transfers_once_per_key_witness:
  "let s = play demo_env [0, 1, 0, 1, 0] rivals in
     distinct (map t_IdempotencyKey (transfers (db (sw s)))) \<and> length (transfers (db (sw s))) = 1 \<and>
     map_option resp_status (reply_of (calls s ! 1)) = Some 409"
proof -
  let ?s = "play demo_env [0, 1, 0, 1, 0] rivals"
  have reach: "(serving_step demo_env)\<^sup>*\<^sup>* rivals ?s" by (rule play_reaches) (simp add: rivals_def arrived_def)
  have ok: "transfer_keys_ok (db demo_world)" by code_simp
  have seen: "length (transfers (db (sw ?s))) = 1" "map_option resp_status (reply_of (calls ?s ! 1)) = Some 409"
    unfolding rivals_race by code_simp+
  from transfers_once_per_key [OF demo_env_canonical ok reach [unfolded rivals_def]] seen show ?thesis
    by (simp add: rivals_def)
qed

section \<open>The transfer an answer describes\<close>

text \<open>The value \<open>ExecuteTransfer\<close> returns is written from the request; the row holds what the database made of it.\<close>

definition describes :: "env \<Rightarrow> Transfer \<Rightarrow> Transfer \<Rightarrow> bool" where
  "describes E t row \<longleftrightarrow>
     t_ID t = t_ID row \<and> t_Amount t = t_Amount row \<and> t_Status t = t_Status row \<and> t_CreatedAt t = t_CreatedAt row \<and>
     uuid_in E (t_SourceWalletID t) = Some (t_SourceWalletID row) \<and> uuid_in E (t_DestinationWalletID t) = Some (t_DestinationWalletID row) \<and>
     varchar_in E 3 (t_Currency t) = Some (t_Currency row) \<and> varchar_in E 255 (t_IdempotencyKey t) = Some (t_IdempotencyKey row)"

lemma sql_insert_transfer_describes:
  assumes "sql E (sql_insert_transfer E (new_transfer req key)) w = (Inr (i, t), w')"
  shows "\<exists>row. transfers (db w') = transfers (db w) @ [row] \<and> describes E ((new_transfer req key)\<lparr>t_ID := i, t_CreatedAt := t\<rparr>) row"
  using assms by (auto simp: describes_def sql_insert_transfer_def new_transfer_def run_simps row_simps)

lemma record_transfer_describes:
  assumes "record_transfer E req key s r w = (Inr x, w')"
  shows "\<exists>row \<in> set (transfers (db w')). describes E x row \<and> t_IdempotencyKey x = key"
proof -
  from assms obtain i t w1 txn w2 w3 now where
    ins: "sql E (sql_insert_transfer E (new_transfer req key)) w = (Inr (i, t), w1)" and
    led: "CreateTransaction E (transfer_ledger_txn req i s r) w1 = (Inr txn, w2)" and
    w3: "w3 = w2\<lparr>tick := Suc (tick w2)\<rparr>" and
    out: "InsertEvent E ''transfer.events'' (transfer_event ((new_transfer req key)\<lparr>t_ID := i, t_CreatedAt := t\<rparr>)
        (format_RFC3339 E now)) w3 = (Inr (), w')" and
    x: "x = (new_transfer req key)\<lparr>t_ID := i, t_CreatedAt := t\<rparr>"
    by (auto simp: record_transfer_def run_simps Let_def)
  obtain lrow e1 e2 where w2: "db w2 = (db w1)\<lparr>ledger_transactions := ledger_transactions (db w1) @ [lrow],
      ledger_entries := ledger_entries (db w1) @ [e1, e2]\<rparr>"
    by (rule ledgerRepo.create_two_entries [OF led]) (simp add: transfer_ledger_txn_def, blast)
  from InsertEvent_Inr [OF out] sql_insert_transfer_describes [OF ins] show ?thesis
    by (auto simp: w2 w3 x new_transfer_def)
qed

lemma ExecuteTransfer_describes:
  assumes "ExecuteTransfer E req key w = (Inr x, w')"
  shows "\<exists>row \<in> set (transfers (db w')). describes E x row \<and> t_IdempotencyKey x = key"
proof -
  from assms obtain w1 where run: "withTx E (transfer_body E req key) w = (Inr x, w1)" and w': "db w' = db w1"
    by (auto simp: ExecuteTransfer_run transfer_run_def run_simps split: if_splits)
  have "\<exists>row \<in> set (transfers (db w1)). describes E x row \<and> t_IdempotencyKey x = key"
  proof (rule withTx_post [OF run])
    fix w2
    assume "transfer_body E req key (tx_begin E w) = (Inr x, w2)"
    then obtain locked w4 where "transfer_locked E req key locked w4 = (Inr x, w2)" by (auto simp: transfer_body_def run_simps)
    then obtain s r w3 where "record_transfer E req key s r w3 = (Inr x, w2)"
      by (cases "map_back req locked") (auto simp: transfer_locked_def run_simps split: sum.splits)
    from record_transfer_describes [OF this] show "\<exists>row \<in> set (transfers (db w2)). describes E x row \<and> t_IdempotencyKey x = key" .
  qed
  then show ?thesis by (simp add: w')
qed

section \<open>All calls with a key report the same transfer\<close>

text \<open>What the calls with key \<open>K\<close> and its row may say of a transfer, when \<open>j\<close> is the document of it.\<close>

definition tells :: "env \<Rightarrow> json \<Rightarrow> response \<Rightarrow> bool" where
  "tells E j resp \<longleftrightarrow>
     resp_body resp = JsonBody j \<or> (\<exists>pl. jsonb_in E j = Some pl \<and> resp_body resp = JsonBody pl)"

definition row_tells :: "env \<Rightarrow> string \<Rightarrow> json \<Rightarrow> db \<Rightarrow> bool" where
  "row_tells E K j d \<longleftrightarrow>
     (\<forall>row. row_with ik_Key K (idempotency_keys d) = Some row \<and> ik_Status row \<noteq> idem_StatusInProgress \<and>
        ik_ResponseStatus row = Some 201 \<longrightarrow> (\<exists>pl. jsonb_in E j = Some pl \<and> ik_ResponsePayload row = Some pl))"

definition call_tells :: "env \<Rightarrow> string \<Rightarrow> json \<Rightarrow> string \<Rightarrow> transfer_call \<Rightarrow> bool" where
  "call_tells E K j header c \<longleftrightarrow>
     (case c of
        Recording key p st resp \<Rightarrow> key = K \<longrightarrow> resp_status resp = st \<and> (st = 201 \<longrightarrow> p = j \<and> resp_body resp = JsonBody j)
      | Replied resp \<Rightarrow> header = K \<and> resp_status resp = 201 \<longrightarrow> tells E j resp
      | _ \<Rightarrow> True)"

text \<open>Nothing has been said yet.\<close>

definition call_silent :: "string \<Rightarrow> string \<Rightarrow> transfer_call \<Rightarrow> bool" where
  "call_silent K header c \<longleftrightarrow>
     (case c of
        Recording key p st resp \<Rightarrow> key \<noteq> K
      | Replied resp \<Rightarrow> header = K \<longrightarrow> resp_status resp \<noteq> 201
      | _ \<Rightarrow> True)"

definition row_silent :: "string \<Rightarrow> db \<Rightarrow> bool" where
  "row_silent K d \<longleftrightarrow> (\<forall>row. row_with ik_Key K (idempotency_keys d) = Some row \<longrightarrow> ik_Status row = idem_StatusInProgress)"

definition header_ok :: "string \<Rightarrow> transfer_call \<Rightarrow> bool" where
  "header_ok h c \<longleftrightarrow>
     (case c of
        Arrived rq \<Rightarrow> rq_header rq ''Idempotency-Key'' = h
      | KeyRefused key \<Rightarrow> key = h
      | CheckingOwner claims req key \<Rightarrow> key = h
      | Executing req key \<Rightarrow> key = h
      | Recording key p st resp \<Rightarrow> key = h
      | Replied resp \<Rightarrow> True)"

definition headers_ok :: "(nat \<Rightarrow> string) \<Rightarrow> transfer_call list \<Rightarrow> bool" where
  "headers_ok h cs \<longleftrightarrow> (\<forall>i < length cs. header_ok (h i) (cs ! i))"

definition replies_inv :: "env \<Rightarrow> (nat \<Rightarrow> string) \<Rightarrow> string \<Rightarrow> json \<Rightarrow> serving \<Rightarrow> bool" where
  "replies_inv E h K j s \<longleftrightarrow>
     headers_ok h (calls s) \<and>
     (\<forall>i < length (calls s). call_tells E K j (h i) (calls s ! i)) \<and> row_tells E K j (db (sw s)) \<and>
     ((\<exists>i < length (calls s). owns E (calls s ! i) K) \<or> K \<notin> ik_Key ` set (idempotency_keys (db (sw s))) \<longrightarrow>
        (\<forall>i < length (calls s). call_silent K (h i) (calls s ! i)) \<and> row_silent K (db (sw s)))"

lemma silent_tells: "call_silent K h c \<Longrightarrow> call_tells E K j h c" "row_silent K d \<Longrightarrow> row_tells E K j d"
  by (auto simp: call_silent_def call_tells_def row_silent_def row_tells_def split: transfer_call.splits)

lemma replies_inv_arrived:
  assumes "K \<notin> ik_Key ` set (idempotency_keys (db w))"
  shows "replies_inv E (\<lambda>i. rq_header (rqs ! i) ''Idempotency-Key'') K j (arrived rqs w)"
proof -
  from assms have "row_silent K (db w)" by (auto simp: row_silent_def row_with_None_iff [symmetric])
  moreover from this have "row_tells E K j (db w)" for j by (rule silent_tells)
  ultimately show ?thesis
    by (auto simp: replies_inv_def arrived_def headers_ok_def header_ok_def call_tells_def call_silent_def)
qed

text \<open>The row of \<open>K\<close> after each kind of step.\<close>

lemma key_taken_tells:
  assumes "key_taken E key p d d'"
  shows "row_silent K d \<Longrightarrow> row_silent K d'" "row_tells E K j d \<Longrightarrow> row_tells E K j d'"
  using assms
  by (auto simp: key_taken_def row_silent_def row_tells_def row_with_append split: option.splits if_splits)

lemma key_completed_row:
  assumes "d' = d\<lparr>idempotency_keys := update_where ik_Key key (complete_key pl st) (idempotency_keys d)\<rparr>"
  shows "row_with ik_Key K (idempotency_keys d') =
    (if K = key then map_option (complete_key pl st) (row_with ik_Key K (idempotency_keys d)) else row_with ik_Key K (idempotency_keys d))"
  using assms by (simp add: row_with_update_where complete_key_def)

lemma complete_db_cases:
  assumes "w' = complete_ignored E key p st w"
  shows "db w' = db w \<or> (\<exists>pl. jsonb_in E p = Some pl \<and>
    db w' = (db w)\<lparr>idempotency_keys := update_where ik_Key key (complete_key pl st) (idempotency_keys (db w))\<rparr>)"
proof -
  obtain r where run: "sql E (sql_complete_key E key p st) w = (r, w')"
    using assms by (cases "Complete E key p st w") (auto simp: complete_ignored_def Complete_def)
  have "\<exists>pl. jsonb_in E p = Some pl \<and> d = (db w)\<lparr>idempotency_keys := update_where ik_Key key (complete_key pl st) (idempotency_keys (db w))\<rparr>"
    if "sql_complete_key E key p st u t (db w) = Inr (x, d)" for u t x d
    using that by (auto simp: sql_complete_key_def run_simps)
  moreover have "db w' = db w \<or> (\<exists>u t x. sql_complete_key E key p st u t (db w) = Inr (x, db w'))"
    using run by (cases r) (auto simp: sql_Inr_iff dest!: sql_InlD)
  ultimately show ?thesis by blast
qed

section \<open>Each step keeps what has been said\<close>

definition after :: "serving \<Rightarrow> nat \<Rightarrow> transfer_call \<Rightarrow> world \<Rightarrow> serving" where
  "after s i c w = s\<lparr>sw := w, calls := (calls s)[i := c]\<rparr>"

abbreviation open_key :: "env \<Rightarrow> string \<Rightarrow> serving \<Rightarrow> bool" where
  "open_key E K s \<equiv> (\<exists>i < length (calls s). owns E (calls s ! i) K) \<or> K \<notin> ik_Key ` set (idempotency_keys (db (sw s)))"

abbreviation all_silent :: "(nat \<Rightarrow> string) \<Rightarrow> string \<Rightarrow> serving \<Rightarrow> bool" where
  "all_silent h K s \<equiv> (\<forall>i < length (calls s). call_silent K (h i) (calls s ! i)) \<and> row_silent K (db (sw s))"

abbreviation all_tell :: "env \<Rightarrow> (nat \<Rightarrow> string) \<Rightarrow> string \<Rightarrow> json \<Rightarrow> serving \<Rightarrow> bool" where
  "all_tell E h K j s \<equiv> (\<forall>i < length (calls s). call_tells E K j (h i) (calls s ! i)) \<and> row_tells E K j (db (sw s))"

lemma replies_invI:
  "headers_ok h (calls s) \<Longrightarrow> all_tell E h K j s \<Longrightarrow> (open_key E K s \<Longrightarrow> all_silent h K s) \<Longrightarrow> replies_inv E h K j s"
  unfolding replies_inv_def by blast

lemma headers_after: "headers_ok h (calls s) \<Longrightarrow> header_ok (h i) c \<Longrightarrow> headers_ok h (calls (after s i c w))"
  by (simp add: headers_ok_def after_def) (metis nth_list_update_eq nth_list_update_neq)

lemma nth_after: "i < length (calls s) \<Longrightarrow> k < length (calls s) \<Longrightarrow> calls (after s i c w) ! k = (if k = i then c else calls s ! k)"
  by (simp add: after_def nth_list_update)

lemma after_simps [simp]: "sw (after s i c w) = w" "length (calls (after s i c w)) = length (calls s)"
  by (simp_all add: after_def)

text \<open>Nobody has said anything after the step.\<close>

lemma replies_inv_silent:
  assumes "replies_inv E h K j s" and "i < length (calls s)" and "header_ok (h i) c" and "all_silent h K s"
    and "call_silent K (h i) c" and "row_silent K (db w)"
  shows "replies_inv E h K j (after s i c w)"
proof (rule replies_invI)
  from assms have "all_silent h K (after s i c w)" by (simp add: nth_after)
  then show "all_silent h K (after s i c w)" and "all_tell E h K j (after s i c w)" using silent_tells by blast+
  show "headers_ok h (calls (after s i c w))" using assms(1,3) by (simp add: headers_after replies_inv_def)
qed

text \<open>The step says no more than what had been said.\<close>

lemma replies_inv_keep:
  assumes inv: "replies_inv E h K j s" and i: "i < length (calls s)" and "header_ok (h i) c"
    and tell: "all_tell E h K j s \<Longrightarrow> call_tells E K j (h i) c \<and> row_tells E K j (db w)"
    and open': "owns E c K \<or> K \<notin> ik_Key ` set (idempotency_keys (db w)) \<Longrightarrow> open_key E K s"
    and keys: "ik_Key ` set (idempotency_keys (db (sw s))) \<subseteq> ik_Key ` set (idempotency_keys (db w))"
    and silent: "all_silent h K s \<Longrightarrow> call_silent K (h i) c \<and> row_silent K (db w)"
  shows "replies_inv E h K j (after s i c w)"
proof -
  from inv have j: "all_tell E h K j s" and hd: "headers_ok h (calls s)" unfolding replies_inv_def by blast+
  show ?thesis
  proof (rule replies_invI)
    show "headers_ok h (calls (after s i c w))" using hd assms(3) by (rule headers_after)
    show "all_tell E h K j (after s i c w)" using j tell [OF j] i by (simp add: nth_after)
    assume "open_key E K (after s i c w)"
    then have "open_key E K s" using open' i by (auto simp: nth_after split: if_splits)
    with inv have "all_silent h K s" unfolding replies_inv_def by blast
    with silent i show "all_silent h K (after s i c w)" by (simp add: nth_after)
  qed
qed

text \<open>The owner of the key speaks.\<close>

lemma replies_inv_owner:
  assumes ki: "keys_inv E s" and inv: "replies_inv E h K j0 s" and i: "i < length (calls s)" and own: "owns E (calls s ! i) K"
    and c: "header_ok (h i) c" "owns_key c = None" "call_tells E K j (h i) c"
    and keys: "idempotency_keys (db w) = idempotency_keys (db (sw s))"
  shows "replies_inv E h K j (after s i c w)"
proof -
  from inv i own have silent: "all_silent h K s" unfolding replies_inv_def by blast
  then have tell: "all_tell E h K j s" using silent_tells by blast
  have "row_tells E K j (db w)" using tell keys by (simp add: row_tells_def)
  moreover have "K \<in> ik_Key ` set (idempotency_keys (db w))" "\<And>k. k < length (calls s) \<Longrightarrow> owns E (calls s ! k) K \<Longrightarrow> k = i"
    using ki i own keys unfolding keys_inv_def by auto
  then have "\<not> open_key E K (after s i c w)" using c(2) i by (auto simp: nth_after owns_def split: if_splits)
  moreover have "headers_ok h (calls (after s i c w))" using inv c(1) by (simp add: headers_after replies_inv_def)
  moreover have "all_tell E h K j (after s i c w)" using tell c(3) i \<open>row_tells E K j (db w)\<close> by (simp add: nth_after)
  ultimately show ?thesis by (intro replies_invI [of _ _ _ _ j]) blast+
qed

lemma key_taken_grows: "key_taken E key p d d' \<Longrightarrow> ik_Key ` set (idempotency_keys d) \<subseteq> ik_Key ` set (idempotency_keys d')"
  by (auto simp: key_taken_def)

text \<open>The document the calls with key \<open>K\<close> tell of changes only when one of them has executed its transfer.\<close>

definition document :: "env \<Rightarrow> string \<Rightarrow> transfer_call \<Rightarrow> world \<Rightarrow> json \<Rightarrow> json" where
  "document E K c w j =
     (case c of
        Executing req key \<Rightarrow>
          (if key = K then (case fst (ExecuteTransfer E req key w) of Inr t \<Rightarrow> json_of_Transfer E t | Inl _ \<Rightarrow> j) else j)
      | _ \<Rightarrow> j)"

lemma replies_inv_step:
  assumes canon: "uuid_canonical E" and stored: "varchar_in E 255 K = Some K" and ki: "keys_inv E s" and inv: "replies_inv E h K j s"
    and i: "i < length (calls s)" and step: "call_step E (calls s ! i) (sw s) = (c, w)"
  shows "replies_inv E h K (document E K (calls s ! i) (sw s) j) (after s i c w)"
proof -
  let ?d = "db (sw s)"
  from inv i have hd: "header_ok (h i) (calls s ! i)" by (simp add: replies_inv_def headers_ok_def)
  have none: "\<not> owns E c K" if "owns_key c = None" for c using that by (simp add: owns_def)
  text \<open>A step that changes no key and owns what the call owned before.\<close>
  have same: "replies_inv E h K j (after s i c w)"
    if "header_ok (h i) c" "idempotency_keys (db w) = idempotency_keys ?d" "owns E c K \<Longrightarrow> owns E (calls s ! i) K"
      "all_tell E h K j s \<Longrightarrow> call_tells E K j (h i) c" "all_silent h K s \<Longrightarrow> call_silent K (h i) c" for c w
    by (rule replies_inv_keep [OF inv i that(1)]) (use that i in \<open>auto simp: row_tells_def row_silent_def\<close>)
  text \<open>The end of a call that owned a key.\<close>
  have speak: "replies_inv E h K j' (after s i (Recording key p st resp) w)"
    if own: "owns_key (calls s ! i) = Some key" and key: "key = h i" and keys: "idempotency_keys (db w) = idempotency_keys ?d"
      and doc: "resp_status resp = st" "st = 201 \<Longrightarrow> key = K \<Longrightarrow> p = j' \<and> resp_body resp = JsonBody p" and j': "key \<noteq> K \<Longrightarrow> j' = j"
    for key p st resp w j'
  proof (cases "key = K")
    case True
    with own stored have "owns E (calls s ! i) K" by (simp add: owns_def)
    from replies_inv_owner [OF ki inv i this, of "Recording key p st resp" j' w] that show ?thesis
      by (simp add: header_ok_def owns_key_def call_tells_def)
  next
    case False
    then show ?thesis unfolding j' [OF False]
      by (intro same) (simp_all add: header_ok_def key keys none owns_key_def call_tells_def call_silent_def)
  qed
  show ?thesis
  proof (cases "calls s ! i")
    case (Arrived rq)
    let ?key = "rq_header rq ''Idempotency-Key''"
    from hd Arrived have key: "?key = h i" by (simp add: header_ok_def)
    have known: "replies_inv E h K j (after s i c w)"
      if "header_ok (h i) c" "call_tells E K j (h i) c" "call_silent K (h i) c"
        "db w = ?d \<or> (\<exists>p. key_taken E ?key p ?d (db w))" "owns E c K \<Longrightarrow> False" for c w
    proof (rule replies_inv_keep [OF inv i that(1)])
      from that(4) show grows: "ik_Key ` set (idempotency_keys ?d) \<subseteq> ik_Key ` set (idempotency_keys (db w))"
        using key_taken_grows [of E ?key _ ?d "db w"] by auto
      show "open_key E K s" if "owns E c K \<or> K \<notin> ik_Key ` set (idempotency_keys (db w))"
        using that grows \<open>owns E c K \<Longrightarrow> False\<close> by blast
    qed (use that key_taken_tells [of E ?key _ ?d "db w" K] in auto)
    have doc: "document E K (calls s ! i) (sw s) j = j" by (simp add: Arrived document_def)
    have "call_step E (Arrived rq) (sw s) = (c, w)" using step Arrived by simp
    then have "replies_inv E h K j (after s i c w)"
    proof (cases rule: arrived_cases)
      case (refused r)
      then show ?thesis
        by (intro same) (simp_all add: header_ok_def none owns_key_def call_tells_def call_silent_def)
    next
      case (inserted claims req p)
      show ?thesis
      proof (cases "varchar_in E 255 ?key = Some K")
        case True
        with inserted(2) have "K \<notin> ik_Key ` set (idempotency_keys ?d)" by (auto simp: key_taken_def)
        with inv have "all_silent h K s" unfolding replies_inv_def by blast
        with replies_inv_silent [OF inv i, of c w] key_taken_tells(1) [OF inserted(2)] key inserted(1) show ?thesis
          by (simp add: header_ok_def call_silent_def)
      next
        case False
        with inserted key show ?thesis
          by (intro known) (auto simp: header_ok_def call_tells_def call_silent_def owns_def owns_key_def)
      qed
    next
      case (conflict p)
      with key show ?thesis
        by (intro known) (auto simp: header_ok_def call_tells_def call_silent_def owns_def owns_key_def)
    qed
    then show ?thesis unfolding doc .
  next
    case (KeyRefused key)
    from hd KeyRefused have key: "key = h i" by (simp add: header_ok_def)
    obtain r w1 where sel: "sql E (sql_select_key key) (sw s) = (r, w1)" by fastforce
    then have w1: "db w1 = ?d" by (auto dest: sql_query simp: run_simps)
    have replied: "replies_inv E h K j (after s i (Replied resp) w1)"
      if "h i = K \<Longrightarrow> resp_status resp = 201 \<Longrightarrow> \<exists>row. r = Inr row \<and> ik_Status row \<noteq> idem_StatusInProgress \<and> resp = cached_response (key_record row)"
      for resp
    proof (rule same)
      have row: "row_with ik_Key K (idempotency_keys ?d) = Some row" if "h i = K" "r = Inr row" for row
        using sel that key by (auto simp: run_simps)
      show "call_tells E K j (h i) (Replied resp)" if tell: "all_tell E h K j s"
      proof -
        have "tells E j resp" if hK: "h i = K" "resp_status resp = 201"
        proof -
          from \<open>h i = K \<Longrightarrow> resp_status resp = 201 \<Longrightarrow> _\<close> [OF hK] obtain q where q: "r = Inr q"
            "ik_Status q \<noteq> idem_StatusInProgress" "resp = cached_response (key_record q)" by blast
          from q(3) hK(2) have "ik_ResponseStatus q = Some 201"
            by (auto simp: cached_response_def key_record_def split: option.splits)
          with tell row [OF hK(1) q(1)] q(2) obtain pl where "jsonb_in E j = Some pl" "ik_ResponsePayload q = Some pl"
            unfolding row_tells_def by blast
          with q(3) show ?thesis by (simp add: tells_def cached_response_def key_record_def)
        qed
        then show ?thesis by (simp add: call_tells_def)
      qed
      show "call_silent K (h i) (Replied resp)" if "all_silent h K s"
        using that row \<open>h i = K \<Longrightarrow> resp_status resp = 201 \<Longrightarrow> _\<close> by (auto simp: call_silent_def row_silent_def)
    qed (simp_all add: header_ok_def w1 none owns_key_def)
    from step sel KeyRefused have c: "c = Replied (case r of Inl _ \<Rightarrow> http_Error (TextBody ''internal server error'') 500
        | Inr row \<Rightarrow> if ik_Status row = idem_StatusInProgress then http_Error (ErrorBody ErrKeyInProgress) 409
                  else cached_response (key_record row)) \<and> w = w1"
      by (auto simp: key_record_def split: sum.splits if_splits)
    have doc: "document E K (calls s ! i) (sw s) j = j" by (simp add: KeyRefused document_def)
    show ?thesis unfolding doc conjunct1 [OF c] conjunct2 [OF c]
      by (rule replied) (auto simp: http_Error_def split: sum.splits if_splits)
  next
    case (CheckingOwner claims req key)
    from hd CheckingOwner have key: "key = h i" by (simp add: header_ok_def)
    obtain r w1 where get: "GetWalletByID E (tr_SourceWalletID req) (sw s) = (r, w1)" by fastforce
    then have w1: "db w1 = ?d" by (auto dest: GetWalletByID_reads)
    have doc: "document E K (calls s ! i) (sw s) j = j" by (simp add: CheckingOwner document_def)
    have "replies_inv E h K j (after s i (Executing req key) w1)"
      by (rule same) (simp_all add: header_ok_def key w1 owns_def owns_key_def CheckingOwner call_tells_def call_silent_def)
    moreover have "replies_inv E h K j (after s i (Recording key forbidden_payload 403 (http_Error (TextBody ''forbidden'') 403)) w1)"
      by (rule speak) (simp_all add: CheckingOwner owns_key_def key w1 http_Error_def)
    ultimately show ?thesis unfolding doc using step get CheckingOwner by (auto split: if_splits)
  next
    case (Executing req key)
    from hd Executing have key: "key = h i" by (simp add: header_ok_def)
    obtain r w1 where ex: "ExecuteTransfer E req key (sw s) = (r, w1)" by fastforce
    have w1: "idempotency_keys (db w1) = idempotency_keys ?d"
      using ExecuteTransfer_atomic [OF canon ex] transfer_applied_transfers by metis
    have own: "owns_key (calls s ! i) = Some key" by (simp add: Executing owns_key_def)
    show ?thesis
    proof (cases r)
      case (Inl e)
      then have doc: "document E K (calls s ! i) (sw s) j = j" using ex by (auto simp: Executing document_def)
      from Inl step ex Executing have c: "c = Recording key (error_payload E e) 400 (http_Error (ErrorBody e) 400)" "w = w1" by simp_all
      show ?thesis unfolding doc c by (rule speak [OF own key w1]) (simp_all add: http_Error_def)
    next
      case (Inr t)
      let ?j = "json_of_Transfer E t"
      from Inr have doc: "document E K (calls s ! i) (sw s) j = (if key = K then ?j else j)"
        using ex by (auto simp: Executing document_def)
      from Inr step ex Executing have c: "c = Recording key ?j 201 \<lparr>resp_status = 201, resp_body = JsonBody ?j\<rparr>" "w = w1" by simp_all
      show ?thesis unfolding doc c by (rule speak [OF own key w1]) simp_all
    qed
  next
    case (Recording key p st resp)
    from hd Recording have key: "key = h i" by (simp add: header_ok_def)
    from step Recording have c: "c = Replied resp" "w = complete_ignored E key p st (sw s)" by simp_all
    have keys: "ik_Key ` set (idempotency_keys (db w)) = ik_Key ` set (idempotency_keys ?d)"
      using complete_db_cases [OF c(2)] by (elim disjE exE conjE) (simp_all add: image_update_where complete_key_def)
    have "row_with ik_Key K (idempotency_keys (db w)) = row_with ik_Key K (idempotency_keys ?d) \<or>
      key = K \<and> (\<exists>pl. jsonb_in E p = Some pl \<and>
        row_with ik_Key K (idempotency_keys (db w)) = map_option (complete_key pl st) (row_with ik_Key K (idempotency_keys ?d)))"
      using complete_db_cases [OF c(2)] key_completed_row [where d = ?d and d' = "db w" and key = key and st = st and K = K] by (elim disjE exE conjE) auto
    note rows = this
    have doc: "document E K (calls s ! i) (sw s) j = j" by (simp add: Recording document_def)
    show ?thesis unfolding c(1) doc
    proof (rule replies_inv_keep [OF inv i])
      assume tell: "all_tell E h K j s"
      with i Recording have me: "key = K \<Longrightarrow> resp_status resp = st \<and> (st = 201 \<longrightarrow> p = j \<and> resp_body resp = JsonBody j)"
        by (fastforce simp: call_tells_def)
      from rows tell me have "row_tells E K j (db w)"
        by (elim disjE exE conjE) (auto simp: row_tells_def complete_key_def)
      with me key show "call_tells E K j (h i) (Replied resp) \<and> row_tells E K j (db w)"
        by (auto simp: call_tells_def tells_def)
    next
      assume silent: "all_silent h K s"
      with i Recording have "key \<noteq> K" by (fastforce simp: call_silent_def)
      with silent rows key show "call_silent K (h i) (Replied resp) \<and> row_silent K (db w)"
        by (auto simp: call_silent_def row_silent_def)
    qed (simp_all add: header_ok_def keys none owns_key_def)
  next
    case (Replied resp)
    with step have "c = calls s ! i" "w = sw s" by simp_all
    then have "after s i c w = s" using i by (simp add: after_def)
    with inv show ?thesis by (simp add: Replied document_def)
  qed
qed

section \<open>Who reports a transfer has paid\<close>

definition says_paid :: "string \<Rightarrow> string \<Rightarrow> transfer_call \<Rightarrow> bool" where
  "says_paid K header c \<longleftrightarrow>
     (case c of
        Recording key p st resp \<Rightarrow> key = K \<and> (st = 201 \<or> resp_status resp = 201)
      | Replied resp \<Rightarrow> header = K \<and> resp_status resp = 201
      | _ \<Rightarrow> False)"

definition row_paid :: "string \<Rightarrow> db \<Rightarrow> bool" where
  "row_paid K d \<longleftrightarrow>
     (\<exists>row. row_with ik_Key K (idempotency_keys d) = Some row \<and> ik_Status row \<noteq> idem_StatusInProgress \<and> ik_ResponseStatus row = Some 201)"

text \<open>\<open>j\<close> is the document of a transfer on record under the key.\<close>

definition documented :: "env \<Rightarrow> string \<Rightarrow> json \<Rightarrow> db \<Rightarrow> bool" where
  "documented E K j d \<longleftrightarrow>
     (\<exists>row \<in> set (transfers d). t_IdempotencyKey row = K \<and> (\<exists>t. describes E t row \<and> j = json_of_Transfer E t))"

lemma documented_grows: "call_effect E c c' d d' \<Longrightarrow> documented E K j d \<Longrightarrow> documented E K j d'"
  unfolding call_effect_def documented_def
  by (elim disjE exE conjE) (auto simp: key_taken_def key_completed_def keys_alone_def dest!: transfer_applied_transfers)

lemma executed_documented:
  assumes "varchar_in E 255 K = Some K" and "ExecuteTransfer E req K w = (Inr t, w')"
  shows "documented E K (json_of_Transfer E t) (db w')"
proof -
  from ExecuteTransfer_describes [OF assms(2)] obtain row where row: "row \<in> set (transfers (db w'))" "describes E t row" "t_IdempotencyKey t = K" by blast
  with assms(1) have "t_IdempotencyKey row = K" by (simp add: describes_def)
  with row show ?thesis unfolding documented_def by blast
qed

lemma document_step:
  assumes "varchar_in E 255 K = Some K" and "call_step E c w = (c', w')"
  shows "document E K c w j = j \<or> documented E K (document E K c w j) (db w')"
proof (cases "\<exists>req t w1. c = Executing req K \<and> ExecuteTransfer E req K w = (Inr t, w1)")
  case True
  then obtain req t w1 where "c = Executing req K" "ExecuteTransfer E req K w = (Inr t, w1)" by blast
  with assms(2) executed_documented [OF assms(1) this(2)] show ?thesis by (simp add: document_def)
next
  case False
  then have "document E K c w j = j"
    by (auto simp: document_def split: transfer_call.splits sum.splits) (metis prod.collapse)+
  then show ?thesis ..
qed

lemma key_taken_paid: "key_taken E key p d d' \<Longrightarrow> row_paid K d' \<Longrightarrow> row_paid K d"
  by (auto simp: key_taken_def row_paid_def row_with_append split: option.splits if_splits)

lemma call_step_paid:
  assumes canon: "uuid_canonical E" and stored: "varchar_in E 255 K = Some K" and hd: "header_ok h c"
    and step: "call_step E c w = (c', w')" and said: "says_paid K h c' \<or> row_paid K (db w')"
  shows "says_paid K h c \<or> row_paid K (db w) \<or> documented E K (document E K c w j) (db w')"
proof (cases c)
  case (Arrived rq)
  let ?key = "rq_header rq ''Idempotency-Key''"
  have "call_step E (Arrived rq) w = (c', w')" using step Arrived by simp
  then show ?thesis
  proof (cases rule: arrived_cases)
    case refused
    with said show ?thesis by (simp add: says_paid_def)
  next
    case inserted
    with said key_taken_paid [of E ?key _ "db w" "db w'" K] show ?thesis by (simp add: says_paid_def)
  next
    case conflict
    with said key_taken_paid [of E ?key _ "db w" "db w'" K] show ?thesis by (auto simp: says_paid_def)
  qed
next
  case (KeyRefused key)
  obtain r w1 where sel: "sql E (sql_select_key key) w = (r, w1)" by fastforce
  then have w1: "w1 = w\<lparr>tick := Suc (tick w)\<rparr>" by (rule sql_query) (simp add: run_simps)
  have "row_paid key (db w)" if "r = Inr row" "ik_Status row \<noteq> idem_StatusInProgress" "resp_status (cached_response (key_record row)) = 201" for row
    using sel that by (auto simp: run_simps row_paid_def cached_response_def key_record_def split: option.splits)
  with step sel KeyRefused said hd w1 show ?thesis
    by (auto simp: says_paid_def http_Error_def header_ok_def key_record_def split: sum.splits if_splits)
next
  case (CheckingOwner claims req key)
  obtain r w1 where get: "GetWalletByID E (tr_SourceWalletID req) w = (r, w1)" by fastforce
  then have "db w1 = db w" by (auto dest: GetWalletByID_reads)
  with step get CheckingOwner said show ?thesis by (auto simp: says_paid_def http_Error_def split: if_splits)
next
  case (Executing req key)
  obtain r w1 where ex: "ExecuteTransfer E req key w = (r, w1)" by fastforce
  have keys: "idempotency_keys (db w1) = idempotency_keys (db w)"
    using ExecuteTransfer_atomic [OF canon ex] transfer_applied_transfers by metis
  show ?thesis
  proof (cases r)
    case (Inl e)
    with step ex Executing said keys show ?thesis by (auto simp: says_paid_def http_Error_def row_paid_def)
  next
    case (Inr t)
    have "key = K \<Longrightarrow> documented E K (document E K c w j) (db w1)"
      using executed_documented [OF stored] ex by (auto simp: Executing Inr document_def)
    with step ex Executing Inr said keys show ?thesis by (auto simp: says_paid_def row_paid_def)
  qed
next
  case (Recording key p st resp)
  from step Recording have c: "c' = Replied resp" "w' = complete_ignored E key p st w" by simp_all
  have "row_with ik_Key K (idempotency_keys (db w')) = row_with ik_Key K (idempotency_keys (db w)) \<or>
    key = K \<and> (\<exists>pl. row_with ik_Key K (idempotency_keys (db w')) = map_option (complete_key pl st) (row_with ik_Key K (idempotency_keys (db w))))"
    using complete_db_cases [OF c(2)] key_completed_row [where d = "db w" and d' = "db w'" and key = key and st = st and K = K]
    by (elim disjE exE conjE) auto
  with said hd c Recording show ?thesis
    by (elim disjE exE conjE) (auto simp: says_paid_def row_paid_def header_ok_def complete_key_def)
next
  case (Replied resp)
  with step said show ?thesis by auto
qed

definition paid_inv :: "env \<Rightarrow> (nat \<Rightarrow> string) \<Rightarrow> string \<Rightarrow> json \<Rightarrow> serving \<Rightarrow> bool" where
  "paid_inv E h K j s \<longleftrightarrow>
     ((\<exists>i < length (calls s). says_paid K (h i) (calls s ! i)) \<or> row_paid K (db (sw s)) \<longrightarrow> documented E K j (db (sw s)))"

lemma paid_inv_step:
  assumes canon: "uuid_canonical E" and stored: "varchar_in E 255 K = Some K" and hd: "headers_ok h (calls s)" and inv: "paid_inv E h K j s"
    and i: "i < length (calls s)" and step: "call_step E (calls s ! i) (sw s) = (c, w)"
  shows "paid_inv E h K (document E K (calls s ! i) (sw s) j) (after s i c w)"
  unfolding paid_inv_def
proof
  assume said: "(\<exists>k < length (calls (after s i c w)). says_paid K (h k) (calls (after s i c w) ! k)) \<or> row_paid K (db (sw (after s i c w)))"
  have hi: "header_ok (h i) (calls s ! i)" using hd i by (simp add: headers_ok_def)
  from said have "(\<exists>k < length (calls s). says_paid K (h k) (calls s ! k)) \<or> says_paid K (h i) c \<or> row_paid K (db w)"
    using i by (auto simp: nth_after split: if_splits)
  with call_step_paid [OF canon stored hi step] i
  have "((\<exists>k < length (calls s). says_paid K (h k) (calls s ! k)) \<or> row_paid K (db (sw s))) \<or>
      documented E K (document E K (calls s ! i) (sw s) j) (db w)" by blast
  with inv documented_grows [OF call_step_effect [OF canon step]] document_step [OF stored step, of j]
  show "documented E K (document E K (calls s ! i) (sw s) j) (db (sw (after s i c w)))"
    unfolding paid_inv_def by auto
qed

lemma foreign_keeps:
  assumes "keys_alone (db (sw s)) (db w)"
  shows "replies_inv E h K j (s\<lparr>sw := w\<rparr>) = replies_inv E h K j s" "paid_inv E h K j (s\<lparr>sw := w\<rparr>) = paid_inv E h K j s"
  using assms
  by (simp_all add: replies_inv_def row_tells_def row_silent_def paid_inv_def row_paid_def documented_def keys_alone_def)

lemma serving_reach_replies:
  assumes canon: "uuid_canonical E" and stored: "varchar_in E 255 K = Some K" and ok: "transfer_keys_ok (db w)"
    and new: "K \<notin> ik_Key ` set (idempotency_keys (db w))" and reach: "(serving_step E)\<^sup>*\<^sup>* (arrived rqs w) s"
  shows "length (calls s) = length rqs \<and> (\<exists>j. replies_inv E (\<lambda>i. rq_header (rqs ! i) ''Idempotency-Key'') K j s \<and>
    paid_inv E (\<lambda>i. rq_header (rqs ! i) ''Idempotency-Key'') K j s)"
  using reach
proof (induction rule: rtranclp_induct)
  case base
  have "\<not> row_paid K (db w)" using new by (auto simp: row_paid_def row_with_None_iff [symmetric])
  then have "paid_inv E (\<lambda>i. rq_header (rqs ! i) ''Idempotency-Key'') K j (arrived rqs w)" for j
    by (auto simp: paid_inv_def arrived_def says_paid_def)
  with replies_inv_arrived [OF new] show ?case by (auto simp: arrived_def)
next
  case (step s1 s2)
  note ki = serving_reach_inv [OF canon ok step(1)]
  let ?h = "\<lambda>i. rq_header (rqs ! i) ''Idempotency-Key''"
  from step.IH obtain j where len: "length (calls s1) = length rqs" and inv: "replies_inv E ?h K j s1" "paid_inv E ?h K j s1" by blast
  from step(2) show ?case
  proof (cases rule: serving_step.cases)
    case (call i c w')
    have "headers_ok ?h (calls s1)" using inv(1) by (simp add: replies_inv_def)
    with replies_inv_step [OF canon stored ki inv(1) call(2,3)] paid_inv_step [OF canon stored _ inv(2) call(2,3)] call(1) len show ?thesis
      by (auto simp: after_def)
  next
    case (foreign w')
    with len inv foreign_keeps [OF foreign(2)] show ?thesis by auto
  qed
qed

text \<open>
  C10: idempotent answers. Let any number of requests with the same new key arrive at the same time, interleaved statement by statement with each
  other, with requests under other keys and with anything that leaves transfers and keys alone, and with any faults. As soon as one of
  them is answered with 201, exactly one transfer carries the key, and all answers 201 give the same document: \<open>json_of_Transfer\<close> of a transfer
  with the identifier, wallets, amount, currency, status, key and time of this row, as it was written or as the database stored it.
\<close>

theorem replies_agree:
  assumes "uuid_canonical E" and "varchar_in E 255 K = Some K" and "transfer_keys_ok (db w)"
    and "K \<notin> ik_Key ` set (idempotency_keys (db w))" and "(serving_step E)\<^sup>*\<^sup>* (arrived rqs w) s"
  shows "\<exists>j. \<forall>i < length rqs. \<forall>resp. rq_header (rqs ! i) ''Idempotency-Key'' = K \<longrightarrow> calls s ! i = Replied resp \<longrightarrow> resp_status resp = 201 \<longrightarrow>
    (resp_body resp = JsonBody j \<or> (\<exists>pl. jsonb_in E j = Some pl \<and> resp_body resp = JsonBody pl)) \<and>
    (\<exists>row t. filter (\<lambda>x. t_IdempotencyKey x = K) (transfers (db (sw s))) = [row] \<and> describes E t row \<and> j = json_of_Transfer E t)"
proof -
  from serving_reach_replies [OF assms] obtain j where len: "length (calls s) = length rqs"
    and inv: "replies_inv E (\<lambda>i. rq_header (rqs ! i) ''Idempotency-Key'') K j s" "paid_inv E (\<lambda>i. rq_header (rqs ! i) ''Idempotency-Key'') K j s"
    by blast
  then have j: "\<forall>i < length rqs. call_tells E K j (rq_header (rqs ! i) ''Idempotency-Key'') (calls s ! i)"
    by (auto simp: replies_inv_def)
  have dist: "distinct (map t_IdempotencyKey (transfers (db (sw s))))"
    using serving_reach_inv [OF assms(1,3,5)] by (simp add: keys_inv_def transfer_keys_ok_def)
  have one: "filter (\<lambda>t. t_IdempotencyKey t = t_IdempotencyKey row) ts = [row]" if "distinct (map t_IdempotencyKey ts)" "row \<in> set ts" for ts row
    using that by (induction ts) (auto simp: filter_empty_conv image_iff)
  show ?thesis
  proof (intro exI [of _ j] allI impI)
    fix i resp
    assume i: "i < length rqs" "rq_header (rqs ! i) ''Idempotency-Key'' = K" "calls s ! i = Replied resp" "resp_status resp = 201"
    from j i have "tells E j resp" by (auto simp: call_tells_def)
    moreover have "documented E K j (db (sw s))"
      using inv(2) len i unfolding paid_inv_def by (auto simp: says_paid_def)
    ultimately show "(resp_body resp = JsonBody j \<or> (\<exists>pl. jsonb_in E j = Some pl \<and> resp_body resp = JsonBody pl)) \<and>
        (\<exists>row t. filter (\<lambda>x. t_IdempotencyKey x = K) (transfers (db (sw s))) = [row] \<and> describes E t row \<and> j = json_of_Transfer E t)"
      using one [OF dist] unfolding tells_def documented_def by blast
  qed
qed

text \<open>The first request is served while the second waits for the row; both are then answered with 201.\<close>

theorem replies_agree_witness:
  "let s = play demo_env [0, 1, 0, 0, 0, 1] rivals in
     \<exists>j. \<forall>i < 2. \<exists>resp. calls s ! i = Replied resp \<and> resp_status resp = 201 \<and>
       (resp_body resp = JsonBody j \<or> (\<exists>pl. jsonb_in demo_env j = Some pl \<and> resp_body resp = JsonBody pl)) \<and>
       (\<exists>row t. filter (\<lambda>x. t_IdempotencyKey x = ''key-2'') (transfers (db (sw s))) = [row] \<and> describes demo_env t row \<and> j = json_of_Transfer demo_env t)"
proof -
  define s where "s = play demo_env [0, 1, 0, 0, 0, 1] rivals"
  have reach: "(serving_step demo_env)\<^sup>*\<^sup>* rivals s"
    unfolding s_def by (rule play_reaches) (simp add: rivals_def arrived_def)
  have ok: "transfer_keys_ok (db demo_world)" "''key-2'' \<notin> ik_Key ` set (idempotency_keys (db demo_world))" by code_simp+
  have key: "varchar_in demo_env 255 ''key-2'' = Some ''key-2''" by code_simp
  have both: "map_option resp_status (reply_of (calls s ! 0)) = Some 201" "map_option resp_status (reply_of (calls s ! 1)) = Some 201"
    unfolding s_def rivals_race by code_simp+
  have said: "\<exists>resp. calls s ! i = Replied resp \<and> resp_status resp = 201" if "i < 2" for i
    using that both by (auto simp: reply_of_Some less_2_cases_iff)
  have head: "rq_header ([demo_request ''key-2'', demo_request ''key-2''] ! i) ''Idempotency-Key'' = ''key-2''" if "i < 2" for i
    using that by (auto simp: demo_request_def less_2_cases_iff)
  from replies_agree [OF demo_env_canonical key ok reach [unfolded rivals_def]] obtain j where
    j: "\<forall>i < 2. \<forall>resp. rq_header ([demo_request ''key-2'', demo_request ''key-2''] ! i) ''Idempotency-Key'' = ''key-2'' \<longrightarrow>
      calls s ! i = Replied resp \<longrightarrow> resp_status resp = 201 \<longrightarrow>
      (resp_body resp = JsonBody j \<or> (\<exists>pl. jsonb_in demo_env j = Some pl \<and> resp_body resp = JsonBody pl)) \<and>
      (\<exists>row t. filter (\<lambda>x. t_IdempotencyKey x = ''key-2'') (transfers (db (sw s))) = [row] \<and> describes demo_env t row \<and> j = json_of_Transfer demo_env t)"
    by (auto simp: numeral_2_eq_2)
  show ?thesis unfolding Let_def s_def [symmetric]
  proof (intro exI [of _ j] allI impI)
    fix i :: nat
    assume i: "i < 2"
    from said [OF i] obtain resp where resp: "calls s ! i = Replied resp" "resp_status resp = 201" by blast
    note said = j [rule_format, OF i head [OF i] resp]
    show "\<exists>resp. calls s ! i = Replied resp \<and> resp_status resp = 201 \<and>
       (resp_body resp = JsonBody j \<or> (\<exists>pl. jsonb_in demo_env j = Some pl \<and> resp_body resp = JsonBody pl)) \<and>
       (\<exists>row t. filter (\<lambda>x. t_IdempotencyKey x = ''key-2'') (transfers (db (sw s))) = [row] \<and> describes demo_env t row \<and> j = json_of_Transfer demo_env t)"
      by (rule exI [of _ resp], rule conjI [OF resp(1) conjI [OF resp(2) said]])
  qed
qed

end
