(* ===== verification/Spec2Isabelle.thy ===== *)
theory Spec2Isabelle
  imports System_Books Webhook_Concurrency Startup Demo_Fund Webhook_Script Outbox_Concurrency Reconciliation_Concurrency Idempotency_Concurrency
begin

text \<open>
  A verification of the wallet and ledger service, a Go program (\<open>cmd/api\<close>, \<open>internal/*\<close>) that keeps its state in
  PostgreSQL (\<open>db/migrations\<close>). Clients register and log in (\<open>auth\<close>), open wallets (\<open>wallets\<close>), are funded by a payment
  provider (\<open>payments\<close>) and transfer money (\<open>transfers\<close>, guarded by \<open>idempotency\<close> keys). Every movement of money is a
  row update of \<open>wallets\<close> together with a balanced transaction of the double-entry ledger (\<open>ledger\<close>) and an
  event in an \<open>outbox\<close> table, in one database transaction. A worker publishes the outbox to Kafka (\<open>kafka\<close>),
  another audits wallets against the ledger (\<open>reconciliation\<close>). \<open>server\<close> mounts the handlers behind the middlewares
  (\<open>middleware\<close>, with the rate limiter of \<open>redis\<close>), \<open>config\<close> reads the settings.

  \<^bold>\<open>How the code is modelled.\<close> A handler, service method or repository method is a definition of the same name
  (with the package as a prefix where two packages share a name), of type \<open>'a M\<close>: it takes the \<open>world\<close> (the database, a counter of
  interactions, the start of the open transaction, the metrics, the Kafka log, the Redis store) and returns
  a value or an error with the new world. Errors are values of the datatype \<open>error\<close>, with the sentinels of the code and the
  wrapping of \<open>fmt.Errorf\<close>. A SQL statement is a partial function on the database, run by \<open>sql\<close>; \<open>withTx\<close> is the pattern
  \<open>Begin\<close>, body, \<open>Commit\<close>, deferred \<open>Rollback\<close>. \<open>int64\<close> and \<open>BIGINT\<close> are 64-bit words: Go wraps, the database raises an error.
  The tables are lists of records, inserts check the constraints of the migrations.

  \<^bold>\<open>What is a parameter.\<close> The record \<open>env\<close>: how PostgreSQL reads UUIDs, \<open>VARCHAR\<close> and \<open>JSONB\<close> values, its identifiers and clock,
  the outcome of every statement, commit, produce and Redis call (also the acknowledgement that is lost after the
  effect), the place where a result breaks off, the clocks, the random draws, the HMAC, and the text of times. \<open>authlib\<close>: bcrypt and
  golang-jwt. \<open>http_lib\<close>: chi, its CORS and address middlewares and the Prometheus handler. \<open>boot_lib\<close>: the connections of the client libraries.
  Theorems quantify over these records. Where one relies on documented behaviour, the hypothesis has a name: \<open>uuid_canonical\<close>
  (the canonical form of a UUID is read as itself), \<open>uuid_generated\<close>, \<open>varchar_exact\<close> (a text that fits is stored as it is),
  \<open>pg_ok\<close> and \<open>pg_laws\<close> (these together, with the nil UUID), \<open>jwt_ok\<close>, \<open>bcrypt_ok\<close>, \<open>prom_reads\<close>. \<open>fault_free\<close> appears only where the claim is
  that something succeeds. The environment \<open>demo_env\<close> of the theory Demo shows that they can hold.

  \<^bold>\<open>The theories.\<close>
  \<^item> Prelude: words, errors, decimal text, JSON values, tables as lists. Observability: \<open>internal/observability\<close>.
    Database: rows and constraints of \<open>db/migrations\<close>. Effects: environment, world, statements, transactions, and the locale
    \<open>db_relation\<close>, a reflexive and transitive relation between databases, with the rules that carry it through a computation.
    Json_Text: the text of JSON documents as \<open>encoding/json\<close> writes and reads it; what is written is read back, and the reader needs no more fuel than the
    length of the text. Json: the fields \<open>encoding/json\<close> fills. Demo: the concrete environment and state of the witnesses.
  \<^item> Ledger: \<open>internal/ledger\<close>. The balance check against exact arithmetic (it wraps at 2 to the 64), the whole effect of an accepted
    transaction, and the locale \<open>ledger_repository\<close> through which transfers and payments use it.
  \<^item> Wallets, Wallet_Handlers: \<open>internal/wallets\<close>. Creation, access, confinement of what a reader is told.
  \<^item> Idempotency: \<open>internal/idempotency\<close>, with the locale \<open>idempotency_repository\<close>.
  \<^item> Transfers, Transfer_Correctness, Transfer_Handler: \<open>internal/transfers\<close>. The complete effect of a successful transfer
    (\<open>transfer_applied\<close>), atomicity under faults, refinement of a movement between two abstract balances,
    refusals, success, books; then the idempotent handler: replay, conflicts, authority.
  \<^item> Idempotency_Concurrency: calls of \<open>HandleTransfer\<close> with the same key, statement by statement. An uninterrupted call is \<open>HandleTransfer\<close>; a key pays for at
    most one transfer, and all callers that are told of a transfer are told of the same one.
  \<^item> Concurrency: the same \<open>ExecuteTransfer\<close> statement by statement, with the row locks of \<open>SELECT ... FOR UPDATE\<close>: an uninterrupted session is
    \<open>ExecuteTransfer\<close>, interleavings are serialisable, the lock order excludes deadlocks among transfers.
  \<^item> Webhook_Concurrency: \<open>ProcessWebhook\<close> statement by statement beside the sessions of Concurrency, with the waits at the unique index of the events, at the row of the payment and at
    the row of the wallet. An uninterrupted session is \<open>ProcessWebhook\<close>, interleavings are serialisable, transfers and webhooks do not deadlock (the comment in \<open>ProcessWebhook\<close> asks for
    care there), every schedule ends.
  \<^item> Payments: \<open>internal/payments\<close>. A webhook is all or nothing, payments follow their state machine and are booked once.
    Demo_Fund: the demo endpoint from the request to the balance. Webhook_Script: \<open>scripts/simulate_webhook.go\<close> against the endpoint.
  \<^item> Outbox, Outbox_Correctness: \<open>internal/outbox\<close> and \<open>Publish\<close> of \<open>internal/kafka\<close>. At-least-once delivery, the bound on retries.
  \<^item> Reconciliation: \<open>internal/reconciliation\<close>. When a run says PASSED.
  \<^item> Auth, Auth_Correctness: \<open>internal/auth\<close>. Registration, login, tokens.
  \<^item> Middleware: \<open>internal/middleware\<close> and \<open>internal/redis\<close>. The gate, the roles, the window of the limiter.
  \<^item> Server: \<open>internal/config\<close> and the routes of \<open>internal/server\<close>. What can be done without a token.
  \<^item> Startup: \<open>cmd/api/main.go\<close>, the connections of \<open>database\<close>, \<open>redis\<close> and \<open>kafka\<close>, the logger, start and shutdown of the server.
  \<^item> System: requests and worker runs as an inductive step relation with its reachable states, and the locales \<open>request_contract\<close> and \<open>service_contract\<close>: what the
    server relies on of the services, from which a relation between databases follows for every request and every run.
  \<^item> Table_Contract: the locales \<open>statement_contract\<close> and \<open>table_contract\<close> derive these contracts from the inserts and updates of the tables.
    Interpretations: the tables of record only grow, the schema holds, the status of a wallet is changed by administrators only.
  \<^item> Outbox_Concurrency: several workers, interleaved statement by statement with each other and with requests. Delivery and the bound on retries hold for any number
    of workers; two workers can take the same event.
  \<^item> System_Books: the contract for the books of the system (the central invariant): no negative balance, wallets equal to their
    ledger net, debits equal to credits, payments booked once, and as much money as succeeded payments.
  \<^item> Reconciliation_Concurrency: the statements of reconciliation runs, interleaved with everything else: no false alarm.
  \<^item> This theory: properties that join components.

  \<^bold>\<open>Loops.\<close> The loops of the code run over a slice, a result or a list of wake-ups and are structural recursions, so that no fuel is needed. The reader of JSON takes the length of the text as fuel, which reads whatever any fuel
  reads (\<open>read_value_length_enough\<close>). The
  \<open>Start\<close> loops of the workers take the list of wake-ups their \<open>select\<close> receives; the list ends or has a cancellation.

  \<^bold>\<open>Not modelled.\<close> Requests and worker runs are atomic steps in the theory System; the interleaving of statements is modelled for
  transfers, webhooks, calls of \<open>HandleTransfer\<close>, reconciliation runs and outbox workers, in the theories with Concurrency in their names. In
  Idempotency_Concurrency the transfer of a call is one step, and what others do between the steps leaves transfers and keys alone: no other code writes these tables. In Concurrency, what follows the two locks of a transfer is one step,
  in Webhook_Concurrency what follows the wait for the wallet, because it reads what is locked and waits no more; every other transaction is one step that
  waits for what the sessions hold, and lock waits between two such transactions are not modelled. Panics and the middlewares \<open>Recoverer\<close> and \<open>Timeout\<close>, request identifiers, access logs
  and the collectors of Prometheus have no effect on the state and are left out.
  The frontend, the load test of \<open>scripts\<close> and the Down migrations are not part of the service.
\<close>

section \<open>Wallet status and transfers\<close>

lemma frozen_by_handler:
  assumes "HandleFreezeWallet E rq w = (resp, w')" and "resp_status resp = 200"
  shows "\<exists>k r. uuid_in E (rq_id rq) = Some k \<and> row_with w_ID k (wallets (db w')) = Some r \<and> w_Status r = wallets_StatusFrozen"
proof -
  from assms have "UpdateWalletStatus E (rq_id rq) wallets_StatusFrozen w = (Inr (), w')"
    by (auto simp: HandleFreezeWallet_def walletService_FreezeWallet_def set_status_response_def http_Error_def
        split: prod.splits sum.splits if_splits)
  then obtain k where k: "uuid_in E (rq_id rq) = Some k" and mem: "filter (\<lambda>r. w_ID r = k) (wallets (db w)) \<noteq> []"
    and ws: "wallets (db w') = update_where w_ID k (\<lambda>r. r\<lparr>w_Status := wallets_StatusFrozen, w_UpdatedAt := NOW E w\<rparr>) (wallets (db w))"
    by (auto simp: UpdateWalletStatus_def sql_update_wallet_status_def run_simps split: if_splits)
  from mem obtain r where "row_with w_ID k (wallets (db w)) = Some r"
    by (cases "row_with w_ID k (wallets (db w))") (auto simp: row_with_None_iff filter_empty_conv)
  with k ws show ?thesis by (auto simp: row_with_update_where)
qed

text \<open>
  Steps of the system that need no administrator: batches, reconciliation runs, and requests none of whose tokens is valid for a user of the role
  SYSTEM or ADMIN.
\<close>

inductive unadministered_step :: "http_lib \<Rightarrow> authlib \<Rightarrow> env \<Rightarrow> Config \<Rightarrow> bool \<Rightarrow> world \<Rightarrow> world \<Rightarrow> bool"
  for C L E cfg hasRedis where
    request: "(\<And>n tok c. rq_header rq ''Authorization'' = ''Bearer '' @ tok \<Longrightarrow>
        ValidateToken L (time_Now E n) tok (cfg_JWTSecret cfg) = Inr c \<Longrightarrow> c_Role c \<noteq> ''SYSTEM'' \<and> c_Role c \<noteq> ''ADMIN'') \<Longrightarrow>
      unadministered_step C L E cfg hasRedis w (snd (NewServer C L E cfg hasRedis rq w))"
  | outbox_tick: "unadministered_step C L E cfg hasRedis w (snd (processBatch E w))"
  | reconciliation_tick: "unadministered_step C L E cfg hasRedis w (snd (RunReconciliation E w))"

lemma unadministered_status:
  assumes "prom_reads C" and "(unadministered_step C L E cfg hasRedis)\<^sup>*\<^sup>* w w'"
  shows "status_kept (db w) (db w')"
  using assms(2)
proof (induction rule: rtranclp_induct)
  case base
  show ?case by (rule status.R_refl)
next
  case (step w1 w2)
  from step(2) have "status_kept (db w1) (db w2)"
  proof (cases rule: unadministered_step.cases)
    case (request rq)
    then have "status.admits L E (cfg_JWTSecret cfg) rq" by (auto simp: status.admits_def not_administrator_def)
    from status.server [OF assms(1) this] request(1) show ?thesis by simp
  next
    case outbox_tick
    then show ?thesis by (simp add: status.batch)
  next
    case reconciliation_tick
    then show ?thesis by (simp add: status.reconciliation)
  qed
  with step.IH show ?case by (rule status.R_trans)
qed

lemma status_kept_row:
  assumes "status_kept d d'" and "row_with w_ID k (wallets d) = Some r"
  shows "\<exists>r'. row_with w_ID k (wallets d') = Some r' \<and> w_Status r' = w_Status r"
proof -
  have "\<exists>r'. row_with w_ID k vs = Some r' \<and> w_Status r' = w_Status r"
    if "map (\<lambda>r. (w_ID r, w_Status r)) vs = map (\<lambda>r. (w_ID r, w_Status r)) us @ rs" "row_with w_ID k us = Some r" for us vs rs
    using that
  proof (induction us arbitrary: vs)
    case (Cons u us)
    then obtain v vs' where vs: "vs = v # vs'" "w_ID v = w_ID u" "w_Status v = w_Status u"
      "map (\<lambda>r. (w_ID r, w_Status r)) vs' = map (\<lambda>r. (w_ID r, w_Status r)) us @ rs" by (cases vs) auto
    with Cons show ?case by (cases "w_ID u = k") auto
  qed simp
  with assms show ?thesis unfolding status_kept_def by blast
qed

text \<open>
  C24: a frozen wallet neither pays nor is paid. Once \<open>HandleFreezeWallet\<close> has answered 200, every transfer that names the
  wallet as source or destination fails and changes nothing, after any number of requests without an administrator's token, batches and
  reconciliation runs and whatever faults occur: until a request of an administrator, nothing in the system makes the wallet move money by a transfer again.
\<close>

theorem frozen_wallet_blocks_transfers:
  assumes "uuid_canonical E" and "prom_reads C" and "HandleFreezeWallet E rq w = (resp, w1)" and "resp_status resp = 200"
    and "(unadministered_step C L E cfg hasRedis)\<^sup>*\<^sup>* w1 w2"
    and "uuid_in E (rq_id rq) \<in> {uuid_in E (tr_SourceWalletID req), uuid_in E (tr_DestinationWalletID req)}"
    and "ExecuteTransfer E req key w2 = (res, w3)"
  shows "db w3 = db w2 \<and> isl res"
proof -
  from frozen_by_handler [OF assms(3,4)] status_kept_row [OF unadministered_status [OF assms(2,5)]] obtain k x where k: "uuid_in E (rq_id rq) = Some k"
    "row_with w_ID k (wallets (db w2)) = Some x" "w_Status x = wallets_StatusFrozen" by metis
  have no: "\<not> transfer_applied E req key s r (db w2) d" for s r d
  proof
    assume "transfer_applied E req key s r (db w2) d"
    then have g: "transfer_guard E req s r (db w2)" by (simp add: transfer_applied_def)
    with assms(6) k(1) have "k = w_ID s \<or> k = w_ID r" unfolding transfer_guard_def by auto
    moreover from g have "row_with w_ID (w_ID s) (wallets (db w2)) = Some s" "row_with w_ID (w_ID r) (wallets (db w2)) = Some r"
      "w_Status s = wallets_StatusActive" "w_Status r = wallets_StatusActive" by (simp_all add: transfer_guard_def)
    ultimately have "w_Status x = wallets_StatusActive" using k(2) by (elim disjE) simp_all
    with k(3) show False by (simp add: wallets_StatusFrozen_def wallets_StatusActive_def)
  qed
  then have "db w3 = db w2" using ExecuteTransfer_atomic [OF assms(1,7)] by blast
  moreover have "isl res"
  proof (cases res)
    case (Inr t)
    with ExecuteTransfer_Inr [OF assms(1), of req key w2 t w3] assms(7) no show ?thesis by blast
  qed simp
  ultimately show ?thesis ..
qed

text \<open>Bob's wallet is frozen; Alice, who is no administrator, asks to unfreeze it; the transfer to it fails.\<close>

definition unfreeze_request :: request where
  "unfreeze_request = demo_http_request\<lparr>rq_method := ''POST'', rq_path := [''api'', ''v1'', ''wallets'', ''wallet-b'', ''unfreeze'']\<rparr>"

theorem frozen_wallet_blocks_transfers_witness:
  "\<exists>w1. HandleFreezeWallet demo_env (alice_request ''wallet-b'') demo_world = (\<lparr>resp_status = 200, resp_body = NoBody\<rparr>, w1) \<and>
     (let w2 = snd (NewServer demo_http demo_authlib demo_env demo_config False unfreeze_request w1) in
        db (snd (ExecuteTransfer demo_env demo_transfer ''key-1'' w2)) = db w2)"
proof -
  obtain resp w1 where run: "HandleFreezeWallet demo_env (alice_request ''wallet-b'') demo_world = (resp, w1)" by (meson surj_pair)
  have "fst (HandleFreezeWallet demo_env (alice_request ''wallet-b'') demo_world) = \<lparr>resp_status = 200, resp_body = NoBody\<rparr>" by code_simp
  with run have resp: "resp = \<lparr>resp_status = 200, resp_body = NoBody\<rparr>" by simp
  let ?w2 = "snd (NewServer demo_http demo_authlib demo_env demo_config False unfreeze_request w1)"
  have prom: "prom_reads demo_http" by (simp add: prom_reads_def demo_http_def)
  have "c_Role c \<noteq> ''SYSTEM'' \<and> c_Role c \<noteq> ''ADMIN''"
    if "ValidateToken demo_authlib t tok (cfg_JWTSecret demo_config) = Inr c" for t tok c
    using that by (auto simp: ValidateToken_def demo_authlib_def authlib_for_def demo_claims_def split: option.splits signing_method.splits if_splits)
  then have "(unadministered_step demo_http demo_authlib demo_env demo_config False)\<^sup>*\<^sup>* w1 ?w2"
    by (intro r_into_rtranclp unadministered_step.request) blast
  note steps = this
  have "uuid_in demo_env (rq_id (alice_request ''wallet-b'')) = uuid_in demo_env (tr_DestinationWalletID demo_transfer)" by code_simp
  with frozen_wallet_blocks_transfers [OF demo_env_canonical prom run _ steps, of demo_transfer "''key-1''", OF _ _ surjective_pairing] resp run
  show ?thesis by (auto simp: Let_def)
qed

section \<open>Concurrent transfers and webhooks, and the books\<close>

text \<open>Transfers and webhooks as sessions, everything else as whole steps of the system that wait for what these hold.\<close>

lemma mixed_step_books:
  assumes "pg_laws E" and "prom_reads C" and inv: "mixed_inv E m" "books_inv E (db (cw (tr m)))"
    and step: "mixed_step E (system_step C L E cfg hasRedis) m m'"
  shows "mixed_inv E m' \<and> books_inv E (db (cw (tr m')))"
proof -
  have kept: "books_inv E (db w')" if "system_step C L E cfg hasRedis w w'" "books_inv E (db w)" for w w'
    using books_kept [OF assms(1,2) reachable.step [OF reachable.initial that(1)] that(2)] .
  from inv(1) have li: "lock_inv E (tr m)" and hi: "hook_inv E m" and pi: "payment_inv E (db (cw (tr m)))" by (simp_all add: mixed_inv_def)
  have books: "books_inv E (db (cw (tr m')))"
    using step
  proof (cases rule: mixed_step.cases)
    case (transfer i c)
    from step_effect_db [of E i "tr m" c] session_step_ok [OF pg_lawsD(1) [OF assms(1)] li transfer(2)] inv(2) transfer(1)
    show ?thesis by (auto intro: transfer_applied_books)
  next
    case (webhook i)
    from hook_effect_db [of E i m m'] hook_step_ok [OF hi pg_lawsD(2) [OF assms(1)] _ webhook] pi inv(2)
    show ?thesis by (auto simp: payment_inv_def intro: webhook_applied_books_kept [OF assms(1)])
  next
    case (foreign w)
    with kept inv(2) show ?thesis by simp
  qed
  define other where "other = (\<lambda>w w'. system_step C L E cfg hasRedis w w' \<and> books_inv E (db w))"
  have "keeps_payments E other"
    using kept by (auto simp: keeps_payments_def other_def books_inv_def)
  moreover have "mixed_step E other m m'"
    using step inv(2) by (auto simp: other_def elim!: mixed_step.cases intro: mixed_step.intros)
  ultimately have "mixed_inv E m'" using mixed_step_ok [of E other m m'] inv(1) assms(1) by (simp add: pg_laws_def)
  with books show ?thesis by simp
qed

text \<open>
  C4: the books under concurrency. From any reachable state let any number of transfers and webhooks run at the same
  time, interleaved statement by statement with each other and with any other requests and worker runs, which wait
  for what the transfers and webhooks hold, and with any faults: in every state on the way the books are in order, as in the
  sequential system. In particular a payment is credited once, however many webhooks report its success at once.
\<close>

theorem concurrent_books:
  assumes "pg_laws E" and "prom_reads C" and "fresh_start (db w0)" and "reachable C L E cfg hasRedis w0 w"
    and "(mixed_step E (system_step C L E cfg hasRedis))\<^sup>*\<^sup>* (mixed_started rs hs w) m"
  shows "(\<forall>r \<in> set (wallets (db (cw (tr m)))). 0 \<le> sint (w_AvailableBalance r) \<and> 0 \<le> sint (w_LockedBalance r) \<and>
       sint (w_AvailableBalance r) + sint (w_LockedBalance r) = net_account (w_AccountID r) (ledger_entries (db (cw (tr m))))) \<and>
    debits (ledger_entries (db (cw (tr m)))) = credits (ledger_entries (db (cw (tr m)))) \<and>
    (\<forall>p \<in> set (payments (db (cw (tr m)))). credits_of (p_ID p) (db (cw (tr m))) = (if p_Status p = ''SUCCEEDED'' then 1 else 0)) \<and>
    sum_list (map (\<lambda>r. sint (w_AvailableBalance r)) (wallets (db (cw (tr m))))) =
      sum_list (map (\<lambda>p. if p_Status p = ''SUCCEEDED'' then sint (p_Amount p) else 0) (payments (db (cw (tr m)))))"
proof -
  from assms(5) have "mixed_inv E m \<and> books_inv E (db (cw (tr m)))"
  proof (induction rule: rtranclp_induct)
    case base
    have "books_inv E (db w)" by (rule reachable_books [OF assms(1-4)])
    moreover from this have "payment_inv E (db w)" by (simp add: books_inv_def)
    ultimately show ?case using mixed_inv_started [of E w rs hs] by (simp add: mixed_started_def started_def)
  next
    case (step m1 m2)
    from mixed_step_books [OF assms(1,2) _ _ step(2)] step.IH show ?case by blast
  qed
  then have "books_inv E (db (cw (tr m)))" ..
  then show ?thesis by (rule books_invD)
qed

theorem concurrent_books_witness:
  "\<exists>m. run_moves demo_env [MoveTransfer 0, MoveWebhook 0, MoveTransfer 1, MoveWebhook 0]
       (mixed_started opposite [(''simulator'', first_report)] served_world) = Some m \<and>
     (\<forall>r \<in> set (wallets (db (cw (tr m)))). 0 \<le> sint (w_AvailableBalance r))"
proof -
  have "prom_reads demo_http" by (simp add: prom_reads_def demo_http_def)
  moreover have "fresh_start (db (fresh_world\<lparr>tick := 7\<rparr>))" by (simp add: fresh_start_def fresh_world_def empty_db_def)
  moreover have "run_moves demo_env [MoveTransfer 0, MoveWebhook 0, MoveTransfer 1, MoveWebhook 0]
       (mixed_started opposite [(''simulator'', first_report)] served_world) \<noteq> None" by code_simp
  then obtain m where run: "run_moves demo_env [MoveTransfer 0, MoveWebhook 0, MoveTransfer 1, MoveWebhook 0]
       (mixed_started opposite [(''simulator'', first_report)] served_world) = Some m" by blast
  ultimately show ?thesis
    using concurrent_books [OF demo_env_laws _ _ served_reachable run_moves_mixed [OF run]] by blast
qed

end
